(* ===== verification/Prelude.thy ===== *)
theory Prelude
  imports Main "HOL-Library.Word"
begin

text \<open>
  Shared vocabulary of the development: Go's fixed-width integers as words, Go's run-time
  panics and early exits as the left side of a sum, bounds-checked slices, the \<open>fmt\<close> verbs
  the programs use, and the lemmas on bit fields and digits that every component needs.
\<close>

unbundle bit_operations_syntax

section \<open>Machine integers\<close>

type_synonym u8 = "8 word"
type_synonym u16 = "16 word"
type_synonym u32 = "32 word"
type_synonym u64 = "64 word"

named_theorems result_simps \<open>inversion of the result monad and of checked slices\<close>
named_theorems field_simps16 \<open>bit fields of 16-bit words\<close>

lemma shift_mask: "push_bit n 1 - 1 = (mask n :: 'a::len word)"
  by (simp add: mask_eq_decr_exp push_bit_eq_mult)

lemma unat_field:
  "unat (take_bit n (drop_bit m (w :: 'a::len word))) = unat w div 2 ^ m mod 2 ^ n"
proof -
  have "unat (take_bit n (drop_bit m w)) = take_bit n (drop_bit m (unat w))"
    by (simp only: unsigned_take_bit_eq unat_drop_bit_eq)
  then show ?thesis by (simp only: take_bit_eq_mod drop_bit_eq_div)
qed

lemma unat_ucast_le:
  "LENGTH('a::len) \<le> LENGTH('b::len) \<Longrightarrow> unat (ucast (w :: 'a word) :: 'b word) = unat w"
proof -
  assume "LENGTH('a) \<le> LENGTH('b)"
  then have "(2::nat) ^ LENGTH('a) \<le> 2 ^ LENGTH('b)"
    by (rule power_increasing) simp
  moreover have "unat w < 2 ^ LENGTH('a)"
    by (rule unsigned_less)
  ultimately have "unat w < 2 ^ LENGTH('b)"
    by (rule order_less_le_trans [rotated])
  then show ?thesis by (simp add: unsigned_ucast_eq take_bit_nat_eq_self_iff)
qed

lemma unat_lt_u16: "unat (w :: u16) < 65536"
proof -
  have "unat w < 2 ^ LENGTH(16)" by (rule unsigned_less)
  then show ?thesis by simp
qed

lemma eq_of_nat_if_unat: "unat (x :: 'a::len word) = n \<Longrightarrow> x = of_nat n"
  by auto

lemma byte_eqI: "(\<And>k. k < 8 \<Longrightarrow> bit b k = bit c k) \<Longrightarrow> b = (c :: u8)"
  by (rule bit_word_eqI) simp

lemma less_8: "k < (8 :: nat) \<longleftrightarrow> k = 0 \<or> k = 1 \<or> k = 2 \<or> k = 3 \<or> k = 4 \<or> k = 5 \<or> k = 6 \<or> k = 7"
  by arith

lemma and_fff: "x AND 0xFFF = take_bit 12 (x :: 'a::len word)"
  by (simp add: take_bit_eq_mask mask_eq_exp_minus_1)

lemma unat_low12:
  fixes e :: u16
  shows "unat (ucast (e AND 0xFFF) :: u32) = unat e mod 4096"
proof -
  have "unat (ucast (e AND 0xFFF) :: u32) = unat (e AND 0xFFF)" by (rule unat_ucast_le) simp
  also have "\<dots> = unat e mod 4096"
    by (simp only: and_fff unsigned_take_bit_eq) (simp add: take_bit_eq_mod)
  finally show ?thesis .
qed

lemma page_or_add:
  fixes e v :: u16
  shows "push_bit 12 (ucast (e AND 0xFFF)) OR ucast (v AND 0xFFF)
    = push_bit 12 (ucast (e AND 0xFFF)) + (ucast (v AND 0xFFF) :: u32)"
  unfolding and_fff
  by (rule disjunctive_add [symmetric])
     (simp add: bit_push_bit_iff bit_take_bit_iff bit_ucast_iff; linarith)

lemma unat_page_word:
  fixes e v :: u16
  shows "unat (push_bit 12 (ucast (e AND 0xFFF)) OR ucast (v AND 0xFFF) :: u32)
    = 4096 * (unat e mod 4096) + unat v mod 4096"
proof -
  let ?u = "ucast (e AND 0xFFF) :: u32" and ?l = "ucast (v AND 0xFFF) :: u32"
  have b: "4096 * (unat e mod 4096) + unat v mod 4096 < 2 ^ 32"
    using mod_less_divisor [of 4096 "unat e"] mod_less_divisor [of 4096 "unat v"] by simp
  have "push_bit 12 ?u + ?l = 2 ^ 12 * ?u + ?l"
    by (simp only: push_bit_eq_mult mult.commute)
  then have "unat (push_bit 12 ?u + ?l) = (2 ^ 12 * unat ?u + unat ?l) mod 2 ^ 32"
    by (simp add: unat_word_ariths mod_simps)
  also have "\<dots> = 4096 * (unat e mod 4096) + unat v mod 4096"
    using b by (simp add: unat_low12)
  finally show ?thesis unfolding page_or_add .
qed

section \<open>Results: a value, or the panic that ends the program\<close>

text \<open>
  \<open>bindE\<close> sequences two computations and stops at the first panic, as a Go panic that no
  \<open>recover\<close> catches does; none of the programs recovers.
\<close>

definition bindE :: "'e + 'a \<Rightarrow> ('a \<Rightarrow> 'e + 'b) \<Rightarrow> 'e + 'b" where
  "bindE m f = (case m of Inl e \<Rightarrow> Inl e | Inr x \<Rightarrow> f x)"

lemma bindE_simps [simp]: "bindE (Inl e) f = Inl e" "bindE (Inr x) f = f x"
  by (simp_all add: bindE_def)

lemma bindE_Inr_iff [result_simps]: "bindE m f = Inr y \<longleftrightarrow> (\<exists>x. m = Inr x \<and> f x = Inr y)"
  by (cases m) auto

lemma bindE_Inl_iff [result_simps]:
  "bindE m f = Inl e \<longleftrightarrow> m = Inl e \<or> (\<exists>x. m = Inr x \<and> f x = Inl e)"
  by (cases m) auto

lemma bindE_assoc: "bindE (bindE m f) g = bindE m (\<lambda>x. bindE (f x) g)"
  by (cases m) auto

text \<open>Sequencing of computations that may also not return.\<close>

definition bindO :: "('e + 'a) option \<Rightarrow> ('a \<Rightarrow> ('e + 'b) option) \<Rightarrow> ('e + 'b) option" where
  "bindO m f = Option.bind m (\<lambda>r. case r of Inl e \<Rightarrow> Some (Inl e) | Inr x \<Rightarrow> f x)"

lemma bindO_simps:
  "bindO (Some (Inr x)) f = f x" "bindO (Some (Inl e)) f = Some (Inl e)" "bindO None f = None"
  by (simp_all add: bindO_def)

lemma bindE_cong [fundef_cong]:
  "m = m' \<Longrightarrow> (\<And>x. m' = Inr x \<Longrightarrow> f x = g x) \<Longrightarrow> bindE m f = bindE m' g"
  by (cases m') auto

primrec mapE :: "('a \<Rightarrow> 'e + 'b) \<Rightarrow> 'a list \<Rightarrow> 'e + 'b list" where
  "mapE f [] = Inr []"
| "mapE f (x # xs) = bindE (f x) (\<lambda>y. bindE (mapE f xs) (\<lambda>ys. Inr (y # ys)))"

lemma mapE_total: "(\<And>x. x \<in> set xs \<Longrightarrow> f x = Inr (g x)) \<Longrightarrow> mapE f xs = Inr (map g xs)"
  by (induction xs) auto

text \<open>
  Two triples over results: \<open>postE Q r\<close> says that \<open>Q\<close> holds of the value, if there is one, and
  \<open>panicE P r\<close> that \<open>P\<close> holds of the panic, if there is one. Their rules follow the shape of the
  program, so a handler with many branches is proved without unfolding its conditions.
\<close>

definition postE :: "('a \<Rightarrow> bool) \<Rightarrow> 'e + 'a \<Rightarrow> bool" where
  "postE Q r \<longleftrightarrow> (\<forall>x. r = Inr x \<longrightarrow> Q x)"

definition panicE :: "('e \<Rightarrow> bool) \<Rightarrow> 'e + 'a \<Rightarrow> bool" where
  "panicE P r \<longleftrightarrow> (\<forall>e. r = Inl e \<longrightarrow> P e)"

named_theorems post_intros \<open>rules for postE\<close>
named_theorems panic_intros \<open>rules for panicE\<close>

lemma postE_basic [post_intros]: "postE Q (Inl e)" "Q x \<Longrightarrow> postE Q (Inr x)"
  by (simp_all add: postE_def)

lemma postE_if [post_intros]:
  "(c \<Longrightarrow> postE Q a) \<Longrightarrow> (\<not> c \<Longrightarrow> postE Q b) \<Longrightarrow> postE Q (if c then a else b)"
  by simp

lemma postE_bind [post_intros]:
  "(\<And>x. m = Inr x \<Longrightarrow> postE Q (f x)) \<Longrightarrow> postE Q (bindE m f)"
  by (auto simp: postE_def bindE_Inr_iff)

lemma postE_prod [post_intros]:
  "(\<And>x y. z = (x, y) \<Longrightarrow> postE Q (f x y)) \<Longrightarrow> postE Q (case z of (x, y) \<Rightarrow> f x y)"
  by (cases z) simp

lemma postED: "postE Q r \<Longrightarrow> r = Inr x \<Longrightarrow> Q x"
  by (simp add: postE_def)

lemma panicE_basic [panic_intros]: "panicE P (Inr x)" "P e \<Longrightarrow> panicE P (Inl e)"
  by (simp_all add: panicE_def)

lemma panicE_if [panic_intros]:
  "(c \<Longrightarrow> panicE P a) \<Longrightarrow> (\<not> c \<Longrightarrow> panicE P b) \<Longrightarrow> panicE P (if c then a else b)"
  by simp

lemma panicE_bind [panic_intros]:
  "panicE P m \<Longrightarrow> (\<And>x. m = Inr x \<Longrightarrow> panicE P (f x)) \<Longrightarrow> panicE P (bindE m f)"
  by (auto simp: panicE_def bindE_Inl_iff)

lemma panicE_prod [panic_intros]:
  "(\<And>x y. z = (x, y) \<Longrightarrow> panicE P (f x y)) \<Longrightarrow> panicE P (case z of (x, y) \<Rightarrow> f x y)"
  by (cases z) simp

lemma panicED: "panicE P r \<Longrightarrow> r = Inl e \<Longrightarrow> P e"
  by (simp add: panicE_def)

section \<open>Panics and checked slices\<close>

datatype panic =
    IndexOutOfRange
  | AssertionFailure string
  | DecodeFailure string
  | Fatal string

definition idx :: "'a list \<Rightarrow> nat \<Rightarrow> panic + 'a" where
  "idx xs i = (if i < length xs then Inr (xs ! i) else Inl IndexOutOfRange)"

definition upd :: "'a list \<Rightarrow> nat \<Rightarrow> 'a \<Rightarrow> panic + 'a list" where
  "upd xs i v = (if i < length xs then Inr (xs[i := v]) else Inl IndexOutOfRange)"

lemma idx_in [simp]: "i < length xs \<Longrightarrow> idx xs i = Inr (xs ! i)"
  by (simp add: idx_def)

lemma upd_in [simp]: "i < length xs \<Longrightarrow> upd xs i v = Inr (xs[i := v])"
  by (simp add: upd_def)

lemma idx_Inr_iff [result_simps]: "idx xs i = Inr v \<longleftrightarrow> i < length xs \<and> v = xs ! i"
  by (auto simp: idx_def)

lemma upd_Inr_iff [result_simps]: "upd xs i v = Inr ys \<longleftrightarrow> i < length xs \<and> ys = xs[i := v]"
  by (auto simp: upd_def)

lemma idx_Inl_iff [result_simps]: "idx xs i = Inl e \<longleftrightarrow> length xs \<le> i \<and> e = IndexOutOfRange"
  by (auto simp: idx_def)

lemma upd_Inl_iff [result_simps]: "upd xs i v = Inl e \<longleftrightarrow> length xs \<le> i \<and> e = IndexOutOfRange"
  by (auto simp: upd_def)

section \<open>The fmt verbs: decimal and upper-case hexadecimal\<close>

fun to_digits :: "nat \<Rightarrow> nat \<Rightarrow> nat list" where
  "to_digits b n = (if b < 2 \<or> n < b then [n] else to_digits b (n div b) @ [n mod b])"

declare to_digits.simps [simp del]

definition of_digits :: "nat \<Rightarrow> nat list \<Rightarrow> nat" where
  "of_digits b ds = foldl (\<lambda>n d. n * b + d) 0 ds"

lemma of_digits_snoc: "of_digits b (ds @ [d]) = of_digits b ds * b + d"
  by (simp add: of_digits_def)

lemma of_digits_zeros: "of_digits b (replicate k 0 @ ds) = of_digits b ds"
proof -
  have "foldl (\<lambda>n d. n * b + d) 0 (replicate k 0) = (0::nat)"
    by (induction k) auto
  then show ?thesis by (simp add: of_digits_def)
qed

lemma of_to_digits: "2 \<le> b \<Longrightarrow> of_digits b (to_digits b n) = n"
proof (induction b n rule: to_digits.induct)
  case (1 b n)
  show ?case
  proof (cases "n < b")
    case True
    then show ?thesis by (simp add: to_digits.simps [of b n] of_digits_def)
  next
    case False
    with 1 have "of_digits b (to_digits b (n div b)) = n div b" by simp
    with False 1(2) show ?thesis
      by (simp add: to_digits.simps [of b n] of_digits_snoc)
  qed
qed

lemma to_digits_small: "2 \<le> b \<Longrightarrow> d \<in> set (to_digits b n) \<Longrightarrow> d < b"
proof (induction b n rule: to_digits.induct)
  case (1 b n)
  then show ?case
    by (cases "n < b") (auto simp: to_digits.simps [of b n])
qed

lemma to_digits_nonempty [simp]: "to_digits b n \<noteq> []"
  by (subst to_digits.simps) simp

definition digit_chars :: string where
  "digit_chars = ''0123456789ABCDEF''"

definition digit_char :: "nat \<Rightarrow> char" where
  "digit_char d = digit_chars ! d"

definition zero_pad :: "nat \<Rightarrow> nat list \<Rightarrow> nat list" where
  "zero_pad w ds = replicate (w - length ds) 0 @ ds"

definition fmt_d :: "nat \<Rightarrow> string" where
  "fmt_d n = map digit_char (to_digits 10 n)"

definition fmt_X :: "nat \<Rightarrow> nat \<Rightarrow> string" where
  "fmt_X w n = map digit_char (zero_pad w (to_digits 16 n))"

definition fmt_s :: "nat \<Rightarrow> string \<Rightarrow> string" where
  "fmt_s w s = replicate (w - length s) CHR '' '' @ s"

definition fmt_t :: "bool \<Rightarrow> string" where
  "fmt_t b = (if b then ''true'' else ''false'')"

definition newline :: string where
  "newline = [CHR 0x0A]"

end
