(* ===== verification/Machine.thy ===== *)
theory Machine
  imports Prelude
begin

text \<open>
  The state of the WUT-4 emulator (\<open>emul/emul.go\<close>) and the helpers of \<open>emul/util.go\<close>:
  bit fields, address translation, reset and immediates. The package variables (\<open>physmem\<close>,
  the flags, \<open>dbEnabled\<close>, standard input and output) are fields of the same record, so
  every operation is a function from the state to a result. \<open>dsm_cmd\<close> stands for the external
  command \<open>../dsm/dsm\<close> that \<open>rundis\<close> starts.
\<close>

section \<open>Constants\<close>

definition K :: nat where "K = 1024"
definition IOSize :: nat where "IOSize = 64"
definition SprSize :: nat where "SprSize = 64"

abbreviation (input) PC :: nat where "PC \<equiv> 0"
abbreviation (input) Link :: nat where "Link \<equiv> 1"
abbreviation (input) Irr :: nat where "Irr \<equiv> 2"
abbreviation (input) Icr :: nat where "Icr \<equiv> 3"
abbreviation (input) Imr :: nat where "Imr \<equiv> 4"
abbreviation (input) CCLS :: nat where "CCLS \<equiv> 6"
abbreviation (input) CCMS :: nat where "CCMS \<equiv> 7"
abbreviation (input) MmuCtl1 :: nat where "MmuCtl1 \<equiv> 8"

abbreviation (input) Kern :: nat where "Kern \<equiv> 0"
abbreviation (input) User :: nat where "User \<equiv> 1"

type_synonym exception = u16

abbreviation (input) ExNone :: exception where "ExNone \<equiv> 0"
abbreviation (input) ExIllegal :: exception where "ExIllegal \<equiv> 16"
abbreviation (input) ExMemory :: exception where "ExMemory \<equiv> 18"
abbreviation (input) ExAlign :: exception where "ExAlign \<equiv> 20"
abbreviation (input) ExMachine :: exception where "ExMachine \<equiv> 30"

type_synonym physaddr = u32

definition PhysMemSize :: nat where "PhysMemSize = 6 * 64 * 1024"

section \<open>State\<close>

record w4reg =
  gen :: "u16 list"
  spr :: "u16 list"

record w4machine =
  cyc :: u64
  reg :: "w4reg list"
  io :: "u16 list"
  pc :: u16
  run :: bool
  en :: bool
  mode :: u8
  alu :: u16
  sd :: u16
  wb :: u16
  ex :: exception
  ir :: u16
  hc :: u16
  op :: u16
  imm :: u16
  xop :: u16
  yop :: u16
  zop :: u16
  vop :: u16
  isXop :: bool
  isYop :: bool
  isZop :: bool
  isVop :: bool
  isBase :: bool
  ra :: u16
  rb :: u16
  rc :: u16

text \<open>The machine together with the package variables its methods use.\<close>

record emu = w4machine +
  physmem :: "nat \<Rightarrow> u16"
  dbEnabled :: bool
  blockedForInput :: bool
  hflag :: bool
  qflag :: bool
  stdin :: "u8 list"
  stdout :: string
  create_ok :: bool
  corefile :: "u8 list option"
  dsm_cmd :: "string \<Rightarrow> string + string"

type_synonym result = "panic + emu"

definition zero_reg :: w4reg where
  "zero_reg = \<lparr>gen = replicate 8 0, spr = replicate SprSize 0\<rparr>"

text \<open>The package variable \<open>w4\<close> and the other globals as Go initialises them.\<close>

definition init_emu :: "bool \<Rightarrow> bool \<Rightarrow> bool \<Rightarrow> u8 list \<Rightarrow> (string \<Rightarrow> string + string) \<Rightarrow> emu" where
  "init_emu dflag h q input cmd =
     \<lparr>cyc = 0, reg = [zero_reg, zero_reg], io = replicate IOSize 0, pc = 0, run = False,
      en = False, mode = 0, alu = 0, sd = 0, wb = 0, ex = 0, ir = 0, hc = 0, op = 0, imm = 0,
      xop = 0, yop = 0, zop = 0, vop = 0, isXop = False, isYop = False, isZop = False,
      isVop = False, isBase = False, ra = 0, rb = 0, rc = 0,
      physmem = (\<lambda>_. 0), dbEnabled = dflag, blockedForInput = False, hflag = h, qflag = q,
      stdin = input, stdout = [], create_ok = True, corefile = None, dsm_cmd = cmd\<rparr>"

section \<open>Register, special register and memory access\<close>

text \<open>\<open>w4.reg[m].gen[i]\<close> and \<open>w4.reg[m].spr[i]\<close>, with Go's bounds checks.\<close>

definition gen_get :: "emu \<Rightarrow> nat \<Rightarrow> nat \<Rightarrow> panic + u16" where
  "gen_get s m i = bindE (idx (reg s) m) (\<lambda>r. idx (gen r) i)"

definition spr_get :: "emu \<Rightarrow> nat \<Rightarrow> nat \<Rightarrow> panic + u16" where
  "spr_get s m i = bindE (idx (reg s) m) (\<lambda>r. idx (spr r) i)"

definition gen_set :: "emu \<Rightarrow> nat \<Rightarrow> nat \<Rightarrow> u16 \<Rightarrow> result" where
  "gen_set s m i v =
     bindE (idx (reg s) m) (\<lambda>r. bindE (upd (gen r) i v) (\<lambda>g.
       Inr (s\<lparr>reg := (reg s)[m := r\<lparr>gen := g\<rparr>]\<rparr>)))"

definition spr_set :: "emu \<Rightarrow> nat \<Rightarrow> nat \<Rightarrow> u16 \<Rightarrow> result" where
  "spr_set s m i v =
     bindE (idx (reg s) m) (\<lambda>r. bindE (upd (spr r) i v) (\<lambda>g.
       Inr (s\<lparr>reg := (reg s)[m := r\<lparr>spr := g\<rparr>]\<rparr>)))"

text \<open>\<open>physmem\<close> is an array of \<open>PhysMemSize\<close> words; an index outside it panics.\<close>

definition mem_get :: "emu \<Rightarrow> physaddr \<Rightarrow> panic + u16" where
  "mem_get s a = (if unat a < PhysMemSize then Inr (physmem s (unat a)) else Inl IndexOutOfRange)"

definition mem_set :: "emu \<Rightarrow> physaddr \<Rightarrow> u16 \<Rightarrow> result" where
  "mem_set s a v =
     (if unat a < PhysMemSize then Inr (s\<lparr>physmem := (physmem s)(unat a := v)\<rparr>)
      else Inl IndexOutOfRange)"

section \<open>Helpers of util.go\<close>

definition bits :: "u16 \<Rightarrow> nat \<Rightarrow> nat \<Rightarrow> u16" where
  "bits w hi lo = drop_bit lo w AND (push_bit (hi - lo + 1) 1 - 1)"

definition translate :: "emu \<Rightarrow> bool \<Rightarrow> u16 \<Rightarrow> panic + (exception \<times> physaddr)" where
  "translate s isData virtAddr =
     (let sprOffset = 32 + (if isData then 16 else 0) + unat (drop_bit 12 virtAddr)
      in bindE (spr_get s (unat (mode s)) sprOffset) (\<lambda>entry.
           let upper = ucast (entry AND 0xFFF) :: physaddr;
               lower = ucast (virtAddr AND 0xFFF) :: physaddr;
               full = push_bit 12 upper OR lower;
               res = (if isData then drop_bit 1 full else full)
           in if unat res > PhysMemSize then Inr (ExMemory, res) else Inr (ExNone, res)))"

definition reset :: "emu \<Rightarrow> result" where
  "reset s =
     spr_set (s\<lparr>cyc := 0, pc := 0, run := True, mode := of_nat Kern, ex := 0, en := False\<rparr>)
       Kern Imr (of_nat User)"

definition sxtImm :: "emu \<Rightarrow> u16" where
  "sxtImm s =
     (let i = ir s; o1 = bits i 15 13; neg = (bits i 12 12 \<noteq> 0)
      in if o1 < 6 then (if neg then bits i 12 6 OR 0xFF80 else bits i 12 6)
         else if o1 = 6 then push_bit 6 (bits i 12 3)
         else if o1 = 7 \<and> \<not> neg then bits i 12 6
         else 0)"

section \<open>Well-formed register files\<close>

definition wf_regs :: "w4reg list \<Rightarrow> bool" where
  "wf_regs rs \<longleftrightarrow> length rs = 2 \<and> (\<forall>r \<in> set rs. length (gen r) = 8 \<and> length (spr r) = 64)"

definition wf :: "emu \<Rightarrow> bool" where
  "wf s \<longleftrightarrow> wf_regs (reg s) \<and> unat (mode s) < 2"

lemma wf_regsD [simp]:
  "wf_regs rs \<Longrightarrow> length rs = 2"
  "wf_regs rs \<Longrightarrow> m < 2 \<Longrightarrow> length (gen (rs ! m)) = 8"
  "wf_regs rs \<Longrightarrow> m < 2 \<Longrightarrow> length (spr (rs ! m)) = 64"
  by (auto simp: wf_regs_def)

lemma wf_regs_update [intro]:
  "wf_regs rs \<Longrightarrow> length (gen r) = 8 \<Longrightarrow> length (spr r) = 64 \<Longrightarrow> wf_regs (rs[m := r])"
  by (auto simp: wf_regs_def dest!: set_update_subset_insert [THEN subsetD])

lemma gen_get_ok:
  "wf_regs (reg s) \<Longrightarrow> m < 2 \<Longrightarrow> i < 8 \<Longrightarrow> gen_get s m i = Inr (gen (reg s ! m) ! i)"
  by (simp add: gen_get_def)

lemma spr_get_ok:
  "wf_regs (reg s) \<Longrightarrow> m < 2 \<Longrightarrow> i < 64 \<Longrightarrow> spr_get s m i = Inr (spr (reg s ! m) ! i)"
  by (simp add: spr_get_def)

text \<open>Writing one special or general register.\<close>

definition put_gen :: "w4reg list \<Rightarrow> nat \<Rightarrow> nat \<Rightarrow> u16 \<Rightarrow> w4reg list" where
  "put_gen rs m i v = rs[m := (rs ! m)\<lparr>gen := (gen (rs ! m))[i := v]\<rparr>]"

definition put_spr :: "w4reg list \<Rightarrow> nat \<Rightarrow> nat \<Rightarrow> u16 \<Rightarrow> w4reg list" where
  "put_spr rs m i v = rs[m := (rs ! m)\<lparr>spr := (spr (rs ! m))[i := v]\<rparr>]"

lemma gen_set_ok:
  "wf_regs (reg s) \<Longrightarrow> m < 2 \<Longrightarrow> i < 8 \<Longrightarrow> gen_set s m i v = Inr (s\<lparr>reg := put_gen (reg s) m i v\<rparr>)"
  by (simp add: gen_set_def put_gen_def)

lemma spr_set_ok:
  "wf_regs (reg s) \<Longrightarrow> m < 2 \<Longrightarrow> i < 64 \<Longrightarrow> spr_set s m i v = Inr (s\<lparr>reg := put_spr (reg s) m i v\<rparr>)"
  by (simp add: spr_set_def put_spr_def)

lemma wf_put [simp]:
  "wf_regs rs \<Longrightarrow> m < 2 \<Longrightarrow> wf_regs (put_gen rs m i v)"
  "wf_regs rs \<Longrightarrow> m < 2 \<Longrightarrow> wf_regs (put_spr rs m i v)"
  by (auto simp: put_gen_def put_spr_def)

lemma put_gen_nth:
  "wf_regs rs \<Longrightarrow> m < 2 \<Longrightarrow> k < 2 \<Longrightarrow>
   put_gen rs m i v ! k = (if k = m then (rs ! m)\<lparr>gen := (gen (rs ! m))[i := v]\<rparr> else rs ! k)"
  by (simp add: put_gen_def nth_list_update)

lemma put_spr_nth:
  "wf_regs rs \<Longrightarrow> m < 2 \<Longrightarrow> k < 2 \<Longrightarrow>
   put_spr rs m i v ! k = (if k = m then (rs ! m)\<lparr>spr := (spr (rs ! m))[i := v]\<rparr> else rs ! k)"
  by (simp add: put_spr_def nth_list_update)

lemma gen_set_Inr: "gen_set s m i v = Inr s' \<Longrightarrow> s' = s\<lparr>reg := put_gen (reg s) m i v\<rparr>"
  by (auto simp: gen_set_def put_gen_def result_simps)

lemma spr_set_Inr: "spr_set s m i v = Inr s' \<Longrightarrow> s' = s\<lparr>reg := put_spr (reg s) m i v\<rparr>"
  by (auto simp: spr_set_def put_spr_def result_simps)

lemma wf_put_gen': "wf_regs rs \<Longrightarrow> wf_regs (put_gen rs m i v)"
  by (cases "m < 2") (auto simp: put_gen_def list_update_beyond)

lemma wf_put_spr': "wf_regs rs \<Longrightarrow> wf_regs (put_spr rs m i v)"
  by (cases "m < 2") (auto simp: put_spr_def list_update_beyond)

section \<open>Bit fields of an instruction\<close>

lemma bits_field: "bits w hi lo = take_bit (hi - lo + 1) (drop_bit lo w)"
  by (simp only: bits_def shift_mask take_bit_eq_mask)

lemma unat_bits: "unat (bits w hi lo) = unat w div 2 ^ lo mod 2 ^ (hi - lo + 1)"
  by (simp only: bits_field unat_field)

lemma unat_bits_less: "unat (bits w hi lo) < 2 ^ (hi - lo + 1)"
  by (simp only: unat_bits) simp

lemma unat_bits3: "unat (bits w 11 9) < 8" "unat (bits w 8 6) < 8" "unat (bits w 5 3) < 8" "unat (bits w 2 0) < 8" "unat (bits w 15 13) < 8"
  using unat_bits_less [of w 11 9] unat_bits_less [of w 8 6] unat_bits_less [of w 5 3] unat_bits_less [of w 2 0] unat_bits_less [of w 15 13] by simp_all

lemma unat_bits_split:
  assumes "lo < mid" "mid \<le> hi"
  shows "unat (bits w hi lo) = 2 ^ (mid - lo) * unat (bits w hi mid) + unat (bits w (mid - 1) lo)"
proof -
  have e: "hi - lo + 1 = (mid - lo) + (hi - mid + 1)" "mid - 1 - lo + 1 = mid - lo" using assms by auto
  have d: "unat w div 2 ^ mid = unat w div 2 ^ lo div 2 ^ (mid - lo)"
    using assms by (simp flip: div_mult2_eq power_add)
  show ?thesis by (simp only: unat_bits e d power_add mod_mult2_eq)
qed

lemma ones_split [field_simps16]:
  "bits w 15 12 = 0xF \<longleftrightarrow> bits w 15 13 = 7 \<and> bits w 12 12 = 1"
  "bits w 15 9 = 0x7F \<longleftrightarrow> bits w 15 12 = 0xF \<and> bits w 11 9 = 7"
  "bits w 15 6 = 0x3FF \<longleftrightarrow> bits w 15 9 = 0x7F \<and> bits w 8 6 = 7"
  "bits w 15 3 = 0x1FFF \<longleftrightarrow> bits w 15 6 = 0x3FF \<and> bits w 5 3 = 7"
  using unat_bits_split [of 12 13 15 w] unat_bits_less [of w 12 12] unat_bits_less [of w 15 13]
    apply (simp add: word_unat_eq_iff; arith)
  using unat_bits_split [of 9 12 15 w] unat_bits_less [of w 15 12] unat_bits_less [of w 11 9]
    apply (simp add: word_unat_eq_iff; arith)
  using unat_bits_split [of 6 9 15 w] unat_bits_less [of w 15 9] unat_bits_less [of w 8 6]
    apply (simp add: word_unat_eq_iff; arith)
  using unat_bits_split [of 3 6 15 w] unat_bits_less [of w 15 6] unat_bits_less [of w 5 3]
    apply (simp add: word_unat_eq_iff; arith)
  done

lemma jlr_field [field_simps16]: "bits w 15 12 = 0xE \<longleftrightarrow> bits w 15 13 = 7 \<and> bits w 12 12 \<noteq> 1"
  using unat_bits_split [of 12 13 15 w] unat_bits_less [of w 12 12] unat_bits_less [of w 15 13]
  by (simp add: word_unat_eq_iff) presburger

lemma bit12 [field_simps16]: "bits w 12 12 = 0 \<longleftrightarrow> bits w 12 12 \<noteq> 1"
proof -
  have "unat (bits w 12 12) = 0 \<or> unat (bits w 12 12) = 1"
    using unat_bits_less [of w 12 12] by simp arith
  then show ?thesis by (auto simp: word_unat_eq_iff)
qed

section \<open>Address translation as arithmetic\<close>

text \<open>The entry that \<open>translate\<close> selects, and the physical word address it yields.\<close>

definition mmu_entry :: "emu \<Rightarrow> bool \<Rightarrow> u16 \<Rightarrow> u16" where
  "mmu_entry s isData v = spr (reg s ! unat (mode s)) ! (32 + (if isData then 16 else 0) + unat v div 4096)"

definition phys :: "emu \<Rightarrow> bool \<Rightarrow> u16 \<Rightarrow> nat" where
  "phys s isData v =
     (4096 * (unat (mmu_entry s isData v) mod 4096) + unat v mod 4096) div (if isData then 2 else 1)"

lemma unat_page: "unat (drop_bit 12 (v :: u16)) = unat v div 4096"
  by (simp only: unat_drop_bit_eq) (simp add: drop_bit_eq_div)

lemma phys_bound: "phys s d v < 2 ^ 24"
  using mod_less_divisor [of 4096 "unat (mmu_entry s d v)"] mod_less_divisor [of 4096 "unat v"]
  by (simp add: phys_def) arith

lemma shift_data: "unat (drop_bit 1 (w :: u32)) = unat w div 2"
  by (simp only: unat_drop_bit_eq) (simp add: drop_bit_eq_div)

lemma translate_eq:
  assumes "wf s"
  shows "translate s d v =
    Inr (if phys s d v > PhysMemSize then ExMemory else ExNone, of_nat (phys s d v))"
proof -
  let ?e = "mmu_entry s d v"
  let ?f = "push_bit 12 (ucast (?e AND 0xFFF)) OR ucast (v AND 0xFFF) :: u32"
  have i: "32 + (if d then 16 else 0) + unat v div 4096 < 64"
  proof -
    have "unat v < 16 * 4096" using unat_lt_u16 [of v] by simp
    then have "unat v div 4096 < 16" by (rule less_mult_imp_div_less)
    then show ?thesis by simp
  qed
  have g: "spr_get s (unat (mode s)) (32 + (if d then 16 else 0) + unat (drop_bit 12 v)) = Inr ?e"
    unfolding mmu_entry_def unat_page using assms i by (intro spr_get_ok) (auto simp: wf_def)
  have r: "unat (if d then drop_bit 1 ?f else ?f) = phys s d v"
    unfolding phys_def by (cases d) (simp_all only: if_True if_False unat_page_word shift_data div_by_1)
  then have o: "(if d then drop_bit 1 ?f else ?f) = of_nat (phys s d v)"
    by (rule eq_of_nat_if_unat)
  have n: "unat (of_nat (phys s d v) :: u32) = phys s d v"
    using r unfolding o .
  show ?thesis
    unfolding translate_def Let_def g bindE_simps o n by simp
qed
end
