(* ===== verification/Dump.thy ===== *)
theory Dump
  imports Machine
begin

text \<open>
  What the emulator shows and asks (\<open>emul/emul.go\<close>: \<open>dump\<close>, \<open>prompt\<close>, \<open>spOrNL\<close>;
  \<open>emul/util.go\<close>: \<open>core\<close>, \<open>rundis\<close>). Output is appended to \<open>stdout\<close>; every read of
  a register or of \<open>physmem\<close> keeps Go's bounds check, so a dump can panic. What goes to
  standard error (\<open>dbg\<close>, \<open>TODO\<close>) is not modelled.
\<close>

definition spOrNL :: "bool \<Rightarrow> string" where
  "spOrNL sp = (if sp then '' '' else newline)"

text \<open>The output of the external disassembler, less one trailing newline; an empty output
  makes the slice expression \<open>result[len(result)-1:]\<close> panic.\<close>

definition rundis :: "emu \<Rightarrow> string \<Rightarrow> panic + string" where
  "rundis s arg =
     (case dsm_cmd s arg of
        Inl err \<Rightarrow> Inr err
      | Inr out \<Rightarrow>
          if out = [] then Inl IndexOutOfRange
          else if last out = CHR 0x0A then Inr (butlast out) else Inr out)"

definition words_row :: "u16 list \<Rightarrow> string" where
  "words_row ws =
     concat (map (\<lambda>i. fmt_X 4 (unat (ws ! i)) @ spOrNL (i < length ws - 1)) [0..<length ws])"

definition spr_rows :: "emu \<Rightarrow> nat \<Rightarrow> panic + string" where
  "spr_rows s m =
     bindE (mapE (\<lambda>row. mapE (spr_get s m) [8 * row..<8 * row + 8]) [0..<8]) (\<lambda>rows.
       Inr (concat (map (\<lambda>ws. fmt_s 14 [] @ words_row ws) rows)))"

definition mem_row :: "emu \<Rightarrow> physaddr \<Rightarrow> panic + string" where
  "mem_row s a = bindE (mapE (\<lambda>i. mem_get s (a + of_nat i)) [0..<8]) (\<lambda>ws. Inr (words_row ws))"

definition headerFormat :: "string \<Rightarrow> string" where
  "headerFormat h = fmt_s 12 h @ '': ''"

definition dump_pc_line :: "emu \<Rightarrow> exception \<Rightarrow> physaddr \<Rightarrow> panic + string" where
  "dump_pc_line s e codeAddr =
     (if e \<noteq> ExNone
      then Inr (''fault@pc = 0x'' @ fmt_X 4 (unat (pc s)) @ '' (0x'' @ fmt_X 4 (unat e) @ '')''
                  @ newline)
      else bindE (mem_get s codeAddr) (\<lambda>w.
           bindE (rundis s (''0x'' @ fmt_X 4 (unat w) @ ''@0x'' @ fmt_X 4 (unat (pc s)))) (\<lambda>t.
             Inr (''instruction @0x'' @ fmt_X 4 (unat (pc s)) @ '': '' @ t @ newline))))"

definition dump_data_line :: "emu \<Rightarrow> panic + string" where
  "dump_data_line s =
     bindE (translate s True 0) (\<lambda>(e, dataAddr).
       if e \<noteq> ExNone then Inr (headerFormat (''fault@data = 0x'' @ fmt_X 4 0))
       else bindE (mem_row s dataAddr) (\<lambda>row.
              Inr (headerFormat (''dmem@0x'' @ fmt_X 6 (unat dataAddr)) @ row)))"

definition dump_head :: "emu \<Rightarrow> string" where
  "dump_head s =
     (if hflag s then [CHR 0x1B] @ ''[2J'' @ [CHR 0x1B] @ ''[0;0H'' else [])
     @ ''Run '' @ fmt_t (run s) @ '' mode ''
     @ (if mode s = of_nat User then ''user'' else ''kern'')
     @ '' cycle '' @ fmt_d (unat (cyc s)) @ '' alu = 0x'' @ fmt_X 4 (unat (alu s))
     @ '' pc = '' @ fmt_d (unat (pc s)) @ '' exception = 0x'' @ fmt_X 4 (unat (ex s)) @ newline"

definition dump_text :: "emu \<Rightarrow> panic + string" where
  "dump_text s =
     bindE (translate s False (pc s)) (\<lambda>(e, codeAddr).
     bindE (dump_pc_line s e codeAddr) (\<lambda>pcl.
     bindE (idx (reg s) (unat (mode s))) (\<lambda>r.
     bindE (spr_rows s Kern) (\<lambda>krows.
     bindE (spr_rows s User) (\<lambda>urows.
     bindE (mem_row s (codeAddr AND NOT 7)) (\<lambda>imem.
     bindE (dump_data_line s) (\<lambda>dmem.
       Inr (dump_head s @ pcl
            @ headerFormat ''reg'' @ words_row (gen r)
            @ headerFormat ''kern spr'' @ newline @ krows
            @ headerFormat ''user spr'' @ newline @ urows
            @ headerFormat (''imem@0x'' @ fmt_X 6 (unat (codeAddr AND NOT 7))) @ imem
            @ dmem))))))))"

definition dump :: "emu \<Rightarrow> result" where
  "dump s = bindE (dump_text s) (\<lambda>t. Inr (s\<lparr>stdout := stdout s @ t\<rparr>))"

section \<open>The core file and the prompt\<close>

definition le_bytes :: "u16 \<Rightarrow> u8 list" where
  "le_bytes w = [ucast w, ucast (drop_bit 8 w)]"

definition core_bytes :: "(nat \<Rightarrow> u16) \<Rightarrow> u8 list" where
  "core_bytes m = concat (map (\<lambda>i. le_bytes (m i)) [0..<PhysMemSize])"

definition core :: "emu \<Rightarrow> string option \<times> emu" where
  "core s =
     (if create_ok s then (None, s\<lparr>corefile := Some (core_bytes (physmem s))\<rparr>)
      else (Some ''cannot create core file'', s))"

text \<open>
  Each element of the input is the first byte of what one read of standard input returns.
  At the end of the input the read leaves the buffer as it was, so the loop repeats a command
  that does not end it: the prompt never returns, which is \<open>None\<close>.
\<close>

fun prompt_loop :: "u8 list \<Rightarrow> emu \<Rightarrow> (bool \<times> emu) option" where
  "prompt_loop [] s = None"
| "prompt_loop (b # rest) s0 =
     (let s = s0\<lparr>stdin := rest, stdout := stdout s0 @ newline @ ''[h c r s x] sim> ''\<rparr>
      in if b = 0x63 then prompt_loop rest (snd (core s))
         else if b = 0x68 then
           prompt_loop rest (s\<lparr>stdout := stdout s @ ''h - help'' @ newline @ ''c - core'' @ newline
             @ ''r - run'' @ newline @ ''s - single step'' @ newline @ ''x - exit'' @ newline\<rparr>)
         else if b = 0x72 then Some (True, s\<lparr>dbEnabled := False\<rparr>)
         else if b = 0x73 then Some (True, s\<lparr>dbEnabled := True\<rparr>)
         else if b = 0x78 then Some (False, s)
         else prompt_loop rest s)"

definition prompt :: "emu \<Rightarrow> (bool \<times> emu) option" where
  "prompt s = prompt_loop (stdin s) (s\<lparr>blockedForInput := True\<rparr>)"

section \<open>A dump changes nothing but the output\<close>

lemma dump_frame: "dump s = Inr s' \<Longrightarrow> \<exists>t. s' = s\<lparr>stdout := stdout s @ t\<rparr>"
  by (auto simp: dump_def bindE_Inr_iff)

lemma dump_fields:
  assumes "dump s = Inr s'"
  shows "reg s' = reg s" "physmem s' = physmem s" "pc s' = pc s" "mode s' = mode s"
    "en s' = en s" "run s' = run s" "ex s' = ex s" "ir s' = ir s" "op s' = op s"
    "ra s' = ra s" "hc s' = hc s" "alu s' = alu s" "sd s' = sd s" "wb s' = wb s"
    "isXop s' = isXop s" "isYop s' = isYop s" "isZop s' = isZop s" "isVop s' = isVop s"
    "yop s' = yop s" "cyc s' = cyc s" "dbEnabled s' = dbEnabled s"
  using dump_frame [OF assms] by auto

end
