(* ===== verification/Exec.thy ===== *)
theory Exec
  imports Dump
begin

text \<open>
  The five stages of one machine cycle (\<open>emul/exec.go\<close>): \<open>fetch\<close>, \<open>decode\<close>,
  \<open>execute\<close>, \<open>memory\<close>, \<open>writeback\<close>, with one definition per opcode handler. Each
  handler is a function from the emulator state to a result; \<open>Inl\<close> is a Go panic.
\<close>

section \<open>Fetch and decode\<close>

definition trap_entry :: "emu \<Rightarrow> result" where
  "trap_entry s =
     (if \<not> en s then Inl (AssertionFailure ''double fault in fetch()'')
      else bindE (spr_set s Kern Irr (pc s)) (\<lambda>s1.
           bindE (spr_set s1 Kern Icr (ex s1)) (\<lambda>s2.
           bindE (spr_set s2 Kern Imr (ucast (mode s2))) (\<lambda>s3.
             Inr (s3\<lparr>mode := of_nat Kern, pc := ex s3, en := False, ex := 0\<rparr>)))))"

definition fetch :: "emu \<Rightarrow> result" where
  "fetch s0 =
     bindE (if ex s0 \<noteq> 0 then trap_entry s0 else Inr s0) (\<lambda>s.
     bindE (translate s False (pc s)) (\<lambda>(e, addr).
       if e \<noteq> ExNone then Inr (s\<lparr>ex := e\<rparr>)
       else bindE (mem_get s addr) (\<lambda>w. Inr (s\<lparr>ir := w, pc := pc s + 1\<rparr>))))"

definition decode_fields :: "emu \<Rightarrow> emu" where
  "decode_fields s =
     (let i = ir s;
          v = (bits i 15 3 = 0x1FFF);
          z = (\<not> v \<and> bits i 15 6 = 0x03FF);
          y = (\<not> v \<and> \<not> z \<and> bits i 15 9 = 0x007F);
          x = (\<not> v \<and> \<not> z \<and> \<not> y \<and> bits i 15 12 = 0x000F)
      in s\<lparr>op := bits i 15 13, imm := sxtImm s,
           xop := bits i 11 9, yop := bits i 8 6, zop := bits i 5 3, vop := bits i 2 0,
           isVop := v, isZop := z, isYop := y, isXop := x,
           isBase := (\<not> v \<and> \<not> z \<and> \<not> y \<and> \<not> x),
           ra := bits i 2 0, rb := bits i 5 3, rc := bits i 8 6\<rparr>)"

definition decode :: "emu \<Rightarrow> result" where
  "decode s = (if ex s \<noteq> 0 then Inr s else Inr (decode_fields s))"

section \<open>Execute: failures\<close>

definition decodeFailure :: "emu \<Rightarrow> string \<Rightarrow> result" where
  "decodeFailure s msg =
     bindE (dump s) (\<lambda>_. Inl (DecodeFailure (''executeSequential(): decode failure: '' @ msg)))"

definition baseFail :: "emu \<Rightarrow> result" where "baseFail s = decodeFailure s ''base''"
definition yopFail :: "emu \<Rightarrow> result" where "yopFail s = decodeFailure s ''yop''"
definition zopFail :: "emu \<Rightarrow> result" where "zopFail s = decodeFailure s ''zop''"

section \<open>Execute: base operations\<close>

text \<open>\<open>reg[w4.rX]\<close> for the registers of the current mode.\<close>

definition cur_gen :: "emu \<Rightarrow> u16 \<Rightarrow> panic + u16" where
  "cur_gen s r = gen_get s (unat (mode s)) (unat r)"

definition ldw :: "emu \<Rightarrow> result" where
  "ldw s = (if ir s = 0 then Inr (s\<lparr>ex := ExIllegal\<rparr>)
            else bindE (cur_gen s (rb s)) (\<lambda>b. Inr (s\<lparr>alu := b + imm s\<rparr>)))"

definition ldb :: "emu \<Rightarrow> result" where
  "ldb s = bindE (cur_gen s (rb s)) (\<lambda>b. Inr (s\<lparr>alu := b + imm s\<rparr>))"

definition stw :: "emu \<Rightarrow> result" where
  "stw s = bindE (cur_gen s (rb s)) (\<lambda>b. bindE (cur_gen s (ra s)) (\<lambda>a.
             Inr (s\<lparr>alu := b + imm s, sd := a\<rparr>)))"

definition stb :: "emu \<Rightarrow> result" where
  "stb s = bindE (cur_gen s (rb s)) (\<lambda>b. bindE (cur_gen s (ra s)) (\<lambda>a.
             Inr (s\<lparr>alu := b + imm s, sd := a\<rparr>)))"

definition beq :: "emu \<Rightarrow> result" where
  "beq s = bindE (cur_gen s (rb s)) (\<lambda>b. bindE (cur_gen s (ra s)) (\<lambda>a.
             Inr (if b = a then s\<lparr>pc := pc s + imm s\<rparr> else s)))"

definition adi :: "emu \<Rightarrow> result" where
  "adi s = bindE (cur_gen s (rb s)) (\<lambda>b. Inr (s\<lparr>alu := b + imm s\<rparr>))"

definition lui :: "emu \<Rightarrow> result" where
  "lui s = Inr (s\<lparr>alu := imm s\<rparr>)"

definition jlr :: "emu \<Rightarrow> result" where
  "jlr s =
     (if bits (ir s) 15 12 \<noteq> 0xE then baseFail s
      else if ra s = 0 then
        (if rb s \<noteq> 0 \<or> imm s AND 1 = 1 \<or> imm s < 32 \<or> imm s > 62
         then Inr (s\<lparr>ex := ExIllegal\<rparr>) else Inr (s\<lparr>ex := imm s\<rparr>))
      else if ra s = 1 then
        bindE (spr_set s (unat (mode s)) Link (pc s)) (\<lambda>s1.
        bindE (cur_gen s1 (rb s1)) (\<lambda>b. Inr (s1\<lparr>pc := b + imm s1\<rparr>)))
      else if ra s = 2 then
        bindE (cur_gen s (rb s)) (\<lambda>b. Inr (s\<lparr>pc := b + imm s\<rparr>))
      else Inr (s\<lparr>ex := ExIllegal\<rparr>))"

definition baseops :: "(emu \<Rightarrow> result) list" where
  "baseops = [ldw, ldb, stw, stb, beq, adi, lui, jlr]"

section \<open>Execute: three-operand ALU operations\<close>

text \<open>The Go code widens after the 16-bit operation: \<open>uint32(rs2 + rs1)\<close>.\<close>

definition alu3_set :: "emu \<Rightarrow> u16 \<Rightarrow> result" where
  "alu3_set s v =
     (let full = ucast v :: u32
      in Inr (s\<lparr>alu := ucast (full AND 0xFFFF), hc := ucast (drop_bit 16 (full AND 0x10000))\<rparr>))"

definition alu3_logic :: "emu \<Rightarrow> u16 \<Rightarrow> result" where
  "alu3_logic s v =
     (let full = ucast v :: u32 in Inr (s\<lparr>alu := ucast (full AND 0xFFFF), hc := 0\<rparr>))"

definition alu3 :: "emu \<Rightarrow> result" where
  "alu3 s =
     bindE (cur_gen s (rc s)) (\<lambda>rs2. bindE (cur_gen s (rb s)) (\<lambda>rs1.
       if xop s = 0 then alu3_set s (rs2 + rs1)
       else if xop s = 1 then alu3_set s (rs2 + rs1 + hc s)
       else if xop s = 2 then alu3_set s (rs2 - rs1)
       else if xop s = 3 then alu3_set s (rs2 - rs1 - hc s)
       else if xop s = 4 then alu3_logic s (rs2 AND NOT rs1)
       else if xop s = 5 then alu3_logic s (rs2 OR rs1)
       else if xop s = 6 then alu3_logic s (rs2 XOR rs1)
       else if xop s = 7 then decodeFailure s ''alu3 op == 7''
       else Inr s))"

section \<open>Execute: two-operand operations on special registers and I/O\<close>

definition lsp :: "emu \<Rightarrow> result" where
  "lsp s = bindE (cur_gen s (rb s)) (\<lambda>b. Inr (s\<lparr>alu := b\<rparr>))"

definition lio :: "emu \<Rightarrow> result" where
  "lio s = bindE (cur_gen s (rb s)) (\<lambda>b. Inr (s\<lparr>alu := b\<rparr>))"

definition ssp :: "emu \<Rightarrow> result" where
  "ssp s = bindE (cur_gen s (rb s)) (\<lambda>b. bindE (cur_gen s (ra s)) (\<lambda>a.
             Inr (s\<lparr>alu := b, sd := a\<rparr>)))"

definition sio :: "emu \<Rightarrow> result" where
  "sio s = bindE (cur_gen s (rb s)) (\<lambda>b. bindE (cur_gen s (ra s)) (\<lambda>a.
             Inr (s\<lparr>alu := b, sd := a\<rparr>)))"

definition y04 :: "emu \<Rightarrow> result" where "y04 s = Inr (s\<lparr>ex := ExIllegal\<rparr>)"
definition y05 :: "emu \<Rightarrow> result" where "y05 s = Inr (s\<lparr>ex := ExIllegal\<rparr>)"
definition y06 :: "emu \<Rightarrow> result" where "y06 s = Inr (s\<lparr>ex := ExIllegal\<rparr>)"

definition yops :: "(emu \<Rightarrow> result) list" where
  "yops = [lsp, lio, ssp, sio, y04, y05, y06, yopFail]"

section \<open>Execute: one-operand ALU operations\<close>

definition alu1 :: "emu \<Rightarrow> result" where
  "alu1 s =
     bindE (cur_gen s (ra s)) (\<lambda>rs1.
       if zop s = 0 then Inr (s\<lparr>alu := NOT rs1, hc := 0\<rparr>)
       else if zop s = 1 then Inr (s\<lparr>alu := 1 + NOT rs1, hc := 0\<rparr>)
       else if zop s = 2 then Inr (s\<lparr>alu := drop_bit 8 rs1 OR push_bit 8 rs1, hc := 0\<rparr>)
       else if zop s = 3 then
         Inr (s\<lparr>alu := (if rs1 AND 0x80 \<noteq> 0 then rs1 OR 0xFF00 else rs1 AND NOT 0xFF00), hc := 0\<rparr>)
       else if zop s = 4 then Inr (s\<lparr>hc := rs1 AND 1, alu := drop_bit 1 rs1\<rparr>)
       else if zop s = 5 then
         Inr (s\<lparr>hc := (if rs1 AND 0x8000 = 0 then 0 else 1), alu := push_bit 1 rs1\<rparr>)
       else if zop s = 6 then
         Inr (s\<lparr>hc := rs1 AND 1, alu := drop_bit 1 rs1 OR (rs1 AND 0x8000)\<rparr>)
       else if zop s = 7 then zopFail s
       else Inr s)"

section \<open>Execute: zero-operand operations\<close>

definition rti :: "emu \<Rightarrow> result" where
  "rti s =
     (if mode s = of_nat User then Inr (s\<lparr>ex := ExIllegal\<rparr>)
      else let s1 = s\<lparr>ex := 0, en := True\<rparr>
           in bindE (spr_get s1 Kern Irr) (\<lambda>p.
              bindE (spr_set (s1\<lparr>pc := p\<rparr>) Kern Irr 0) (\<lambda>s2.
              bindE (spr_get s2 Kern Imr) (\<lambda>m. Inr (s2\<lparr>mode := ucast m\<rparr>)))))"

definition rtl :: "emu \<Rightarrow> result" where
  "rtl s = bindE (spr_get s (unat (mode s)) Link) (\<lambda>p. Inr (s\<lparr>pc := p\<rparr>))"

definition di :: "emu \<Rightarrow> result" where
  "di s = Inr (if mode s = of_nat User then s\<lparr>ex := ExIllegal\<rparr> else s\<lparr>en := False\<rparr>)"

definition ei :: "emu \<Rightarrow> result" where
  "ei s = Inr (if mode s = of_nat User then s\<lparr>ex := ExIllegal\<rparr> else s\<lparr>en := True\<rparr>)"

definition hlt :: "emu \<Rightarrow> result" where
  "hlt s = Inr (if mode s = of_nat User then s\<lparr>ex := ExIllegal\<rparr> else s\<lparr>run := False\<rparr>)"

definition brk :: "emu \<Rightarrow> result" where
  "brk s = (if mode s = of_nat User then Inr (s\<lparr>ex := ExIllegal\<rparr>) else dump s)"

definition v06 :: "emu \<Rightarrow> result" where "v06 s = Inr (s\<lparr>ex := ExIllegal\<rparr>)"

definition die :: "emu \<Rightarrow> result" where
  "die s = Inr (if mode s = of_nat User then s\<lparr>ex := ExIllegal\<rparr> else s\<lparr>ex := ExIllegal\<rparr>)"

definition vops :: "(emu \<Rightarrow> result) list" where
  "vops = [rti, rtl, di, ei, hlt, brk, v06, die]"

definition call :: "(emu \<Rightarrow> result) list \<Rightarrow> u16 \<Rightarrow> emu \<Rightarrow> result" where
  "call table i s = bindE (idx table (unat i)) (\<lambda>f. f s)"

definition execute :: "emu \<Rightarrow> result" where
  "execute s =
     (if ex s \<noteq> 0 then Inr s
      else if isBase s then call baseops (op s) s
      else if isXop s then alu3 s
      else if isYop s then call yops (yop s) s
      else if isZop s then alu1 s
      else bindE (if \<not> isVop s then decodeFailure s ''vop'' else Inr s) (\<lambda>s1. call vops (vop s1) s1))"

section \<open>Memory stage\<close>

definition loadSpecial :: "emu \<Rightarrow> panic + (u16 \<times> emu)" where
  "loadSpecial s =
     (let r = unat (alu s AND (of_nat SprSize - 1)); m = unat (mode s);
          ret = (\<lambda>x. bindE x (\<lambda>v. Inr (v, s)));
          illegal = Inr (0, s\<lparr>ex := ExIllegal\<rparr>)
      in if r = PC then Inr (pc s, s)
         else if r = Link then ret (spr_get s m Link)
         else if r = Irr \<or> r = Icr \<or> r = Imr \<or> r = 5 then
           (if mode s = of_nat Kern then ret (spr_get s m r) else illegal)
         else if r = CCLS then Inr (ucast (cyc s AND 0xFFFF), s)
         else if r = CCMS then Inr (ucast (drop_bit 16 (cyc s AND 0xFFFF0000)), s)
         else if mode s = of_nat User then illegal
         else if r = MmuCtl1 then ret (spr_get s Kern MmuCtl1)
         else if r > 8 \<and> r < 16 then Inr (0, s)
         else if r \<ge> 16 \<and> r < 24 then ret (gen_get s User (r - 16))
         else if r \<ge> 24 \<and> r < 31 then
           (if r = 25 then ret (spr_get s User Link)
            else Inl (AssertionFailure ''missing case in loadSpecial()''))
         else if r \<ge> 32 then
           bindE (spr_get s Kern MmuCtl1) (\<lambda>c.
             if c AND 0x10 \<noteq> 0 then ret (spr_get s User r) else ret (spr_get s Kern r))
         else illegal)"

definition loadIO :: "emu \<Rightarrow> u16" where
  "loadIO s = 0"

definition storeSpecial :: "emu \<Rightarrow> u16 \<Rightarrow> result" where
  "storeSpecial s val =
     (let r = unat (alu s AND (of_nat SprSize - 1))
      in if mode s = of_nat User then
           (if r = Link then spr_set s User Link val else Inr (s\<lparr>ex := ExIllegal\<rparr>))
         else if r = Irr \<or> r = Icr \<or> r = Imr \<or> r = 5 \<or> r = MmuCtl1 then spr_set s Kern r val
         else if r \<ge> 16 \<and> r < 24 then gen_set s User (r - 16) val
         else if r = 25 then spr_set s User Link val
         else if r \<ge> 32 then
           bindE (spr_get s Kern MmuCtl1) (\<lambda>c.
             if c AND 0x10 \<noteq> 0 then spr_set s User r val else spr_set s Kern r val)
         else Inr (s\<lparr>ex := ExIllegal\<rparr>))"

definition storeIO :: "emu \<Rightarrow> u16 \<Rightarrow> result" where
  "storeIO s val = Inr s"

definition ldst :: "emu \<Rightarrow> result" where
  "ldst s =
     (let isOdd = (alu s AND 1 \<noteq> 0)
      in bindE (translate s True (alu s)) (\<lambda>(e, addr).
           if e \<noteq> ExNone then Inr (s\<lparr>ex := e\<rparr>)
           else if op s = 0 then
             (if isOdd then Inr (s\<lparr>ex := ExMemory\<rparr>)
              else bindE (mem_get s addr) (\<lambda>w. Inr (s\<lparr>wb := w\<rparr>)))
           else if op s = 1 then
             bindE (mem_get s addr) (\<lambda>w.
               Inr (s\<lparr>wb := (if isOdd then drop_bit 8 w else w AND 0xFF)\<rparr>))
           else if op s = 2 then
             (if isOdd then Inr (s\<lparr>ex := ExMemory\<rparr>) else mem_set s addr (sd s))
           else
             bindE (mem_get s addr) (\<lambda>w.
               mem_set s addr (if isOdd then (w AND 0xFF) OR push_bit 8 (sd s)
                               else (w AND 0xFF00) OR (sd s AND 0xFF)))))"

definition memory :: "emu \<Rightarrow> result" where
  "memory s0 =
     (if ex s0 \<noteq> 0 then Inr s0
      else let s = s0\<lparr>wb := alu s0\<rparr>
           in if op s < 4 then ldst s
              else if isYop s then
                (if yop s = 0 then bindE (loadSpecial s) (\<lambda>(v, s1). Inr (s1\<lparr>wb := v\<rparr>))
                 else if yop s = 1 then Inr (s\<lparr>wb := loadIO s\<rparr>)
                 else if yop s = 2 then storeSpecial s (sd s)
                 else if yop s = 3 then storeIO s (sd s)
                 else Inr s)
              else Inr s)"

section \<open>Writeback\<close>

definition writeback :: "emu \<Rightarrow> result" where
  "writeback s =
     (if ex s \<noteq> 0 then Inr s
      else bindE (idx (reg s) (unat (mode s))) (\<lambda>r.
        if op s = 0 \<or> op s = 1 \<or> op s = 5 \<or> op s = 6 \<or> isXop s
           \<or> (isYop s \<and> yop s < 2) \<or> isZop s
        then (if ra s \<noteq> 0 then gen_set s (unat (mode s)) (unat (ra s)) (wb s) else Inr s)
        else Inr s))"

text \<open>The body of the simulation loop: the five stages in order.\<close>

definition stages :: "emu \<Rightarrow> result" where
  "stages s = bindE (fetch s) (\<lambda>s. bindE (decode s) (\<lambda>s. bindE (execute s) (\<lambda>s.
                bindE (memory s) writeback)))"

end
