(* ===== verification/Exec_Inv.thy ===== *)
theory Exec_Inv
  imports Exec
begin

text \<open>
  Invariants of one machine cycle. Decoding puts every instruction word in exactly one class;
  every execute handler keeps one contract (\<open>handler_ok\<close>), and a dispatch table of such handlers
  keeps it too (locale \<open>handler_table\<close>, interpreted on the three tables of \<open>emul/exec.go\<close>). From
  the stages follow register-file well-formedness, precise exceptions, user-mode isolation and
  the absence of decode failures.
\<close>

section \<open>Decoding\<close>

lemma decode_fields_sel [simp]:
  "op (decode_fields s) = bits (ir s) 15 13" "imm (decode_fields s) = sxtImm s"
  "xop (decode_fields s) = bits (ir s) 11 9" "yop (decode_fields s) = bits (ir s) 8 6"
  "zop (decode_fields s) = bits (ir s) 5 3" "vop (decode_fields s) = bits (ir s) 2 0"
  "ra (decode_fields s) = bits (ir s) 2 0" "rb (decode_fields s) = bits (ir s) 5 3"
  "rc (decode_fields s) = bits (ir s) 8 6"
  by (simp_all add: decode_fields_def Let_def)

lemma decode_fields_frame [simp]:
  "ex (decode_fields s) = ex s" "ir (decode_fields s) = ir s" "pc (decode_fields s) = pc s"
  "reg (decode_fields s) = reg s" "mode (decode_fields s) = mode s" "en (decode_fields s) = en s"
  "run (decode_fields s) = run s" "physmem (decode_fields s) = physmem s" "cyc (decode_fields s) = cyc s"
  "hc (decode_fields s) = hc s" "dbEnabled (decode_fields s) = dbEnabled s" "stdout (decode_fields s) = stdout s"
  "stdin (decode_fields s) = stdin s"
  by (simp_all add: decode_fields_def Let_def)

lemma decode_fields_class [simp]:
  "isVop (decode_fields s) \<longleftrightarrow> bits (ir s) 15 13 = 7 \<and> bits (ir s) 12 12 = 1 \<and> bits (ir s) 11 9 = 7
     \<and> bits (ir s) 8 6 = 7 \<and> bits (ir s) 5 3 = 7"
  "isZop (decode_fields s) \<longleftrightarrow> bits (ir s) 15 13 = 7 \<and> bits (ir s) 12 12 = 1 \<and> bits (ir s) 11 9 = 7
     \<and> bits (ir s) 8 6 = 7 \<and> bits (ir s) 5 3 \<noteq> 7"
  "isYop (decode_fields s) \<longleftrightarrow> bits (ir s) 15 13 = 7 \<and> bits (ir s) 12 12 = 1 \<and> bits (ir s) 11 9 = 7
     \<and> bits (ir s) 8 6 \<noteq> 7"
  "isXop (decode_fields s) \<longleftrightarrow> bits (ir s) 15 13 = 7 \<and> bits (ir s) 12 12 = 1 \<and> bits (ir s) 11 9 \<noteq> 7"
  "isBase (decode_fields s) \<longleftrightarrow> \<not> (bits (ir s) 15 13 = 7 \<and> bits (ir s) 12 12 = 1)"
  by (simp_all add: decode_fields_def Let_def field_simps16; blast)+

text \<open>A decoded state has no exception pending and its fields are those of its \<open>ir\<close>.\<close>

definition decoded :: "emu \<Rightarrow> bool" where
  "decoded s \<longleftrightarrow> ex s = 0 \<and> unat (ra s) < 8 \<and> unat (rb s) < 8 \<and> unat (rc s) < 8 \<and> unat (op s) < 8
    \<and> unat (yop s) < 8 \<and> unat (vop s) < 8 \<and> unat (xop s) < 8 \<and> unat (zop s) < 8
    \<and> (isBase s \<longleftrightarrow> \<not> (op s = 7 \<and> bits (ir s) 12 12 = 1))
    \<and> (isXop s \<longleftrightarrow> op s = 7 \<and> bits (ir s) 12 12 = 1 \<and> xop s \<noteq> 7)
    \<and> (isYop s \<longleftrightarrow> op s = 7 \<and> bits (ir s) 12 12 = 1 \<and> xop s = 7 \<and> yop s \<noteq> 7)
    \<and> (isZop s \<longleftrightarrow> op s = 7 \<and> bits (ir s) 12 12 = 1 \<and> xop s = 7 \<and> yop s = 7 \<and> zop s \<noteq> 7)
    \<and> (isVop s \<longleftrightarrow> op s = 7 \<and> bits (ir s) 12 12 = 1 \<and> xop s = 7 \<and> yop s = 7 \<and> zop s = 7)
    \<and> op s = bits (ir s) 15 13"

lemma decode_fields_decoded: "ex s = 0 \<Longrightarrow> decoded (decode_fields s)"
  by (simp add: decoded_def unat_bits3)

lemma decode_ok: "ex s = 0 \<Longrightarrow> decode s = Inr (decode_fields s)"
  by (simp add: decode_def)

lemma decode_pending: "ex s \<noteq> 0 \<Longrightarrow> decode s = Inr s"
  by (simp add: decode_def)
lemma word_lt8: 
  fixes w :: u16
  assumes "unat w < 8" shows "w = 0 \<or> w = 1 \<or> w = 2 \<or> w = 3 \<or> w = 4 \<or> w = 5 \<or> w = 6 \<or> w = 7"
proof -
  have "unat w = 0 \<or> unat w = 1 \<or> unat w = 2 \<or> unat w = 3 \<or> unat w = 4 \<or> unat w = 5 \<or> unat w = 6 \<or> unat w = 7"
    using assms by arith
  then show ?thesis by (simp add: word_unat_eq_iff)
qed

lemma call_base: "unat i < 8 \<Longrightarrow> call baseops i s =
  (if i = 0 then ldw s else if i = 1 then ldb s else if i = 2 then stw s else if i = 3 then stb s
   else if i = 4 then beq s else if i = 5 then adi s else if i = 6 then lui s else jlr s)"
  by (drule word_lt8) (auto simp: call_def baseops_def)

lemma call_yop: "unat i < 8 \<Longrightarrow> call yops i s =
  (if i = 0 then lsp s else if i = 1 then lio s else if i = 2 then ssp s else if i = 3 then sio s
   else if i = 4 then y04 s else if i = 5 then y05 s else if i = 6 then y06 s else yopFail s)"
  by (drule word_lt8) (auto simp: call_def yops_def)

lemma call_vop: "unat i < 8 \<Longrightarrow> call vops i s =
  (if i = 0 then rti s else if i = 1 then rtl s else if i = 2 then di s else if i = 3 then ei s
   else if i = 4 then hlt s else if i = 5 then brk s else if i = 6 then v06 s else die s)"
  by (drule word_lt8) (auto simp: call_def vops_def)

lemma cur_gen_ok: "wf s \<Longrightarrow> unat r < 8 \<Longrightarrow> cur_gen s r = Inr (gen (reg s ! unat (mode s)) ! unat r)"
  by (simp add: cur_gen_def wf_def gen_get_ok)

section \<open>What an execute handler may change\<close>

definition exec_frame :: "emu \<Rightarrow> emu \<Rightarrow> bool" where
  "exec_frame s s' \<longleftrightarrow> physmem s' = physmem s \<and> cyc s' = cyc s \<and> ir s' = ir s \<and> op s' = op s
     \<and> ra s' = ra s \<and> yop s' = yop s \<and> isXop s' = isXop s \<and> isYop s' = isYop s \<and> isZop s' = isZop s
     \<and> dbEnabled s' = dbEnabled s \<and> qflag s' = qflag s \<and> stdin s' = stdin s \<and> dsm_cmd s' = dsm_cmd s"

lemma exec_frame_refl [simp]: "exec_frame s s"
  by (simp add: exec_frame_def)

lemma exec_frame_upd [simp]:
  "exec_frame s (t\<lparr>alu := a\<rparr>) = exec_frame s t" "exec_frame s (t\<lparr>sd := d\<rparr>) = exec_frame s t"
  "exec_frame s (t\<lparr>ex := e\<rparr>) = exec_frame s t" "exec_frame s (t\<lparr>pc := p\<rparr>) = exec_frame s t"
  "exec_frame s (t\<lparr>hc := h\<rparr>) = exec_frame s t" "exec_frame s (t\<lparr>en := b\<rparr>) = exec_frame s t"
  "exec_frame s (t\<lparr>run := b\<rparr>) = exec_frame s t" "exec_frame s (t\<lparr>mode := m\<rparr>) = exec_frame s t"
  "exec_frame s (t\<lparr>reg := r\<rparr>) = exec_frame s t" "exec_frame s (t\<lparr>stdout := out\<rparr>) = exec_frame s t"
  "exec_frame s (t\<lparr>wb := a\<rparr>) = exec_frame s t"
  by (simp_all add: exec_frame_def)

text \<open>In user mode only the program counter, the ALU latches, the pending exception and the
  user link register can change.\<close>

definition user_effect :: "emu \<Rightarrow> emu \<Rightarrow> bool" where
  "user_effect s s' \<longleftrightarrow> mode s' = mode s \<and> en s' = en s \<and> run s' = run s \<and> stdout s' = stdout s
     \<and> (reg s' = reg s \<or> (\<exists>v. reg s' = put_spr (reg s) User Link v))"

text \<open>The architectural registers and control bits agree.\<close>

definition arch_same :: "emu \<Rightarrow> emu \<Rightarrow> bool" where
  "arch_same s s' \<longleftrightarrow> reg s' = reg s \<and> pc s' = pc s \<and> hc s' = hc s \<and> mode s' = mode s
     \<and> en s' = en s \<and> run s' = run s"

definition handler_ok :: "(emu \<Rightarrow> result) \<Rightarrow> bool" where
  "handler_ok f \<longleftrightarrow> (\<forall>s s'. f s = Inr s' \<longrightarrow>
     exec_frame s s' \<and> (wf_regs (reg s) \<longrightarrow> wf_regs (reg s'))
     \<and> (ex s = 0 \<longrightarrow> ex s' \<noteq> 0 \<longrightarrow> arch_same s s')
     \<and> (mode s = of_nat User \<longrightarrow> user_effect s s'))"

lemma handler_okI:
  assumes "\<And>s s'. f s = Inr s' \<Longrightarrow> exec_frame s s'"
    and "\<And>s s'. f s = Inr s' \<Longrightarrow> wf_regs (reg s) \<Longrightarrow> wf_regs (reg s')"
    and "\<And>s s'. f s = Inr s' \<Longrightarrow> ex s = 0 \<Longrightarrow> ex s' \<noteq> 0 \<Longrightarrow> arch_same s s'"
    and "\<And>s s'. f s = Inr s' \<Longrightarrow> mode s = of_nat User \<Longrightarrow> user_effect s s'"
  shows "handler_ok f"
  using assms by (simp add: handler_ok_def)

lemma decodeFailure_never_returns [simp]:
  "decodeFailure s m \<noteq> Inr s'" "baseFail s \<noteq> Inr s'" "yopFail s \<noteq> Inr s'" "zopFail s \<noteq> Inr s'"
  by (simp_all add: decodeFailure_def baseFail_def yopFail_def zopFail_def result_simps)

lemma simple_handlers_ok:
  "handler_ok ldw" "handler_ok ldb" "handler_ok stw" "handler_ok stb" "handler_ok beq"
  "handler_ok adi" "handler_ok lui" "handler_ok lsp" "handler_ok lio" "handler_ok ssp"
  "handler_ok sio" "handler_ok y04" "handler_ok y05" "handler_ok y06" "handler_ok yopFail"
  "handler_ok v06" "handler_ok die" "handler_ok di" "handler_ok ei" "handler_ok hlt" "handler_ok rtl"
  by (rule handler_okI;
      auto simp: ldw_def ldb_def stw_def stb_def beq_def adi_def lui_def lsp_def lio_def ssp_def
        sio_def y04_def y05_def y06_def v06_def die_def di_def ei_def hlt_def rtl_def
        user_effect_def arch_same_def result_simps split: if_splits)+

lemma jlr_ok: "handler_ok jlr"
  by (rule handler_okI;
      auto simp: jlr_def user_effect_def arch_same_def bindE_Inr_iff split: if_splits dest!: spr_set_Inr
        intro: wf_put_spr')

lemma rti_ok: "handler_ok rti"
  by (rule handler_okI;
      auto simp: rti_def user_effect_def arch_same_def bindE_Inr_iff Let_def split: if_splits dest!: spr_set_Inr
        intro: wf_put_spr')

lemma brk_ok: "handler_ok brk"
  by (rule handler_okI; auto simp: brk_def user_effect_def arch_same_def split: if_splits dest!: dump_frame)

lemma alu3_ok: "handler_ok alu3"
  by (rule handler_okI;
      auto simp: alu3_def alu3_set_def alu3_logic_def user_effect_def arch_same_def bindE_Inr_iff Let_def split: if_splits)

lemma alu1_ok: "handler_ok alu1"
  by (rule handler_okI;
      auto simp: alu1_def user_effect_def arch_same_def bindE_Inr_iff split: if_splits)

text \<open>A dispatch table all of whose entries keep the contract keeps it as a whole.\<close>

locale handler_table =
  fixes table :: "(emu \<Rightarrow> result) list"
  assumes handlers: "f \<in> set table \<Longrightarrow> handler_ok f"
begin

lemma call_ok: "handler_ok (call table i)"
  using handlers nth_mem [of "unat i" table]
  by (fastforce simp: handler_ok_def call_def result_simps)

end

interpretation base: handler_table baseops
  by unfold_locales (auto simp: baseops_def simple_handlers_ok jlr_ok)

interpretation yop: handler_table yops
  by unfold_locales (auto simp: yops_def simple_handlers_ok)

interpretation vop: handler_table vops
  by unfold_locales (auto simp: vops_def simple_handlers_ok rti_ok brk_ok)

lemma execute_ok: "handler_ok execute"
proof -
  have "handler_ok (\<lambda>s. call vops (vop s) s)"
    using vop.call_ok by (auto simp: handler_ok_def)
  moreover have "handler_ok (\<lambda>s. call baseops (op s) s)" "handler_ok (\<lambda>s. call yops (yop s) s)"
    using base.call_ok yop.call_ok by (auto simp: handler_ok_def)
  moreover note alu3_ok alu1_ok
  ultimately show ?thesis
    unfolding handler_ok_def execute_def
    by (auto simp: bindE_Inr_iff arch_same_def user_effect_def split: if_splits)
qed
section \<open>The memory stage\<close>

definition mem_frame :: "emu \<Rightarrow> emu \<Rightarrow> bool" where
  "mem_frame s s' \<longleftrightarrow> pc s' = pc s \<and> hc s' = hc s \<and> mode s' = mode s \<and> en s' = en s \<and> run s' = run s
     \<and> stdout s' = stdout s \<and> cyc s' = cyc s \<and> ir s' = ir s \<and> op s' = op s \<and> ra s' = ra s
     \<and> yop s' = yop s \<and> isXop s' = isXop s \<and> isYop s' = isYop s \<and> isZop s' = isZop s \<and> alu s' = alu s
     \<and> dbEnabled s' = dbEnabled s \<and> qflag s' = qflag s \<and> stdin s' = stdin s \<and> dsm_cmd s' = dsm_cmd s"

lemma mem_frame_refl [simp]: "mem_frame s s"
  by (simp add: mem_frame_def)

lemma mem_frame_upd [simp]:
  "mem_frame s (t\<lparr>wb := a\<rparr>) = mem_frame s t" "mem_frame s (t\<lparr>ex := e\<rparr>) = mem_frame s t"
  "mem_frame s (t\<lparr>reg := r\<rparr>) = mem_frame s t" "mem_frame s (t\<lparr>physmem := m\<rparr>) = mem_frame s t"
  "mem_frame (s\<lparr>wb := a\<rparr>) t = mem_frame s t"
  by (simp_all add: mem_frame_def)

lemma mem_get_Inr: "mem_get s a = Inr w \<longleftrightarrow> unat a < PhysMemSize \<and> w = physmem s (unat a)"
  by (auto simp: mem_get_def)

lemma mem_set_Inr:
  "mem_set s a v = Inr s' \<longleftrightarrow> unat a < PhysMemSize \<and> s' = s\<lparr>physmem := (physmem s)(unat a := v)\<rparr>"
  by (auto simp: mem_set_def)

lemma translate_cong [simp]: "translate (s\<lparr>wb := x\<rparr>) d v = translate s d v"
  by (simp add: translate_def spr_get_def)

definition mem_touched :: "emu \<Rightarrow> emu \<Rightarrow> bool" where
  "mem_touched s s' \<longleftrightarrow> (physmem s' = physmem s \<or>
     (\<exists>a v. translate s True (alu s) = Inr (ExNone, a) \<and> unat a < PhysMemSize
        \<and> physmem s' = (physmem s)(unat a := v)))"

lemma ldst_ok:
  assumes "ldst s = Inr s'"
  shows "mem_frame s s'" "reg s' = reg s" "ex s' \<noteq> 0 \<Longrightarrow> ex s = 0 \<Longrightarrow> physmem s' = physmem s"
    "mem_touched s s'"
proof -
  have "postE (\<lambda>s'. mem_frame s s' \<and> reg s' = reg s \<and> mem_touched s s'
      \<and> (ex s' \<noteq> 0 \<longrightarrow> ex s = 0 \<longrightarrow> physmem s' = physmem s)) (ldst s)"
    unfolding ldst_def Let_def mem_set_def
    by (intro post_intros) (auto simp: mem_touched_def)
  from postED [OF this assms] show "mem_frame s s'" "reg s' = reg s"
    "ex s' \<noteq> 0 \<Longrightarrow> ex s = 0 \<Longrightarrow> physmem s' = physmem s" "mem_touched s s'" by auto
qed

lemma loadSpecial_ok:
  assumes "loadSpecial s = Inr (v, s')"
  shows "s' = s \<or> s' = s\<lparr>ex := ExIllegal\<rparr>"
proof -
  have "postE (\<lambda>(v, s'). s' = s \<or> s' = s\<lparr>ex := ExIllegal\<rparr>) (loadSpecial s)"
    unfolding loadSpecial_def Let_def by (intro post_intros) (simp_all (no_asm))
  from postED [OF this assms] show ?thesis by simp
qed

lemma spr_set_post [post_intros]: "Q (s\<lparr>reg := put_spr (reg s) m i v\<rparr>) \<Longrightarrow> postE Q (spr_set s m i v)"
  by (auto simp: postE_def dest!: spr_set_Inr)

lemma gen_set_post [post_intros]: "Q (s\<lparr>reg := put_gen (reg s) m i v\<rparr>) \<Longrightarrow> postE Q (gen_set s m i v)"
  by (auto simp: postE_def dest!: gen_set_Inr)

lemma storeSpecial_ok:
  assumes "storeSpecial s v = Inr s'"
  shows "mem_frame s s'" "physmem s' = physmem s" "wf_regs (reg s) \<Longrightarrow> wf_regs (reg s')"
    "ex s' \<noteq> 0 \<Longrightarrow> ex s = 0 \<Longrightarrow> reg s' = reg s"
    "mode s = of_nat User \<Longrightarrow> reg s' = reg s \<or> (\<exists>v. reg s' = put_spr (reg s) User Link v)"
proof -
  have "postE (\<lambda>s'. mem_frame s s' \<and> physmem s' = physmem s \<and> (wf_regs (reg s) \<longrightarrow> wf_regs (reg s'))
      \<and> (ex s' \<noteq> 0 \<longrightarrow> ex s = 0 \<longrightarrow> reg s' = reg s)
      \<and> (mode s = of_nat User \<longrightarrow> reg s' = reg s \<or> (\<exists>v. reg s' = put_spr (reg s) User Link v)))
      (storeSpecial s v)"
    unfolding storeSpecial_def Let_def
    by (intro post_intros) (auto intro: wf_put_gen' wf_put_spr')
  from postED [OF this assms] show "mem_frame s s'" "physmem s' = physmem s"
    "wf_regs (reg s) \<Longrightarrow> wf_regs (reg s')" "ex s' \<noteq> 0 \<Longrightarrow> ex s = 0 \<Longrightarrow> reg s' = reg s"
    "mode s = of_nat User \<Longrightarrow> reg s' = reg s \<or> (\<exists>v. reg s' = put_spr (reg s) User Link v)" by auto
qed

lemma memory_ok:
  assumes "memory s = Inr s'" "ex s = 0"
  shows "mem_frame s s'" "wf_regs (reg s) \<Longrightarrow> wf_regs (reg s')" "mem_touched s s'"
    "ex s' \<noteq> 0 \<Longrightarrow> reg s' = reg s \<and> physmem s' = physmem s"
    "mode s = of_nat User \<Longrightarrow> reg s' = reg s \<or> (\<exists>v. reg s' = put_spr (reg s) User Link v)"
proof -
  let ?t = "s\<lparr>wb := alu s\<rparr>"
  let ?P = "\<lambda>s'. mem_frame s s' \<and> (wf_regs (reg s) \<longrightarrow> wf_regs (reg s')) \<and> mem_touched s s'
    \<and> (ex s' \<noteq> 0 \<longrightarrow> reg s' = reg s \<and> physmem s' = physmem s)
    \<and> (mode s = of_nat User \<longrightarrow> reg s' = reg s \<or> (\<exists>v. reg s' = put_spr (reg s) User Link v))"
  have t: "mem_touched ?t u = mem_touched s u" for u
    by (simp add: mem_touched_def)
  have ld: "postE ?P (ldst ?t)"
    using ldst_ok [of ?t] assms(2) by (auto simp: postE_def t)
  have st: "postE ?P (storeSpecial ?t v)" for v
    using storeSpecial_ok [of ?t v] assms(2) by (auto simp: postE_def mem_touched_def)
  have "postE ?P (memory s)"
    unfolding memory_def Let_def storeIO_def
    by (intro post_intros ld st) (auto simp: mem_touched_def assms(2) dest!: loadSpecial_ok)
  from postED [OF this assms(1)]
  show "mem_frame s s'" "wf_regs (reg s) \<Longrightarrow> wf_regs (reg s')" "mem_touched s s'"
    "ex s' \<noteq> 0 \<Longrightarrow> reg s' = reg s \<and> physmem s' = physmem s"
    "mode s = of_nat User \<Longrightarrow> reg s' = reg s \<or> (\<exists>v. reg s' = put_spr (reg s) User Link v)" by auto
qed

section \<open>Writeback\<close>

lemma writeback_ok:
  assumes "writeback s = Inr s'"
  shows "s' = s \<or> (ex s = 0 \<and> ra s \<noteq> 0 \<and>
           s' = s\<lparr>reg := put_gen (reg s) (unat (mode s)) (unat (ra s)) (wb s)\<rparr>)"
proof -
  have "postE (\<lambda>s'. s' = s \<or> (ex s = 0 \<and> ra s \<noteq> 0 \<and>
          s' = s\<lparr>reg := put_gen (reg s) (unat (mode s)) (unat (ra s)) (wb s)\<rparr>)) (writeback s)"
    unfolding writeback_def by (intro post_intros) auto
  from postED [OF this assms] show ?thesis .
qed

section \<open>Fetch\<close>

lemma fetch_running:
  assumes "fetch s = Inr s'" "ex s = 0"
  shows "(\<exists>e. e \<noteq> 0 \<and> s' = s\<lparr>ex := e\<rparr>) \<or> (\<exists>w. s' = s\<lparr>ir := w, pc := pc s + 1\<rparr>)"
proof -
  obtain e a where t: "translate s False (pc s) = Inr (e, a)"
    using assms by (auto simp: fetch_def bindE_Inr_iff)
  show ?thesis
  proof (cases "e = 0")
    case True
    with assms t show ?thesis by (auto simp: fetch_def bindE_Inr_iff)
  next
    case False
    with assms t show ?thesis by (auto simp: fetch_def)
  qed
qed
section \<open>One cycle\<close>

lemma pending_skip:
  "ex s \<noteq> 0 \<Longrightarrow> execute s = Inr s" "ex s \<noteq> 0 \<Longrightarrow> memory s = Inr s" "ex s \<noteq> 0 \<Longrightarrow> writeback s = Inr s"
  by (simp_all add: execute_def memory_def writeback_def)

text \<open>After \<open>fetch\<close> has put \<open>w\<close> in \<open>ir\<close>, the machine is in the state \<open>issued s w\<close>.\<close>

definition issued :: "emu \<Rightarrow> u16 \<Rightarrow> emu" where
  "issued s w = decode_fields (s\<lparr>ir := w, pc := pc s + 1\<rparr>)"

lemma issued_sel [simp]:
  "ex (issued s w) = ex s" "ir (issued s w) = w" "pc (issued s w) = pc s + 1" "reg (issued s w) = reg s"
  "mode (issued s w) = mode s" "en (issued s w) = en s" "run (issued s w) = run s"
  "physmem (issued s w) = physmem s" "cyc (issued s w) = cyc s" "hc (issued s w) = hc s"
  "op (issued s w) = bits w 15 13" "ra (issued s w) = bits w 2 0" "rb (issued s w) = bits w 5 3"
  "rc (issued s w) = bits w 8 6" "xop (issued s w) = bits w 11 9" "yop (issued s w) = bits w 8 6"
  "zop (issued s w) = bits w 5 3" "vop (issued s w) = bits w 2 0"
  by (simp_all add: issued_def)

lemma stages_cases [consumes 2, case_names fault exec mem wback]:
  assumes "stages s = Inr s'" "ex s = 0"
  obtains e where "e \<noteq> 0" "s' = s\<lparr>ex := e\<rparr>"
  | w where "execute (issued s w) = Inr s'" "ex s' \<noteq> 0"
  | w s1 where "execute (issued s w) = Inr s1" "ex s1 = 0" "memory s1 = Inr s'" "ex s' \<noteq> 0"
  | w s1 s2 where "execute (issued s w) = Inr s1" "ex s1 = 0" "memory s1 = Inr s2" "ex s2 = 0"
      "writeback s2 = Inr s'"
proof -
  from assms obtain f where f: "fetch s = Inr f" by (auto simp: stages_def bindE_Inr_iff)
  from fetch_running [OF f assms(2)] show thesis
  proof (elim disjE exE conjE)
    fix e assume "e \<noteq> 0" "f = s\<lparr>ex := e\<rparr>"
    with f assms show thesis
      by (intro that(1)) (auto simp: stages_def decode_pending pending_skip)
  next
    fix w assume "f = s\<lparr>ir := w, pc := pc s + 1\<rparr>"
    with f assms obtain s1 s2 where x: "execute (issued s w) = Inr s1" "memory s1 = Inr s2" "writeback s2 = Inr s'"
      by (auto simp: stages_def decode_ok issued_def bindE_Inr_iff)
    show thesis
    proof (cases "ex s1 = 0")
      case False
      with x(2,3) have "s' = s1" by (simp add: pending_skip)
      with x(1) False show thesis by (intro that(2)) auto
    next
      case s1: True
      show thesis
      proof (cases "ex s2 = 0")
        case False
        with x(3) have "s' = s2" by (simp add: pending_skip)
        with x(1,2) s1 False show thesis by (intro that(3)) auto
      next
        case True
        with x s1 show thesis by (intro that(4)) auto
      qed
    qed
  qed
qed

lemma execute_okD:
  assumes "execute s = Inr s'"
  shows "exec_frame s s'" "wf_regs (reg s) \<Longrightarrow> wf_regs (reg s')"
    "ex s = 0 \<Longrightarrow> ex s' \<noteq> 0 \<Longrightarrow> arch_same s s'" "mode s = of_nat User \<Longrightarrow> user_effect s s'"
  using execute_ok assms by (auto simp: handler_ok_def)

lemma writeback_keeps_ex: "writeback s = Inr s' \<Longrightarrow> ex s' = ex s"
  using writeback_ok by fastforce

lemma latch_handlers:
  "postE (arch_same s) (ldw s)" "postE (arch_same s) (ldb s)" "postE (arch_same s) (stw s)"
  "postE (arch_same s) (stb s)" "postE (arch_same s) (lsp s)" "postE (arch_same s) (lio s)"
  "postE (arch_same s) (ssp s)" "postE (arch_same s) (sio s)" "postE (arch_same s) (y04 s)"
  "postE (arch_same s) (y05 s)" "postE (arch_same s) (y06 s)" "postE (arch_same s) (yopFail s)"
  unfolding ldw_def ldb_def stw_def stb_def lsp_def lio_def ssp_def sio_def y04_def y05_def y06_def
    yopFail_def decodeFailure_def
  by (intro post_intros; simp add: arch_same_def)+

lemma decodedD:
  assumes "decoded s"
  shows "ex s = 0" "unat (ra s) < 8" "unat (rb s) < 8" "unat (rc s) < 8" "unat (op s) < 8"
    "unat (yop s) < 8" "unat (vop s) < 8" "unat (xop s) < 8" "unat (zop s) < 8" "op s = bits (ir s) 15 13"
    "isBase s \<longleftrightarrow> \<not> (op s = 7 \<and> bits (ir s) 12 12 = 1)"
    "isXop s \<longleftrightarrow> op s = 7 \<and> bits (ir s) 12 12 = 1 \<and> xop s \<noteq> 7"
    "isYop s \<longleftrightarrow> op s = 7 \<and> bits (ir s) 12 12 = 1 \<and> xop s = 7 \<and> yop s \<noteq> 7"
    "isZop s \<longleftrightarrow> op s = 7 \<and> bits (ir s) 12 12 = 1 \<and> xop s = 7 \<and> yop s = 7 \<and> zop s \<noteq> 7"
    "isVop s \<longleftrightarrow> op s = 7 \<and> bits (ir s) 12 12 = 1 \<and> xop s = 7 \<and> yop s = 7 \<and> zop s = 7"
  using assms unfolding decoded_def by iprover+

lemma execute_dispatch:
  assumes "decoded s"
  shows "\<not> (op s = 7 \<and> bits (ir s) 12 12 = 1) \<Longrightarrow> execute s = call baseops (op s) s"
    "op s = 7 \<Longrightarrow> bits (ir s) 12 12 = 1 \<Longrightarrow> xop s \<noteq> 7 \<Longrightarrow> execute s = alu3 s"
    "op s = 7 \<Longrightarrow> bits (ir s) 12 12 = 1 \<Longrightarrow> xop s = 7 \<Longrightarrow> yop s \<noteq> 7 \<Longrightarrow> execute s = call yops (yop s) s"
    "op s = 7 \<Longrightarrow> bits (ir s) 12 12 = 1 \<Longrightarrow> xop s = 7 \<Longrightarrow> yop s = 7 \<Longrightarrow> zop s \<noteq> 7 \<Longrightarrow> execute s = alu1 s"
    "op s = 7 \<Longrightarrow> bits (ir s) 12 12 = 1 \<Longrightarrow> xop s = 7 \<Longrightarrow> yop s = 7 \<Longrightarrow> zop s = 7 \<Longrightarrow> execute s = call vops (vop s) s"
  by (simp_all add: execute_def decodedD(1) [OF assms] decodedD(11-15) [OF assms])

lemma execute_addressing:
  assumes "decoded s" "execute s = Inr s'" "op s < 4 \<or> isYop s"
  shows "arch_same s s'"
proof -
  have "postE (arch_same s) (execute s)"
  proof (cases "isYop s")
    case True
    then have e: "execute s = call yops (yop s) s" and y: "unat (yop s) < 8"
      using execute_dispatch(3) [OF assms(1)] decodedD(6,13) [OF assms(1)] by simp_all
    show ?thesis
      unfolding e call_yop [OF y] by (intro post_intros latch_handlers)
  next
    case False
    with assms have o: "op s < 4" "unat (op s) < 8" by (simp_all add: decodedD(5))
    then have e: "execute s = call baseops (op s) s"
      by (intro execute_dispatch(1) [OF assms(1)]) auto
    have "op s = 0 \<or> op s = 1 \<or> op s = 2 \<or> op s = 3"
      using word_lt8 [OF o(2)] o(1) by auto
    then show ?thesis
      unfolding e call_base [OF o(2)] by (elim disjE) (simp_all add: latch_handlers)
  qed
  then show ?thesis using assms(2) by (rule postED)
qed

lemma memory_exception_class:
  assumes "memory s = Inr s'" "ex s = 0" "ex s' \<noteq> 0"
  shows "op s < 4 \<or> isYop s"
  using assms by (auto simp: memory_def Let_def split: if_splits)

lemma issued_decoded: "ex s = 0 \<Longrightarrow> decoded (issued s w)"
  by (simp add: issued_def decode_fields_decoded)

section \<open>Trap entry\<close>

definition trap_regs :: "emu \<Rightarrow> w4reg list" where
  "trap_regs s = put_spr (put_spr (put_spr (reg s) Kern Irr (pc s)) Kern Icr (ex s)) Kern Imr (ucast (mode s))"

lemma trap_entry_eq:
  assumes "wf_regs (reg s)" "en s"
  shows "trap_entry s = Inr (s\<lparr>reg := trap_regs s, mode := 0, pc := ex s, en := False, ex := 0\<rparr>)"
  using assms by (simp add: trap_entry_def spr_set_ok trap_regs_def)

lemma trap_entry_Inr:
  assumes "trap_entry s = Inr s'"
  shows "en s" "s' = s\<lparr>reg := trap_regs s, mode := 0, pc := ex s, en := False, ex := 0\<rparr>"
  using assms by (auto simp: trap_entry_def bindE_Inr_iff trap_regs_def split: if_splits dest!: spr_set_Inr)

lemma stages_trap: "ex s \<noteq> 0 \<Longrightarrow> stages s = bindE (trap_entry s) stages"
  by (cases "trap_entry s") (auto simp: stages_def fetch_def dest!: trap_entry_Inr(2))

lemma wf_trap_regs: "wf_regs (reg s) \<Longrightarrow> wf_regs (trap_regs s)"
  by (simp add: trap_regs_def wf_put_spr')

section \<open>Well-formedness\<close>

text \<open>An exception of the memory stage leaves what execute computed in latches only.\<close>

lemma memory_exception_arch:
  assumes "execute (issued s w) = Inr s1" "ex s = 0" "ex s1 = 0" "memory s1 = Inr s'" "ex s' \<noteq> 0"
  shows "arch_same (issued s w) s1"
proof -
  have f: "exec_frame (issued s w) s1" by (rule execute_okD(1) [OF assms(1)])
  have "op s1 < 4 \<or> isYop s1"
    by (rule memory_exception_class [OF assms(4,3,5)])
  with f show ?thesis
    by (intro execute_addressing [OF issued_decoded assms(1)]) (auto simp: exec_frame_def assms(2))
qed

lemma execute_wf: "execute s = Inr s' \<Longrightarrow> wf_regs (reg s) \<Longrightarrow> wf_regs (reg s')"
  by (rule execute_okD(2))

lemma stages_wf_running:
  assumes "stages s = Inr s'" "ex s = 0" "wf s"
  shows "wf s'"
  using assms(1,2)
proof (cases rule: stages_cases)
  case (fault e)
  with assms(3) show ?thesis by (simp add: wf_def)
next
  case (exec w)
  have "arch_same (issued s w) s'"
    using execute_okD(3) [OF exec(1)] exec(2) assms(2) by simp
  then show ?thesis using assms(3) by (simp add: arch_same_def wf_def)
next
  case (mem w s1)
  have "arch_same (issued s w) s1"
    by (rule memory_exception_arch [OF mem(1) assms(2) mem(2-4)])
  with memory_ok(1,4) [OF mem(3,2)] mem(4) assms(3) show ?thesis
    by (simp add: arch_same_def mem_frame_def wf_def)
next
  case (wback w s1 s2)
  have "wf_regs (reg s2)"
    using execute_okD(2) [OF wback(1)] memory_ok(2) [OF wback(3,2)] assms(3) by (simp add: wf_def)
  moreover have "unat (mode s2) < length (reg s2)"
    using wback(4,5) by (auto simp: writeback_def result_simps)
  ultimately show ?thesis
    using writeback_ok [OF wback(5)] by (auto simp: wf_def wf_put_gen')
qed

lemma stages_wf:
  assumes "wf s" "stages s = Inr s'" shows "wf s'"
proof (cases "ex s = 0")
  case True
  show ?thesis by (rule stages_wf_running [OF assms(2) True assms(1)])
next
  case False
  then obtain t where t: "trap_entry s = Inr t" "stages t = Inr s'"
    using assms(2) stages_trap [OF False] by (auto simp: bindE_Inr_iff)
  from trap_entry_Inr(2) [OF t(1)] assms(1) have "ex t = 0" "wf t"
    by (simp_all add: wf_def wf_trap_regs)
  then show ?thesis by (rule stages_wf_running [OF t(2)])
qed

section \<open>Isolation\<close>

definition mmu_same :: "emu \<Rightarrow> emu \<Rightarrow> bool" where
  "mmu_same s t \<longleftrightarrow> mode t = mode s \<and> (\<forall>i. 32 \<le> i \<longrightarrow> spr_get t (unat (mode s)) i = spr_get s (unat (mode s)) i)"

lemma translate_mmu_same: "mmu_same s t \<Longrightarrow> translate t d v = translate s d v"
  by (simp add: translate_def mmu_same_def Let_def)

lemma spr_get_put_spr:
  "reg t = put_spr (reg s) m j v \<Longrightarrow> i \<noteq> j \<Longrightarrow> spr_get t k i = spr_get s k i"
  by (cases "k = m"; cases "m < length (reg s)")
     (auto simp: spr_get_def put_spr_def idx_def list_update_beyond)

lemma user_effect_kernel:
  assumes "wf_regs (reg s)" "user_effect s s'"
  shows "reg s' ! Kern = reg s ! Kern"
    "i \<noteq> Link \<Longrightarrow> spr (reg s' ! User) ! i = spr (reg s ! User) ! i"
    "gen (reg s' ! User) = gen (reg s ! User)"
  using assms by (auto simp: user_effect_def put_spr_nth)


lemma gen_put_spr: "gen (put_spr rs m i v ! k) = gen (rs ! k)"
  by (cases "k = m"; cases "m < length rs") (auto simp: put_spr_def list_update_beyond)

lemma spr_put_gen: "spr (put_gen rs m i v ! k) = spr (rs ! k)"
  by (cases "k = m"; cases "m < length rs") (auto simp: put_gen_def list_update_beyond)

lemma mmu_same_link:
  assumes "mode t = mode s" "reg t = reg s \<or> (\<exists>v. reg t = put_spr (reg s) User Link v)"
  shows "mmu_same s t"
proof -
  have "spr_get t (unat (mode s)) i = spr_get s (unat (mode s)) i" if "32 \<le> i" for i
    using assms(2)
  proof
    assume "reg t = reg s" then show ?thesis by (simp add: spr_get_def)
  next
    assume "\<exists>v. reg t = put_spr (reg s) User Link v"
    with that show ?thesis by (auto intro: spr_get_put_spr)
  qed
  with assms(1) show ?thesis by (simp add: mmu_same_def)
qed

text \<open>What a user-mode cycle leaves alone: everything but the user's own general registers and
  link register, and memory outside the user's data pages.\<close>

definition isolated :: "emu \<Rightarrow> emu \<Rightarrow> bool" where
  "isolated s s' \<longleftrightarrow> reg s' ! Kern = reg s ! Kern
     \<and> (\<forall>i. i \<noteq> Link \<longrightarrow> spr (reg s' ! User) ! i = spr (reg s ! User) ! i)
     \<and> mode s' = mode s \<and> en s' = en s \<and> run s' = run s \<and> stdout s' = stdout s
     \<and> (\<forall>a. physmem s' a \<noteq> physmem s a \<longrightarrow> (\<exists>v p. translate s True v = Inr (ExNone, p) \<and> a = unat p))"

lemma isolatedI:
  assumes "wf_regs (reg s)" "reg s' = reg s \<or> (\<exists>v. reg s' = put_spr (reg s) User Link v)"
    and "mode s' = mode s" "en s' = en s" "run s' = run s" "stdout s' = stdout s"
    and "\<And>a. physmem s' a \<noteq> physmem s a \<Longrightarrow> \<exists>v p. translate s True v = Inr (ExNone, p) \<and> a = unat p"
  shows "isolated s s'"
  using assms by (auto simp: isolated_def put_spr_nth)

lemma put_spr_twice: "put_spr (put_spr rs m i v) m i w = put_spr rs m i w"
  by (cases "m < length rs") (auto simp: put_spr_def list_update_beyond)

lemma issued_isolated:
  assumes "wf s" "mode s = of_nat User" "execute (issued s w) = Inr s1" "ex s1 = 0" "memory s1 = Inr s2"
  shows "isolated s s2"
proof -
  have u: "user_effect (issued s w) s1" and f: "exec_frame (issued s w) s1"
    using execute_okD(1,4) [OF assms(3)] assms(2) by simp_all
  then have r1: "reg s1 = reg s \<or> (\<exists>v. reg s1 = put_spr (reg s) User Link v)" and m1: "mode s1 = mode s"
    by (auto simp: user_effect_def)
  note mem = memory_ok [OF assms(5,4)]
  have r2: "reg s2 = reg s1 \<or> (\<exists>v. reg s2 = put_spr (reg s1) User Link v)"
    using mem(5) m1 assms(2) by simp
  have t: "translate s1 d v = translate s d v" for d v
    by (rule translate_mmu_same [OF mmu_same_link [OF m1 r1]])
  have "physmem s1 = physmem s" using f by (simp add: exec_frame_def)
  with mem(3) have "physmem s2 a \<noteq> physmem s a \<Longrightarrow> \<exists>v p. translate s True v = Inr (ExNone, p) \<and> a = unat p" for a
    unfolding mem_touched_def t by (metis fun_upd_other)
  moreover have "reg s2 = reg s \<or> (\<exists>v. reg s2 = put_spr (reg s) User Link v)"
    using r1 r2 put_spr_twice by metis
  ultimately show ?thesis
    using mem(1) u assms(1) by (intro isolatedI) (auto simp: mem_frame_def user_effect_def wf_def issued_def)
qed

lemma user_isolation:
  assumes "wf s" "mode s = of_nat User" "ex s = 0" "stages s = Inr s'"
  shows "isolated s s'"
  using assms(4,3)
proof (cases rule: stages_cases)
  case (fault e)
  then show ?thesis by (simp add: isolated_def)
next
  case (exec w)
  have "user_effect (issued s w) s'" "exec_frame (issued s w) s'"
    using execute_okD(1,4) [OF exec(1)] assms(2) by simp_all
  then show ?thesis
    using assms(1) by (intro isolatedI) (auto simp: user_effect_def exec_frame_def wf_def issued_def)
next
  case (mem w s1)
  then show ?thesis by (intro issued_isolated [OF assms(1,2)])
next
  case (wback w s1 s2)
  have i: "isolated s s2" by (rule issued_isolated [OF assms(1,2) wback(1-3)])
  have "unat (mode s2) = User" using i assms(2) by (simp add: isolated_def)
  moreover have "wf_regs (reg s2)"
    using execute_okD(2) [OF wback(1)] memory_ok(2) [OF wback(3,2)] assms(1) by (simp add: wf_def)
  ultimately show ?thesis
    using i writeback_ok [OF wback(5)] by (auto simp: isolated_def put_gen_nth)
qed

section \<open>Precise exceptions\<close>

text \<open>An exception raised during a cycle leaves the registers, memory and control bits alone.\<close>

lemma stages_precise:
  assumes "stages s = Inr s'" "ex s = 0" "ex s' \<noteq> 0"
  shows "reg s' = reg s \<and> physmem s' = physmem s \<and> hc s' = hc s \<and> mode s' = mode s \<and> en s' = en s
    \<and> run s' = run s \<and> (pc s' = pc s \<or> pc s' = pc s + 1)"
  using assms(1,2)
proof (cases rule: stages_cases)
  case (fault e)
  then show ?thesis by simp
next
  case (exec w)
  have "exec_frame (issued s w) s'" "arch_same (issued s w) s'"
    using execute_okD [OF exec(1)] exec(2) assms(2) by simp_all
  then show ?thesis by (simp add: exec_frame_def arch_same_def)
next
  case (mem w s1)
  have f: "exec_frame (issued s w) s1" by (rule execute_okD(1) [OF mem(1)])
  have "arch_same (issued s w) s1"
    by (rule memory_exception_arch [OF mem(1) assms(2) mem(2-4)])
  with f memory_ok [OF mem(3,2)] mem(4) show ?thesis
    by (simp add: exec_frame_def arch_same_def mem_frame_def)
next
  case (wback w s1 s2)
  with assms(3) writeback_keeps_ex show ?thesis by auto
qed

text \<open>The flags of the program are not the machine's to change.\<close>

lemma stages_flags_running:
  assumes "stages s = Inr s'" "ex s = 0"
  shows "dbEnabled s' = dbEnabled s \<and> qflag s' = qflag s \<and> cyc s' = cyc s"
  using assms
proof (cases rule: stages_cases)
  case (fault e)
  then show ?thesis by simp
next
  case (exec w)
  have "exec_frame (issued s w) s'" by (rule execute_okD(1) [OF exec(1)])
  then show ?thesis by (simp add: exec_frame_def issued_def decode_fields_def Let_def)
next
  case (mem w s1)
  have "exec_frame (issued s w) s1" "mem_frame s1 s'"
    by (rule execute_okD(1) [OF mem(1)]) (rule memory_ok(1) [OF mem(3,2)])
  then show ?thesis by (simp add: exec_frame_def mem_frame_def issued_def decode_fields_def Let_def)
next
  case (wback w s1 s2)
  have "exec_frame (issued s w) s1" "mem_frame s1 s2"
    by (rule execute_okD(1) [OF wback(1)]) (rule memory_ok(1) [OF wback(3,2)])
  moreover have "dbEnabled s' = dbEnabled s2 \<and> qflag s' = qflag s2 \<and> cyc s' = cyc s2"
    using writeback_ok [OF wback(5)] by auto
  ultimately show ?thesis by (simp add: exec_frame_def mem_frame_def issued_def decode_fields_def Let_def)
qed

end
