(* ===== verification/Exec_Safe.thy ===== *)
theory Exec_Safe
  imports Exec_Inv
begin

text \<open>
  Which cycles can make the emulator itself panic. A user-mode cycle never does when no page of
  the user's MMU is mapped to the one address that the bounds check of \<open>translate\<close> lets through by
  mistake (\<open>mmu_safe\<close>); any cycle has only two kinds of panic (\<open>expected\<close>), so it never reaches one of
  the \<open>decodeFailure\<close> calls.
\<close>

definition mmu_safe :: "emu \<Rightarrow> bool" where
  "mmu_safe s \<longleftrightarrow> (\<forall>i < 16. unat (spr (reg s ! unat (mode s)) ! (32 + i)) mod 4096 \<noteq> 0x60
     \<and> unat (spr (reg s ! unat (mode s)) ! (48 + i)) mod 4096 \<noteq> 0xC0)"

lemma mmu_safe_phys:
  assumes "mmu_safe s" shows "phys s d v \<noteq> PhysMemSize"
proof -
  have "unat v < 16 * 4096" using unat_lt_u16 [of v] by simp
  then have i: "unat v div 4096 < 16" by (rule less_mult_imp_div_less)
  have l: "unat v mod 4096 < 4096" by simp
  show ?thesis
  proof (cases d)
    case True
    have "unat (mmu_entry s d v) mod 4096 \<noteq> 0xC0"
      using assms i True by (simp add: mmu_safe_def mmu_entry_def)
    with l True show ?thesis by (simp add: phys_def PhysMemSize_def)
  next
    case False
    have "unat (mmu_entry s d v) mod 4096 \<noteq> 0x60"
      using assms i False by (simp add: mmu_safe_def mmu_entry_def)
    with l False show ?thesis by (simp add: phys_def PhysMemSize_def)
  qed
qed

lemma translate_safe:
  assumes "wf s" "mmu_safe s"
  shows "\<exists>e a. translate s d v = Inr (e, a) \<and> (e = ExNone \<longrightarrow> unat a < PhysMemSize)"
proof -
  have "phys s d v < 2 ^ 32" using phys_bound [of s d v] by simp
  then have "unat (of_nat (phys s d v) :: u32) = phys s d v"
    by (simp add: unat_of_nat take_bit_nat_eq_self_iff)
  with translate_eq [OF assms(1), of d v] mmu_safe_phys [OF assms(2), of d v] show ?thesis
    by auto
qed

abbreviation (input) total :: "'e + 'a \<Rightarrow> bool" where
  "total r \<equiv> panicE (\<lambda>_. False) r"

lemma total_iff: "total r \<longleftrightarrow> (\<exists>x. r = Inr x)"
  by (cases r) (auto simp: panicE_def)

lemma cur_gen_total: "wf s \<Longrightarrow> unat r < 8 \<Longrightarrow> total (cur_gen s r)"
  by (simp add: cur_gen_ok panic_intros)
lemma spr_get_total: "wf_regs (reg s) \<Longrightarrow> m < 2 \<Longrightarrow> i < 64 \<Longrightarrow> total (spr_get s m i)"
  by (simp add: spr_get_ok panic_intros)
lemma spr_set_total: "wf_regs (reg s) \<Longrightarrow> m < 2 \<Longrightarrow> i < 64 \<Longrightarrow> total (spr_set s m i v)"
  by (simp add: spr_set_ok panic_intros)
lemma gen_get_total: "wf_regs (reg s) \<Longrightarrow> m < 2 \<Longrightarrow> i < 8 \<Longrightarrow> total (gen_get s m i)"
  by (simp add: gen_get_ok panic_intros)
lemma gen_set_total: "wf_regs (reg s) \<Longrightarrow> m < 2 \<Longrightarrow> i < 8 \<Longrightarrow> total (gen_set s m i v)"
  by (simp add: gen_set_ok panic_intros)

lemma base_total:
  assumes "wf s" "decoded s"
  shows "total (ldw s)" "total (ldb s)" "total (stw s)" "total (stb s)" "total (beq s)" "total (adi s)"
    "total (lui s)"
  unfolding ldw_def ldb_def stw_def stb_def beq_def adi_def lui_def
  by (intro panic_intros cur_gen_total assms(1) decodedD(2,3) [OF assms(2)])+

lemma yop_total:
  assumes "wf s" "decoded s"
  shows "total (lsp s)" "total (lio s)" "total (ssp s)" "total (sio s)" "total (y04 s)" "total (y05 s)" "total (y06 s)"
  unfolding lsp_def lio_def ssp_def sio_def y04_def y05_def y06_def
  by (intro panic_intros cur_gen_total assms(1) decodedD(2,3) [OF assms(2)])+

lemma jlr_total:
  assumes "wf s" "decoded s" "bits (ir s) 15 12 = 0xE"
  shows "total (jlr s)"
proof -
  have m: "unat (mode s) < 2" "wf_regs (reg s)" using assms(1) by (simp_all add: wf_def)
  show ?thesis
    unfolding jlr_def using assms m decodedD(3) [OF assms(2)]
    by (auto simp: spr_set_ok cur_gen_def gen_get_ok wf_put_spr' intro!: panic_intros)
qed

lemma alu_total:
  assumes "wf s" "decoded s"
  shows "xop s \<noteq> 7 \<Longrightarrow> total (alu3 s)" "zop s \<noteq> 7 \<Longrightarrow> total (alu1 s)"
  unfolding alu3_def alu1_def alu3_set_def alu3_logic_def Let_def
  by (intro panic_intros cur_gen_total assms(1) decodedD(2-4) [OF assms(2)]; simp)+

lemma user_vop_total:
  assumes "wf s" "mode s = of_nat User"
  shows "total (rti s)" "total (rtl s)" "total (di s)" "total (ei s)" "total (hlt s)" "total (brk s)"
    "total (v06 s)" "total (die s)"
  using assms by (auto simp: rti_def rtl_def di_def ei_def hlt_def brk_def v06_def die_def wf_def
      spr_get_ok intro!: panic_intros)

lemma execute_user_total:
  assumes "wf s" "decoded s" "mode s = of_nat User"
  shows "total (execute s)"
proof (cases "op s = 7 \<and> bits (ir s) 12 12 = 1")
  case False
  then have e: "execute s = call baseops (op s) s" by (rule execute_dispatch(1) [OF assms(2)])
  have o: "unat (op s) < 8" by (rule decodedD(5) [OF assms(2)])
  have "bits (ir s) 15 12 = 0xE" if "op s = 7"
    using False that decodedD(10) [OF assms(2)] by (simp add: field_simps16)
  with word_lt8 [OF o] base_total [OF assms(1,2)] jlr_total [OF assms(1,2)] show ?thesis
    unfolding e call_base [OF o] by (elim disjE) simp_all
next
  case True
  note d = execute_dispatch(2-5) [OF assms(2)]
  have y: "unat (yop s) < 8" and v: "unat (vop s) < 8" using decodedD(6,7) [OF assms(2)] by simp_all
  consider "xop s \<noteq> 7" | "xop s = 7" "yop s \<noteq> 7" | "xop s = 7" "yop s = 7" "zop s \<noteq> 7"
    | "xop s = 7" "yop s = 7" "zop s = 7" by blast
  then show ?thesis
  proof cases
    case 1
    with True d(1) alu_total(1) [OF assms(1,2)] show ?thesis by simp
  next
    case 2
    with True have e: "execute s = call yops (yop s) s" by (intro d(2)) auto
    from word_lt8 [OF y] yop_total [OF assms(1,2)] 2 show ?thesis
      unfolding e call_yop [OF y] by (elim disjE) simp_all
  next
    case 3
    with True d(3) alu_total(2) [OF assms(1,2)] show ?thesis by simp
  next
    case 4
    with True have e: "execute s = call vops (vop s) s" by (intro d(4)) auto
    from user_vop_total [OF assms(1,3)] show ?thesis
      unfolding e call_vop [OF v] by simp
  qed
qed

lemma mem_access_total: "unat a < PhysMemSize \<Longrightarrow> total (mem_get s a)" "unat a < PhysMemSize \<Longrightarrow> total (mem_set s a v)"
  by (simp_all add: mem_get_def mem_set_def panic_intros)

lemma ldst_total:
  assumes "wf s" "mmu_safe s" shows "total (ldst s)"
proof -
  obtain e a where t: "translate s True (alu s) = Inr (e, a)" and a: "e = ExNone \<longrightarrow> unat a < PhysMemSize"
    using translate_safe [OF assms] by blast
  show ?thesis
    unfolding ldst_def Let_def t bindE_simps prod.case
    by (intro panic_intros mem_access_total) (use a in auto)
qed

lemma loadSpecial_user_total:
  assumes "wf s" "mode s = of_nat User" shows "total (loadSpecial s)"
proof -
  have "unat (mode s) < 2" "wf_regs (reg s)" using assms by (simp_all add: wf_def)
  then have "total (spr_get s (unat (mode s)) Link)" by (intro spr_get_total) simp_all
  then show ?thesis
    unfolding loadSpecial_def Let_def
    by (simp only: assms(2) of_nat_1 of_nat_0 zero_neq_one one_neq_zero simp_thms if_True if_False)
       (intro panic_intros; simp)
qed

lemma memory_user_total:
  assumes "wf s" "mode s = of_nat User" "mmu_safe s" shows "total (memory s)"
proof -
  let ?t = "s\<lparr>wb := alu s\<rparr>"
  have t: "wf ?t" "mode ?t = of_nat User" "mmu_safe ?t" using assms by (simp_all add: wf_def mmu_safe_def)
  have st: "total (storeSpecial ?t v)" for v
    using t(1,2) by (auto simp: storeSpecial_def wf_def Let_def intro!: panic_intros spr_set_total)
  show ?thesis
    unfolding memory_def Let_def storeIO_def
    by (intro panic_intros st ldst_total [OF t(1,3)] loadSpecial_user_total [OF t(1,2)])
qed

lemma writeback_total:
  assumes "wf s" "unat (ra s) < 8" shows "total (writeback s)"
  using assms unfolding writeback_def
  by (auto simp: wf_def gen_set_ok intro!: panic_intros)

lemma fetch_total:
  assumes "wf s" "mmu_safe s" "ex s = 0" shows "total (fetch s)"
proof -
  obtain e a where t: "translate s False (pc s) = Inr (e, a)" and a: "e = ExNone \<longrightarrow> unat a < PhysMemSize"
    using translate_safe [OF assms(1,2)] by blast
  show ?thesis
    using assms(3) t a by (auto simp: fetch_def mem_get_def panic_intros)
qed

lemma mmu_safe_cong:
  assumes "mode t = mode s" "\<And>i. i \<noteq> Link \<Longrightarrow> spr (reg t ! unat (mode s)) ! i = spr (reg s ! unat (mode s)) ! i"
  shows "mmu_safe t = mmu_safe s"
  using assms by (simp add: mmu_safe_def)

lemma stages_issue:
  assumes "ex s = 0" "fetch s = Inr (s\<lparr>ir := w, pc := pc s + 1\<rparr>)"
  shows "stages s = bindE (execute (issued s w)) (\<lambda>s. bindE (memory s) writeback)"
  using assms by (simp add: stages_def decode_ok issued_def)

lemma user_cycle_total:
  assumes "wf s" "mode s = of_nat User" "ex s = 0" "mmu_safe s"
  shows "\<exists>s'. stages s = Inr s'"
proof -
  obtain f where f: "fetch s = Inr f" using fetch_total [OF assms(1,4,3)] by (auto simp: total_iff)
  from fetch_running [OF f assms(3)] show ?thesis
  proof (elim disjE exE conjE)
    fix e assume "e \<noteq> 0" "f = s\<lparr>ex := e\<rparr>"
    with f show ?thesis by (simp add: stages_def decode_pending pending_skip)
  next
    fix w assume "f = s\<lparr>ir := w, pc := pc s + 1\<rparr>"
    with f assms(3) have st: "stages s = bindE (execute (issued s w)) (\<lambda>s. bindE (memory s) writeback)"
      by (intro stages_issue) auto
    have d: "decoded (issued s w)" by (rule issued_decoded [OF assms(3)])
    have i: "wf (issued s w)" "mode (issued s w) = of_nat User" using assms by (simp_all add: wf_def)
    obtain s1 where s1: "execute (issued s w) = Inr s1"
      using execute_user_total [OF i(1) d i(2)] by (auto simp: total_iff)
    have u: "user_effect (issued s w) s1" and fr: "exec_frame (issued s w) s1"
      and w1: "wf_regs (reg s1)"
      using execute_okD [OF s1] i by (auto simp: wf_def)
    then have m1: "mode s1 = mode s" and W1: "wf s1" using assms(1) by (auto simp: user_effect_def wf_def)
    have "mmu_safe s1"
      using mmu_safe_cong [of s1 s] user_effect_kernel(2) [of "issued s w" s1] u m1 assms i
      by (simp add: wf_def)
    then obtain s2 where s2: "memory s1 = Inr s2"
      using memory_user_total [OF W1] m1 assms(2) by (auto simp: total_iff)
    have "wf s2 \<and> unat (ra s2) < 8"
    proof (cases "ex s1 = 0")
      case True
      have "ra s1 = bits w 2 0" using fr by (simp add: exec_frame_def)
      with memory_ok(1,2) [OF s2 True] W1 show ?thesis by (simp add: wf_def mem_frame_def unat_bits3)
    next
      case False
      with s2 fr W1 show ?thesis by (simp add: pending_skip exec_frame_def unat_bits3)
    qed
    then obtain s3 where "writeback s2 = Inr s3" using writeback_total by (auto simp: total_iff)
    with st s1 s2 show ?thesis by simp
  qed
qed

section \<open>The panics of a cycle\<close>

text \<open>Of all the panics in the code, a cycle has only two: an index out of range, and the missing
  case of \<open>loadSpecial\<close>.\<close>

definition expected :: "panic \<Rightarrow> bool" where
  "expected p \<longleftrightarrow> p = IndexOutOfRange \<or> p = AssertionFailure ''missing case in loadSpecial()''"

lemma expected_simps [simp]:
  "expected IndexOutOfRange" "expected (AssertionFailure ''missing case in loadSpecial()'')"
  by (simp_all add: expected_def)

lemma expected_access:
  "panicE expected (idx xs i)" "panicE expected (upd xs i v)" "panicE expected (gen_get s m i)" "panicE expected (spr_get s m i)"
  "panicE expected (gen_set s m i w)" "panicE expected (spr_set s m i w)" "panicE expected (mem_get s a)"
  "panicE expected (mem_set s a w)" "panicE expected (cur_gen s r)" "panicE expected (translate s d w)"
  by (auto simp: panicE_def idx_def upd_def gen_get_def spr_get_def gen_set_def spr_set_def mem_get_def
      mem_set_def cur_gen_def translate_def Let_def bindE_Inl_iff split: if_splits)

lemma expected_mapE: "(\<And>x. panicE expected (f x)) \<Longrightarrow> panicE expected (mapE f xs)"
  by (induction xs) (auto intro!: panic_intros)

lemma expected_dump: "panicE expected (dump s)"
proof -
  have r: "panicE expected (rundis s a)" for a
    by (auto simp: rundis_def panicE_def split: sum.splits if_splits)
  have "panicE expected (spr_rows s m)" "panicE expected (mem_row s a)" for m a
    unfolding spr_rows_def mem_row_def by (intro panic_intros expected_mapE expected_access)+
  then show ?thesis
    unfolding dump_def dump_text_def dump_pc_line_def dump_data_line_def
    by (intro panic_intros expected_access r expected_simps) auto
qed

lemma expected_handlers:
  "panicE expected (ldw s)" "panicE expected (ldb s)" "panicE expected (stw s)" "panicE expected (stb s)"
  "panicE expected (beq s)" "panicE expected (adi s)" "panicE expected (lui s)" "panicE expected (lsp s)"
  "panicE expected (lio s)" "panicE expected (ssp s)" "panicE expected (sio s)" "panicE expected (y04 s)"
  "panicE expected (y05 s)" "panicE expected (y06 s)" "panicE expected (rti s)" "panicE expected (rtl s)"
  "panicE expected (di s)" "panicE expected (ei s)" "panicE expected (hlt s)" "panicE expected (brk s)"
  "panicE expected (v06 s)" "panicE expected (die s)"
  unfolding ldw_def ldb_def stw_def stb_def beq_def adi_def lui_def lsp_def lio_def ssp_def sio_def
    y04_def y05_def y06_def rti_def rtl_def di_def ei_def hlt_def brk_def v06_def die_def Let_def
  by (intro panic_intros expected_access expected_dump)+

lemma expected_execute:
  assumes "decoded s" shows "panicE expected (execute s)"
proof (cases "op s = 7 \<and> bits (ir s) 12 12 = 1")
  case False
  then have e: "execute s = call baseops (op s) s" by (rule execute_dispatch(1) [OF assms])
  have o: "unat (op s) < 8" by (rule decodedD(5) [OF assms])
  have j: "panicE expected (jlr s)" if "op s = 7"
  proof -
    have "bits (ir s) 15 12 = 0xE"
      using False that decodedD(10) [OF assms] by (simp add: field_simps16)
    then show ?thesis unfolding jlr_def by (intro panic_intros expected_access) simp
  qed
  show ?thesis
    using word_lt8 [OF o] unfolding e call_base [OF o]
    by (elim disjE) (simp_all add: expected_handlers j)
next
  case True
  note d = execute_dispatch(2-5) [OF assms]
  have y: "unat (yop s) < 8" and v: "unat (vop s) < 8" using decodedD(6,7) [OF assms] by simp_all
  consider "xop s \<noteq> 7" | "xop s = 7" "yop s \<noteq> 7" | "xop s = 7" "yop s = 7" "zop s \<noteq> 7"
    | "xop s = 7" "yop s = 7" "zop s = 7" by blast
  then show ?thesis
  proof cases
    case 1
    then have "panicE expected (alu3 s)"
      unfolding alu3_def alu3_set_def alu3_logic_def Let_def by (intro panic_intros expected_access) simp
    with 1 True d(1) show ?thesis by simp
  next
    case 2
    with True have e: "execute s = call yops (yop s) s" by (intro d(2)) auto
    from word_lt8 [OF y] 2 show ?thesis
      unfolding e call_yop [OF y] by (elim disjE) (simp_all add: expected_handlers)
  next
    case 3
    then have "panicE expected (alu1 s)" unfolding alu1_def by (intro panic_intros expected_access) simp
    with 3 True d(3) show ?thesis by simp
  next
    case 4
    with True have e: "execute s = call vops (vop s) s" by (intro d(4)) auto
    show ?thesis unfolding e call_vop [OF v] by (simp add: expected_handlers)
  qed
qed

lemma expected_memory: "panicE expected (memory s)"
proof -
  have "panicE expected (ldst t)" for t
    unfolding ldst_def Let_def by (intro panic_intros expected_access)
  moreover have "panicE expected (loadSpecial t)" for t
    unfolding loadSpecial_def Let_def by (intro panic_intros expected_access expected_simps)
  moreover have "panicE expected (storeSpecial t v)" for t v
    unfolding storeSpecial_def Let_def by (intro panic_intros expected_access)
  ultimately show ?thesis
    unfolding memory_def Let_def storeIO_def by (intro panic_intros)
qed

lemma expected_fetch: "ex s = 0 \<or> en s \<Longrightarrow> panicE expected (fetch s)"
  unfolding fetch_def trap_entry_def by (intro panic_intros expected_access expected_simps) auto

lemma expected_writeback: "panicE expected (writeback s)"
  unfolding writeback_def by (intro panic_intros expected_access)

lemma expected_stages:
  assumes "ex s = 0 \<or> en s" shows "panicE expected (stages s)"
proof -
  have "panicE expected (bindE (decode t) (\<lambda>s. bindE (execute s) (\<lambda>s. bindE (memory s) writeback)))" for t
  proof (cases "ex t = 0")
    case True
    then show ?thesis
      by (simp add: decode_ok) (intro panic_intros expected_execute decode_fields_decoded expected_memory expected_writeback)
  next
    case False
    then show ?thesis by (simp add: decode_pending pending_skip panic_intros)
  qed
  then show ?thesis unfolding stages_def by (rule panicE_bind [OF expected_fetch [OF assms]])
qed

end
