(* ===== verification/ISA.thy ===== *)
theory ISA
  imports Exec_Safe
begin

text \<open>
  The machine instructions, one constructor for each group of rows in the opcode table of the disassembler
  (\<open>dsm/dsm.go\<close>), with \<open>encode\<close> for their bit patterns. The rules of the assembler (\<open>asm/asm\<close>) write the
  same patterns for the instructions they have; they have none for \<open>jlr\<close>, which is only written through the
  aliases \<open>jsr\<close>, \<open>jmp\<close> and \<open>sys\<close>. These and the other aliases of \<open>asm/asm\<close> are short programs here; the
  rule set as a whole is in \<open>Asm_Rules\<close>.
\<close>

section \<open>Instructions and their encoding\<close>

datatype op3 = Add | Adc | Sub | Sbb | Bic | Bis | Xor
datatype yopc = Lsp | Lio | Ssp | Sio | Y04 | Y05 | Y06
datatype op1 = Not | Neg | Sxt | Swb | Lsr | Lsl | Asr
datatype vopc = Rti | Rtl | Di | Ei | Hlt | Brk | V06 | Die

type_synonym r3 = "3 word"

datatype inst =
    Ldw r3 r3 "7 word" | Ldb r3 r3 "7 word" | Stw r3 r3 "7 word" | Stb r3 r3 "7 word"
  | Beq r3 r3 "7 word" | Adi r3 r3 "7 word" | Lui r3 "10 word" | Jlr r3 r3 "6 word"
  | Xop op3 r3 r3 r3 | Yop yopc r3 r3 | Zop op1 r3 | Vop vopc

text \<open>The concatenation of the rules: \<open>acc @ f\<close>.\<close>

definition cat :: "u16 \<Rightarrow> 'a::len word \<Rightarrow> u16" where
  "cat acc f = push_bit LENGTH('a) acc OR ucast f"

fun op3_code :: "op3 \<Rightarrow> 3 word" where
  "op3_code Add = 0" | "op3_code Adc = 1" | "op3_code Sub = 2" | "op3_code Sbb = 3"
| "op3_code Bic = 4" | "op3_code Bis = 5" | "op3_code Xor = 6"

fun yopc_code :: "yopc \<Rightarrow> 3 word" where
  "yopc_code Lsp = 0" | "yopc_code Lio = 1" | "yopc_code Ssp = 2" | "yopc_code Sio = 3"
| "yopc_code Y04 = 4" | "yopc_code Y05 = 5" | "yopc_code Y06 = 6"

fun op1_code :: "op1 \<Rightarrow> 3 word" where
  "op1_code Not = 0" | "op1_code Neg = 1" | "op1_code Sxt = 2" | "op1_code Swb = 3"
| "op1_code Lsr = 4" | "op1_code Lsl = 5" | "op1_code Asr = 6"

fun vopc_code :: "vopc \<Rightarrow> 3 word" where
  "vopc_code Rti = 0" | "vopc_code Rtl = 1" | "vopc_code Di = 2" | "vopc_code Ei = 3"
| "vopc_code Hlt = 4" | "vopc_code Brk = 5" | "vopc_code V06 = 6" | "vopc_code Die = 7"

definition enc_rri :: "u16 \<Rightarrow> r3 \<Rightarrow> r3 \<Rightarrow> 7 word \<Rightarrow> u16" where
  "enc_rri opc a b i = cat (cat (cat opc i) b) a"

definition enc_f :: "3 word \<Rightarrow> 3 word \<Rightarrow> 3 word \<Rightarrow> 3 word \<Rightarrow> u16" where
  "enc_f x c b a = cat (cat (cat (cat 0xF x) c) b) a"

fun encode :: "inst \<Rightarrow> u16" where
  "encode (Ldw a b i) = enc_rri 0 a b i"
| "encode (Ldb a b i) = enc_rri 1 a b i"
| "encode (Stw a b i) = enc_rri 2 a b i"
| "encode (Stb a b i) = enc_rri 3 a b i"
| "encode (Beq a b i) = enc_rri 4 a b i"
| "encode (Adi a b i) = enc_rri 5 a b i"
| "encode (Lui a i) = cat (cat 6 i) a"
| "encode (Jlr a b i) = cat (cat (cat 0xE i) b) a"
| "encode (Xop x a b c) = enc_f (op3_code x) c b a"
| "encode (Yop y a b) = enc_f 7 (yopc_code y) b a"
| "encode (Zop z a) = enc_f 7 7 (op1_code z) a"
| "encode (Vop v) = enc_f 7 7 7 (vopc_code v)"

text \<open>The branch rule takes an absolute target: \<open>reladdr = adr - $ - 1\<close>, cut to 7 bits.\<close>

definition asm_beq :: "r3 \<Rightarrow> r3 \<Rightarrow> u16 \<Rightarrow> u16 \<Rightarrow> inst" where
  "asm_beq a b adr here = Beq a b (ucast (adr - here - 1))"

section \<open>Aliases\<close>

definition lli :: "r3 \<Rightarrow> 6 word \<Rightarrow> inst" where "lli a i = Adi a a (ucast i)"
definition lsi :: "r3 \<Rightarrow> 6 word \<Rightarrow> inst" where "lsi a i = Adi a 0 (ucast i)"
definition nop :: inst where "nop = Zop Neg 0"

definition upper_imm :: "u16 \<Rightarrow> 10 word" where "upper_imm w = ucast (drop_bit 6 w AND 0x3FF)"
definition lower_imm :: "u16 \<Rightarrow> 6 word" where "lower_imm w = ucast (w AND 0x3F)"

definition ldi :: "r3 \<Rightarrow> u16 \<Rightarrow> inst list" where
  "ldi a w = [Lui a (upper_imm w), Adi a a (ucast (lower_imm w))]"

definition sys :: "6 word \<Rightarrow> inst option" where
  "sys i = (if i AND 1 \<noteq> 1 then Some (Jlr 0 0 i) else None)"

definition jsr :: "r3 \<Rightarrow> u16 \<Rightarrow> inst list option" where
  "jsr b w = (if b \<noteq> 0 then Some [Lui b (upper_imm w), Jlr 1 b (lower_imm w)] else None)"

definition jsr_reg :: "r3 \<Rightarrow> inst option" where
  "jsr_reg b = (if b \<noteq> 0 then Some (Jlr 1 b 0) else None)"

definition jmp :: "r3 \<Rightarrow> u16 \<Rightarrow> inst list option" where
  "jmp b w = (if b \<noteq> 0 then Some [Lui b (upper_imm w), Jlr 2 b (lower_imm w)] else None)"

definition jmp_reg :: "r3 \<Rightarrow> inst option" where
  "jmp_reg b = (if b \<noteq> 0 then Some (Jlr 2 b 0) else None)"

text \<open>Register moves to and from I/O and special registers: \<open>lli\<close> on the address register, then the move.\<close>

definition ior :: "r3 \<Rightarrow> r3 \<Rightarrow> 6 word \<Rightarrow> inst list" where "ior a b i = [lli b i, Yop Lio a b]"
definition iow :: "r3 \<Rightarrow> r3 \<Rightarrow> 6 word \<Rightarrow> inst list" where "iow a b i = [lli b i, Yop Sio a b]"
definition srr :: "r3 \<Rightarrow> r3 \<Rightarrow> 6 word \<Rightarrow> inst list" where "srr a b i = [lli b i, Yop Lsp a b]"
definition srw :: "r3 \<Rightarrow> r3 \<Rightarrow> 6 word \<Rightarrow> inst list" where "srw a b i = [lli b i, Yop Ssp a b]"

section \<open>Fields of an encoded instruction\<close>

lemma bit_bits: "bit (bits w hi lo) n \<longleftrightarrow> n < hi - lo + 1 \<and> bit w (lo + n)"
  by (simp only: bits_field bit_take_bit_iff bit_drop_bit_eq comp_def)

lemma bit_cat: "bit (cat acc (f :: 'a::len word)) n \<longleftrightarrow>
    n < 16 \<and> (if n < LENGTH('a) then bit f n else bit acc (n - LENGTH('a)))"
  by (auto simp: cat_def bit_or_iff bit_push_bit_iff bit_ucast_iff not_less dest: bit_imp_le_length)

lemma bits_cat_high:
  assumes "LENGTH('a::len) \<le> lo" "lo \<le> hi" "hi < 16"
  shows "bits (cat acc (f :: 'a word)) hi lo = bits acc (hi - LENGTH('a)) (lo - LENGTH('a))"
  using assms by (intro bit_word_eqI) (auto simp: bit_bits bit_cat)

lemma bits_cat_low:
  assumes "hi < LENGTH('a::len)" "hi < 16" "lo \<le> hi"
  shows "bits (cat acc (f :: 'a word)) hi lo = bits (ucast f) hi lo"
  using assms by (intro bit_word_eqI) (auto simp: bit_bits bit_cat bit_ucast_iff)

lemma bits_ucast: "hi + 1 = LENGTH('a::len) \<Longrightarrow> LENGTH('a) \<le> 16 \<Longrightarrow> bits (ucast (f :: 'a word)) hi 0 = ucast f"
  by (intro bit_word_eqI) (auto simp: bit_bits bit_ucast_iff dest: bit_imp_le_length)

lemmas cat_fields = bits_cat_high bits_cat_low bits_ucast

lemma enc_rri_fields:
  assumes "opc = 0 \<or> opc = 1 \<or> opc = 2 \<or> opc = 3 \<or> opc = 4 \<or> opc = 5"
  shows "bits (enc_rri opc a b i) 15 13 = opc" "bits (enc_rri opc a b i) 12 6 = ucast i"
    "bits (enc_rri opc a b i) 5 3 = ucast b" "bits (enc_rri opc a b i) 2 0 = ucast a"
    "bits (enc_rri opc a b i) 12 12 = bits (ucast i) 6 6"
  using assms by (auto simp: enc_rri_def cat_fields) (simp_all add: bits_def)

lemma enc_lui_fields:
  "bits (cat (cat 6 (i :: 10 word)) (a :: r3)) 15 13 = 6"
  "bits (cat (cat 6 (i :: 10 word)) (a :: r3)) 12 3 = ucast i"
  "bits (cat (cat 6 (i :: 10 word)) (a :: r3)) 2 0 = ucast a"
  by (simp_all add: cat_fields) (simp_all add: bits_def)

lemma enc_jlr_fields:
  "bits (cat (cat (cat 0xE (i :: 6 word)) (b :: r3)) (a :: r3)) 15 13 = 7"
  "bits (cat (cat (cat 0xE (i :: 6 word)) (b :: r3)) (a :: r3)) 12 12 = 0"
  "bits (cat (cat (cat 0xE (i :: 6 word)) (b :: r3)) (a :: r3)) 5 3 = ucast b"
  "bits (cat (cat (cat 0xE (i :: 6 word)) (b :: r3)) (a :: r3)) 2 0 = ucast a"
  by (simp_all add: cat_fields) (simp_all add: bits_def)

lemma enc_jlr_imm: "bits (cat (cat (cat 0xE (i :: 6 word)) (b :: r3)) (a :: r3)) 12 6 = ucast i"
proof -
  have "\<not> bit (0xE :: u16) 0" by simp
  then show ?thesis
    by (intro bit_word_eqI) (auto simp: bit_bits bit_cat bit_ucast_iff less_Suc_eq split: if_splits dest: bit_imp_le_length)
qed

lemma enc_f_fields:
  "bits (enc_f x c b a) 15 13 = 7" "bits (enc_f x c b a) 12 12 = 1" "bits (enc_f x c b a) 11 9 = ucast x"
  "bits (enc_f x c b a) 8 6 = ucast c" "bits (enc_f x c b a) 5 3 = ucast b" "bits (enc_f x c b a) 2 0 = ucast a"
  by (simp_all add: enc_f_def cat_fields) (simp_all add: bits_def)

section \<open>Every word is the code of one instruction\<close>

text \<open>The reference decoder: the inverse of the encoding.\<close>

definition f3 :: "u16 \<Rightarrow> nat \<Rightarrow> r3" where
  "f3 w lo = ucast (bits w (lo + 2) lo)"

definition inst_of :: "u16 \<Rightarrow> inst" where
  "inst_of w =
     (let opc = bits w 15 13; a = f3 w 0; b = f3 w 3; c = f3 w 6; x = f3 w 9;
          i = ucast (bits w 12 6)
      in if opc = 0 then Ldw a b i else if opc = 1 then Ldb a b i
         else if opc = 2 then Stw a b i else if opc = 3 then Stb a b i
         else if opc = 4 then Beq a b i else if opc = 5 then Adi a b i
         else if opc = 6 then Lui a (ucast (bits w 12 3))
         else if bits w 12 12 = 0 then Jlr a b (ucast (bits w 12 6))
         else if x \<noteq> 7 then Xop ([Add, Adc, Sub, Sbb, Bic, Bis, Xor] ! unat x) a b c
         else if c \<noteq> 7 then Yop ([Lsp, Lio, Ssp, Sio, Y04, Y05, Y06] ! unat c) a b
         else if b \<noteq> 7 then Zop ([Not, Neg, Sxt, Swb, Lsr, Lsl, Asr] ! unat b) a
         else Vop ([Rti, Rtl, Di, Ei, Hlt, Brk, V06, Die] ! unat a))"

lemma r3_cases:
  fixes r :: r3
  shows "r = 0 \<or> r = 1 \<or> r = 2 \<or> r = 3 \<or> r = 4 \<or> r = 5 \<or> r = 6 \<or> r = 7"
proof -
  have "unat r < 2 ^ LENGTH(3)" by (rule unsigned_less)
  then have "unat r < 8" by simp
  then have "unat r = 0 \<or> unat r = 1 \<or> unat r = 2 \<or> unat r = 3 \<or> unat r = 4 \<or> unat r = 5
    \<or> unat r = 6 \<or> unat r = 7" by arith
  then show ?thesis by (simp add: word_unat_eq_iff)
qed

lemma code_lists:
  "x \<noteq> 7 \<Longrightarrow> op3_code ([Add, Adc, Sub, Sbb, Bic, Bis, Xor] ! unat x) = x"
  "x \<noteq> 7 \<Longrightarrow> yopc_code ([Lsp, Lio, Ssp, Sio, Y04, Y05, Y06] ! unat x) = x"
  "x \<noteq> 7 \<Longrightarrow> op1_code ([Not, Neg, Sxt, Swb, Lsr, Lsl, Asr] ! unat x) = x"
  "vopc_code ([Rti, Rtl, Di, Ei, Hlt, Brk, V06, Die] ! unat x) = x"
  using r3_cases [of x] by auto

lemma codes_ne7: "op3_code x \<noteq> 7" "yopc_code y \<noteq> 7" "op1_code z \<noteq> 7"
  subgoal by (cases x) simp_all
  subgoal by (cases y) simp_all
  subgoal by (cases z) simp_all
  done

lemma nth_codes:
  "[Add, Adc, Sub, Sbb, Bic, Bis, Xor] ! unat (op3_code x) = x"
  "[Lsp, Lio, Ssp, Sio, Y04, Y05, Y06] ! unat (yopc_code y) = y"
  "[Not, Neg, Sxt, Swb, Lsr, Lsl, Asr] ! unat (op1_code z) = z"
  "[Rti, Rtl, Di, Ei, Hlt, Brk, V06, Die] ! unat (vopc_code v) = v"
  subgoal by (cases x) simp_all
  subgoal by (cases y) simp_all
  subgoal by (cases z) simp_all
  subgoal by (cases v) simp_all
  done

lemma ucast_ucast_u16: "LENGTH('a::len) \<le> 16 \<Longrightarrow> ucast (ucast (f :: 'a word) :: u16) = f"
  by (intro bit_word_eqI) (auto simp: bit_ucast_iff)

lemma f3_eq: "f3 w 0 = ucast (bits w 2 0)" "f3 w 3 = ucast (bits w 5 3)" "f3 w 6 = ucast (bits w 8 6)" "f3 w 9 = ucast (bits w 11 9)"
  by (simp_all add: f3_def del: add_2_eq_Suc add_2_eq_Suc')

lemma inst_of_encode: "inst_of (encode i) = i"
  by (cases i)
     (simp_all add: inst_of_def Let_def f3_eq enc_rri_fields enc_lui_fields enc_jlr_fields enc_jlr_imm
       enc_f_fields ucast_ucast_u16 codes_ne7 nth_codes)

lemma cat_split: "LENGTH('a::len) < 16 \<Longrightarrow> cat (drop_bit LENGTH('a) w) (ucast w :: 'a word) = w"
  by (intro bit_word_eqI) (auto simp: bit_cat bit_ucast_iff bit_drop_bit_eq)

lemma ucast_bits: "hi - lo + 1 = LENGTH('a::len) \<Longrightarrow> LENGTH('a) \<le> 16 \<Longrightarrow> (ucast (bits w hi lo) :: 'a word) = ucast (drop_bit lo w)"
  by (intro bit_word_eqI) (auto simp: bit_bits bit_ucast_iff bit_drop_bit_eq)

lemma bits_top: "lo < 16 \<Longrightarrow> bits w 15 lo = drop_bit lo w"
  by (intro bit_word_eqI) (auto simp: bit_bits bit_drop_bit_eq dest: bit_imp_le_length)

lemma join3: "cat (drop_bit (n + 3) w) (f3 w n) = drop_bit n w"
proof -
  have "f3 w n = ucast (drop_bit n w)" unfolding f3_def by (rule ucast_bits) simp_all
  moreover have "drop_bit (n + 3) w = drop_bit LENGTH(3) (drop_bit n w)"
    by (simp only: drop_bit_drop_bit) (simp add: eval_nat_numeral)
  ultimately show ?thesis using cat_split [where 'a = 3, of "drop_bit n w"] by simp
qed

lemma rri_join:
  "enc_rri (bits w 15 13) (f3 w 0) (f3 w 3) (ucast (bits w 12 6)) = w"
proof -
  have "cat (drop_bit 13 w) (ucast (bits w 12 6) :: 7 word) = drop_bit 6 w"
    using cat_split [where 'a = 7, of "drop_bit 6 w"] by (simp add: ucast_bits drop_bit_drop_bit)
  then show ?thesis
    using join3 [of 3 w] join3 [of 0 w] by (simp add: enc_rri_def bits_top)
qed

lemma lui_join: "bits w 15 13 = 6 \<Longrightarrow> cat (cat 6 (ucast (bits w 12 3) :: 10 word)) (f3 w 0) = w"
proof -
  assume "bits w 15 13 = 6"
  then have "cat 6 (ucast (bits w 12 3) :: 10 word) = drop_bit 3 w"
    using cat_split [where 'a = 10, of "drop_bit 3 w"] by (simp add: ucast_bits drop_bit_drop_bit bits_top)
  then show ?thesis using join3 [of 0 w] by simp
qed

lemma top4:
  "bits w 15 13 = 7 \<Longrightarrow> bits w 12 12 = 0 \<Longrightarrow> drop_bit 12 w = 0xE"
  "bits w 15 13 = 7 \<Longrightarrow> bits w 12 12 \<noteq> 0 \<Longrightarrow> drop_bit 12 w = 0xF"
  using jlr_field [of w] ones_split(1) [of w] bit12 [of w] by (simp_all add: bits_top)

lemma jlr_join:
  assumes "bits w 15 13 = 7" "bits w 12 12 = 0"
  shows "cat (cat (cat 0xE (ucast (bits w 12 6) :: 6 word)) (f3 w 3)) (f3 w 0) = w"
proof -
  have "(ucast (bits w 12 6) :: 6 word) = ucast (drop_bit 6 w)"
    by (intro bit_word_eqI) (auto simp: bit_bits bit_ucast_iff bit_drop_bit_eq)
  then have "cat 0xE (ucast (bits w 12 6) :: 6 word) = drop_bit 6 w"
    using cat_split [where 'a = 6, of "drop_bit 6 w"] top4(1) [OF assms] by (simp add: drop_bit_drop_bit)
  then show ?thesis using join3 [of 3 w] join3 [of 0 w] by simp
qed

lemma f_join:
  assumes "bits w 15 13 = 7" "bits w 12 12 \<noteq> 0"
  shows "enc_f (f3 w 9) (f3 w 6) (f3 w 3) (f3 w 0) = w"
  using join3 [of 9 w] join3 [of 6 w] join3 [of 3 w] join3 [of 0 w] top4(2) [OF assms]
  by (simp add: enc_f_def)

lemma u3_cases: "bits w 15 13 = 0 \<or> bits w 15 13 = 1 \<or> bits w 15 13 = 2 \<or> bits w 15 13 = 3
  \<or> bits w 15 13 = 4 \<or> bits w 15 13 = 5 \<or> bits w 15 13 = 6 \<or> bits w 15 13 = 7"
  by (rule word_lt8 [OF unat_bits3(5)])

lemma encode_inst_of: "encode (inst_of w) = w"
proof -
  consider (rri) "bits w 15 13 = 0 \<or> bits w 15 13 = 1 \<or> bits w 15 13 = 2 \<or> bits w 15 13 = 3 \<or> bits w 15 13 = 4 \<or> bits w 15 13 = 5"
    | (lui) "bits w 15 13 = 6" | (seven) "bits w 15 13 = 7" using u3_cases [of w] by auto
  then show ?thesis
  proof cases
    case rri
    then show ?thesis using rri_join [of w] by (elim disjE) (simp_all add: inst_of_def Let_def)
  next
    case lui
    then show ?thesis using lui_join [of w] by (simp add: inst_of_def Let_def)
  next
    case seven
    show ?thesis
    proof (cases "bits w 12 12 = 0")
      case True
      then show ?thesis using jlr_join [OF seven] seven by (simp add: inst_of_def Let_def)
    next
      case False
      then show ?thesis using f_join [OF seven False] seven by (auto simp: inst_of_def Let_def code_lists)
    qed
  qed
qed

lemma bij_encode: "bij encode"
  using inst_of_encode encode_inst_of by (metis bijI')
end
