(* ===== verification/Arch.thy ===== *)
theory Arch
  imports ISA
begin

text \<open>
  The architecture of the WUT-4 as a specification: a state without the emulator's latches and
  with byte-addressed physical memory, \<open>exec_inst\<close>, the effect of each instruction on it by
  arithmetic on register values, and \<open>arch_step\<close>, one cycle with the trap that may come before it.
  It gives the instructions the meaning their names and the comments of \<open>emul/exec.go\<close> have,
  also where \<open>emul/exec.go\<close> does something else: additions and subtractions leave their carry or
  borrow, a misaligned word access is an alignment fault, \<open>sxt\<close> sign-extends. \<open>arch_of\<close> is the view
  of the emulator as such a state.
\<close>

section \<open>The architecture\<close>

record arch =
  regs :: "w4reg list"
  amode :: nat
  apc :: u16
  carry :: u16
  ien :: bool
  running :: bool
  bytes :: "nat \<Rightarrow> u8"
  pend :: exception

definition rd :: "arch \<Rightarrow> r3 \<Rightarrow> u16" where
  "rd st r = gen (regs st ! amode st) ! unat r"

definition wr :: "r3 \<Rightarrow> u16 \<Rightarrow> arch \<Rightarrow> arch" where
  "wr r v st = (if r = 0 then st else st\<lparr>regs := put_gen (regs st) (amode st) (unat r) v\<rparr>)"

definition spr_at :: "arch \<Rightarrow> nat \<Rightarrow> nat \<Rightarrow> u16" where
  "spr_at st m i = spr (regs st ! m) ! i"

fun op3_val :: "op3 \<Rightarrow> u16 \<Rightarrow> u16 \<Rightarrow> u16 \<Rightarrow> u16" where
  "op3_val Add y x c = y + x"
| "op3_val Adc y x c = y + x + c"
| "op3_val Sub y x c = y - x"
| "op3_val Sbb y x c = y - x - c"
| "op3_val Bic y x c = y AND NOT x"
| "op3_val Bis y x c = y OR x"
| "op3_val Xor y x c = y XOR x"

text \<open>The carry of an addition and the borrow of a subtraction; the logical operations clear it.\<close>

fun op3_carry :: "op3 \<Rightarrow> u16 \<Rightarrow> u16 \<Rightarrow> u16 \<Rightarrow> u16" where
  "op3_carry Add y x c = of_bool (unat y + unat x \<ge> 65536)"
| "op3_carry Adc y x c = of_bool (unat y + unat x + unat c \<ge> 65536)"
| "op3_carry Sub y x c = of_bool (unat y < unat x)"
| "op3_carry Sbb y x c = of_bool (unat y < unat x + unat c)"
| "op3_carry _ y x c = 0"

text \<open>One-operand operations, by arithmetic on the value: the result and the carry out.\<close>

fun op1_val :: "op1 \<Rightarrow> u16 \<Rightarrow> u16 \<times> u16" where
  "op1_val Not x = (- x - 1, 0)"
| "op1_val Neg x = (- x, 0)"
| "op1_val Sxt x = (scast (ucast x :: u8), 0)"
| "op1_val Swb x = (of_nat (256 * (unat x mod 256) + unat x div 256), 0)"
| "op1_val Lsr x = (of_nat (unat x div 2), of_nat (unat x mod 2))"
| "op1_val Lsl x = (2 * x, of_nat (unat x div 32768))"
| "op1_val Asr x = (word_of_int (sint x div 2), of_nat (unat x mod 2))"

text \<open>Paging: the MMU entry of an address in the current mode, and the physical byte that a data address
  or the word at a code address has, \<open>None\<close> when the page is not there.\<close>

definition entry :: "arch \<Rightarrow> bool \<Rightarrow> u16 \<Rightarrow> nat" where
  "entry st d v = unat (spr_at st (amode st) (32 + (if d then 16 else 0) + unat v div 4096)) mod 4096"

definition data_map :: "arch \<Rightarrow> u16 \<Rightarrow> nat option" where
  "data_map st v = (let p = 4096 * entry st True v + unat v mod 4096 in if p < 2 * PhysMemSize then Some p else None)"

definition code_map :: "arch \<Rightarrow> u16 \<Rightarrow> nat option" where
  "code_map st v = (let p = 4096 * entry st False v + unat v mod 4096 in if p < PhysMemSize then Some (2 * p) else None)"

definition word_at :: "arch \<Rightarrow> nat \<Rightarrow> u16" where
  "word_at st p = ucast (bytes st p) + 256 * ucast (bytes st (p + 1))"

definition trap :: "exception \<Rightarrow> arch \<Rightarrow> arch" where
  "trap e st = st\<lparr>pend := e\<rparr>"

definition privileged :: "(arch \<Rightarrow> arch) \<Rightarrow> arch \<Rightarrow> arch" where
  "privileged f st = (if amode st = User then trap ExIllegal st else f st)"

fun exec_inst :: "inst \<Rightarrow> arch \<Rightarrow> arch" where
  "exec_inst (Ldw a b k) st =
     (if a = 0 \<and> b = 0 \<and> k = 0 then trap ExIllegal st
      else let v = rd st b + scast k in
        case data_map st v of None \<Rightarrow> trap ExMemory st
        | Some p \<Rightarrow> if odd (unat v) then trap ExAlign st else wr a (word_at st p) st)"
| "exec_inst (Ldb a b k) st =
     (case data_map st (rd st b + scast k) of None \<Rightarrow> trap ExMemory st
      | Some p \<Rightarrow> wr a (ucast (bytes st p)) st)"
| "exec_inst (Stw a b k) st =
     (let v = rd st b + scast k in
        case data_map st v of None \<Rightarrow> trap ExMemory st
        | Some p \<Rightarrow> if odd (unat v) then trap ExAlign st
                    else st\<lparr>bytes := (bytes st)(p := ucast (rd st a), p + 1 := ucast (drop_bit 8 (rd st a)))\<rparr>)"
| "exec_inst (Stb a b k) st =
     (case data_map st (rd st b + scast k) of None \<Rightarrow> trap ExMemory st
      | Some p \<Rightarrow> st\<lparr>bytes := (bytes st)(p := ucast (rd st a))\<rparr>)"
| "exec_inst (Beq a b k) st = (if rd st b = rd st a then st\<lparr>apc := apc st + scast k\<rparr> else st)"
| "exec_inst (Adi a b k) st = wr a (rd st b + scast k) st"
| "exec_inst (Lui a k) st = wr a (64 * ucast k) st"
| "exec_inst (Jlr a b k) st =
     (if a = 0 then (if b \<noteq> 0 \<or> odd (unat k) \<or> unat k < 32 then trap ExIllegal st else trap (ucast k) st)
      else if a = 1 then
        st\<lparr>regs := put_spr (regs st) (amode st) Link (apc st), apc := rd st b + ucast k\<rparr>
      else if a = 2 then st\<lparr>apc := rd st b + ucast k\<rparr>
      else trap ExIllegal st)"
| "exec_inst (Xop x a b c) st =
     wr a (op3_val x (rd st c) (rd st b) (carry st)) (st\<lparr>carry := op3_carry x (rd st c) (rd st b) (carry st)\<rparr>)"
| "exec_inst (Yop y a b) st =
     (case y of Lio \<Rightarrow> wr a 0 st | Sio \<Rightarrow> st | _ \<Rightarrow> trap ExIllegal st)"
| "exec_inst (Zop z a) st =
     wr a (fst (op1_val z (rd st a))) (st\<lparr>carry := snd (op1_val z (rd st a))\<rparr>)"
| "exec_inst (Vop v) st =
     (case v of
        Rti \<Rightarrow> privileged (\<lambda>st. st\<lparr>ien := True, apc := spr_at st Kern Irr,
                 regs := put_spr (regs st) Kern Irr 0, amode := unat (spr_at st Kern Imr) mod 256\<rparr>) st
      | Rtl \<Rightarrow> st\<lparr>apc := spr_at st (amode st) Link\<rparr>
      | Di \<Rightarrow> privileged (\<lambda>st. st\<lparr>ien := False\<rparr>) st
      | Ei \<Rightarrow> privileged (\<lambda>st. st\<lparr>ien := True\<rparr>) st
      | Hlt \<Rightarrow> privileged (\<lambda>st. st\<lparr>running := False\<rparr>) st
      | Brk \<Rightarrow> privileged (\<lambda>st. st) st
      | V06 \<Rightarrow> trap ExIllegal st
      | Die \<Rightarrow> trap ExIllegal st)"

text \<open>A pending exception enters the kernel at the address that is its number; then the instruction at
  the program counter, if its page is there, runs with the program counter advanced.\<close>

definition take_trap :: "arch \<Rightarrow> arch" where
  "take_trap st =
     (if pend st = 0 then st
      else st\<lparr>regs := put_spr (put_spr (put_spr (regs st) Kern Irr (apc st)) Kern Icr (pend st)) Kern Imr (of_nat (amode st)),
              amode := Kern, apc := pend st, ien := False, pend := 0\<rparr>)"

definition next_inst :: "arch \<Rightarrow> inst option" where
  "next_inst st = map_option (\<lambda>p. inst_of (word_at st p)) (code_map st (apc st))"

definition arch_step :: "arch \<Rightarrow> arch" where
  "arch_step st =
     (let st = take_trap st in
      case next_inst st of None \<Rightarrow> trap ExMemory st | Some i \<Rightarrow> exec_inst i (st\<lparr>apc := apc st + 1\<rparr>))"

section \<open>What the emulator does instead\<close>

text \<open>The emulator departs from this in three ways: the codes of \<open>sxt\<close> and \<open>swb\<close> are exchanged, the
  three-operand instructions clear the carry, and a misaligned word access is reported as a memory fault.
  \<open>emul_step\<close> is \<open>arch_step\<close> with these departures and no other.\<close>

fun emul_op1 :: "op1 \<Rightarrow> op1" where
  "emul_op1 Sxt = Swb" | "emul_op1 Swb = Sxt" | "emul_op1 z = z"

fun emul_inst :: "inst \<Rightarrow> inst" where
  "emul_inst (Zop z a) = Zop (emul_op1 z) a"
| "emul_inst i = i"

fun departs :: "inst \<Rightarrow> arch \<Rightarrow> arch" where
  "departs (Xop x a b c) st = st\<lparr>carry := 0\<rparr>"
| "departs (Ldw a b k) st = (if pend st = ExAlign then trap ExMemory st else st)"
| "departs (Stw a b k) st = (if pend st = ExAlign then trap ExMemory st else st)"
| "departs _ st = st"

definition emul_step :: "arch \<Rightarrow> arch" where
  "emul_step st =
     (let st = take_trap st in
      case next_inst st of None \<Rightarrow> trap ExMemory st
      | Some i \<Rightarrow> departs i (exec_inst (emul_inst i) (st\<lparr>apc := apc st + 1\<rparr>)))"

text \<open>The steps this is said of: no MMU entry of the mode is the one value the emulator's bounds check
  misses, and the instruction is none of \<open>lsp\<close>, \<open>ssp\<close> and \<open>brk\<close>, and \<open>rti\<close> only when
  a valid mode has been saved.\<close>

definition plain :: "inst \<Rightarrow> bool" where
  "plain i \<longleftrightarrow> (case i of Yop y _ _ \<Rightarrow> y \<noteq> Lsp \<and> y \<noteq> Ssp | Vop v \<Rightarrow> v \<noteq> Brk | _ \<Rightarrow> True)"

definition covered :: "arch \<Rightarrow> bool" where
  "covered st \<longleftrightarrow>
     (\<forall>i < 16. unat (spr_at st (amode st) (32 + i)) mod 4096 \<noteq> 0x60 \<and> unat (spr_at st (amode st) (48 + i)) mod 4096 \<noteq> 0xC0)
     \<and> (\<forall>i. next_inst st = Some i \<longrightarrow> plain i \<and> (i = Vop Rti \<longrightarrow> unat (spr_at st Kern Imr) mod 256 < 2))"

section \<open>The view of the emulator\<close>

definition pbyte :: "(nat \<Rightarrow> u16) \<Rightarrow> nat \<Rightarrow> u8" where
  "pbyte m a = ucast (drop_bit (8 * (a mod 2)) (m (a div 2)))"

definition arch_of :: "emu \<Rightarrow> arch" where
  "arch_of s = \<lparr>regs = reg s, amode = unat (mode s), apc = pc s, carry = hc s, ien = en s,
                running = run s, bytes = pbyte (physmem s), pend = ex s\<rparr>"

text \<open>The physical byte address of a data address of the emulator.\<close>

definition byte_addr :: "emu \<Rightarrow> u16 \<Rightarrow> nat" where
  "byte_addr s v = 4096 * (unat (mmu_entry s True v) mod 4096) + unat v mod 4096"

end
