(* ===== verification/Refine.thy ===== *)
theory Refine
  imports Arch
begin

text \<open>
  The five stages of \<open>emul/exec.go\<close> implement the architecture of theory \<open>Arch\<close>: a cycle takes a
  pending trap and then has the effect \<open>exec_inst\<close> gives to the instruction at the program counter,
  but for the departures listed there.
\<close>

section \<open>Immediates\<close>

lemma imm_issued: "imm (issued s w) = sxtImm (s\<lparr>ir := w, pc := pc s + 1\<rparr>)"
  by (simp add: issued_def)

lemma bits66: "bits (ucast (k :: 7 word)) 6 6 \<noteq> 0 \<longleftrightarrow> bit k 6"
proof
  assume "bits (ucast k) 6 6 \<noteq> 0"
  then obtain n where "bit (bits (ucast k) 6 6) n" by (auto simp: bit_eq_iff)
  then show "bit k 6" by (auto simp: bit_bits bit_ucast_iff)
next
  assume "bit k 6"
  then have "bit (bits (ucast k) 6 6) 0" by (simp add: bit_bits bit_ucast_iff)
  then show "bits (ucast k) 6 6 \<noteq> 0" by auto
qed

lemma scast7: "(if bit (k :: 7 word) 6 then ucast k OR 0xFF80 else ucast k) = (scast k :: u16)"
proof (rule bit_word_eqI)
  fix n :: nat
  have m: "bit (0xFF80 :: u16) n \<longleftrightarrow> n < 16 \<and> 7 \<le> n"
  proof -
    have "(0xFF80 :: u16) = NOT (mask 7)" by (simp add: mask_eq_exp_minus_1)
    then show ?thesis by (simp only: bit_not_iff bit_mask_iff) auto
  qed
  have k: "bit k n \<Longrightarrow> n < 7" using bit_imp_le_length [of k n] by simp
  have s: "bit (scast k :: u16) n \<longleftrightarrow> n < 16 \<and> bit k (min n 6)"
    by (simp add: bit_signed_iff min.commute)
  have u: "bit (ucast k :: u16) n \<longleftrightarrow> n < 16 \<and> bit k n" by (simp add: bit_ucast_iff)
  have l: "bit (if bit k 6 then ucast k OR 0xFF80 else ucast k :: u16) n
      \<longleftrightarrow> n < 16 \<and> (bit k n \<or> bit k 6 \<and> 7 \<le> n)"
    by (simp only: if_distrib [of "\<lambda>w. bit w n"] bit_or_iff m u) auto
  have "n < 6 \<or> n = 6 \<or> 7 \<le> n" by arith
  then show "bit (if bit k 6 then ucast k OR 0xFF80 else ucast k :: u16) n = bit (scast k :: u16) n"
    unfolding l s using k by auto
qed

lemma imm_rri:
  assumes "opc = 0 \<or> opc = 1 \<or> opc = 2 \<or> opc = 3 \<or> opc = 4 \<or> opc = 5"
  shows "imm (issued s (enc_rri opc a b k)) = scast k"
proof -
  have "opc < 6" using assms by auto
  then show ?thesis
    by (simp add: imm_issued sxtImm_def Let_def enc_rri_fields [OF assms] bits66 scast7 [symmetric])
qed

lemma imm_lui: "imm (issued s (cat (cat 6 (k :: 10 word)) (a :: r3))) = 64 * ucast k"
  by (simp add: imm_issued sxtImm_def Let_def enc_lui_fields push_bit_eq_mult)

lemma imm_jlr: "imm (issued s (cat (cat (cat 0xE (k :: 6 word)) (b :: r3)) (a :: r3))) = ucast k"
  by (simp add: imm_issued sxtImm_def Let_def enc_jlr_fields enc_jlr_imm)

section \<open>Execute on an encoded instruction\<close>

abbreviation (input) rg :: "emu \<Rightarrow> r3 \<Rightarrow> u16" where
  "rg s r \<equiv> gen (reg s ! unat (mode s)) ! unat r"

lemma r3_lt: "unat (r :: r3) < 8"
proof -
  have "unat r < 2 ^ LENGTH(3)" by (rule unsigned_less)
  then show ?thesis by simp
qed

lemma r3_unat: "unat (ucast (r :: r3) :: u16) = unat r"
  by (rule unat_ucast_le) simp

lemma r3_eq: "(ucast (r :: r3) :: u16) = 0 \<longleftrightarrow> r = 0" "(ucast r :: u16) = 1 \<longleftrightarrow> r = 1"
  "(ucast r :: u16) = 2 \<longleftrightarrow> r = 2" "(ucast r :: u16) = 7 \<longleftrightarrow> r = 7"
  using r3_cases [of r] by auto

lemma cur_gen_r3: "wf s \<Longrightarrow> cur_gen s (ucast r) = Inr (rg s r)"
  by (simp add: cur_gen_ok r3_unat r3_lt)

lemma wf_issued [simp]: "wf (issued s w) \<longleftrightarrow> wf s"
  by (simp add: wf_def)

lemma exec_rri:
  assumes "ex s = 0" "opc = 0 \<or> opc = 1 \<or> opc = 2 \<or> opc = 3 \<or> opc = 4 \<or> opc = 5"
  shows "execute (issued s (enc_rri opc a b k)) =
     (if opc = 0 then ldw else if opc = 1 then ldb else if opc = 2 then stw else if opc = 3 then stb
      else if opc = 4 then beq else adi) (issued s (enc_rri opc a b k))"
proof -
  have o: "op (issued s (enc_rri opc a b k)) = opc" "unat opc < 8" "opc \<noteq> 7"
    using assms(2) by (auto simp: enc_rri_fields)
  have "execute (issued s (enc_rri opc a b k)) = call baseops opc (issued s (enc_rri opc a b k))"
    using execute_dispatch(1) [OF issued_decoded [OF assms(1)], of "enc_rri opc a b k"] o by simp
  then show ?thesis using assms(2) unfolding call_base [OF o(2)] by auto
qed

lemma exec_lui:
  fixes a :: r3 and k :: "10 word"
  assumes "ex s = 0" defines "w \<equiv> encode (Lui a k)"
  shows "execute (issued s w) = Inr ((issued s w)\<lparr>alu := 64 * ucast k\<rparr>)"
proof -
  have o: "op (issued s w) = 6" by (simp add: w_def enc_lui_fields)
  have "execute (issued s w) = call baseops 6 (issued s w)"
    using execute_dispatch(1) [OF issued_decoded [OF assms(1)], of w] o by simp
  then show ?thesis by (simp add: call_base lui_def w_def imm_lui)
qed

lemma exec_jlr:
  fixes a b :: r3 and k :: "6 word"
  assumes "ex s = 0" defines "w \<equiv> encode (Jlr a b k)"
  shows "execute (issued s w) = jlr (issued s w)"
proof -
  have o: "op (issued s w) = 7" "bits (ir (issued s w)) 12 12 \<noteq> 1" by (simp_all add: w_def enc_jlr_fields)
  have "execute (issued s w) = call baseops 7 (issued s w)"
    using execute_dispatch(1) [OF issued_decoded [OF assms(1)], of w] o by simp
  then show ?thesis by (simp add: call_base)
qed

lemma exec_f:
  assumes "ex s = 0"
  shows "execute (issued s (encode (Xop x a b c))) = alu3 (issued s (encode (Xop x a b c)))"
    "execute (issued s (encode (Yop y a b))) = call yops (ucast (yopc_code y)) (issued s (encode (Yop y a b)))"
    "execute (issued s (encode (Zop z a))) = alu1 (issued s (encode (Zop z a)))"
    "execute (issued s (encode (Vop v))) = call vops (ucast (vopc_code v)) (issued s (encode (Vop v)))"
  using execute_dispatch(2) [OF issued_decoded [OF assms], of "encode (Xop x a b c)"]
    execute_dispatch(3) [OF issued_decoded [OF assms], of "encode (Yop y a b)"]
    execute_dispatch(4) [OF issued_decoded [OF assms], of "encode (Zop z a)"]
    execute_dispatch(5) [OF issued_decoded [OF assms], of "encode (Vop v)"]
  by (simp_all add: enc_f_fields r3_eq codes_ne7)

lemma issued_class [simp]:
  "isYop (issued s w) \<longleftrightarrow> isYop (decode_fields (s\<lparr>ir := w\<rparr>))"
  "isXop (issued s w) \<longleftrightarrow> isXop (decode_fields (s\<lparr>ir := w\<rparr>))"
  "isZop (issued s w) \<longleftrightarrow> isZop (decode_fields (s\<lparr>ir := w\<rparr>))"
  by (simp_all add: issued_def)

section \<open>Memory and writeback of an encoded instruction\<close>

text \<open>What reaches the registers: the write-back register goes to \<open>ra\<close> unless that is register 0.\<close>

definition wback :: "emu \<Rightarrow> r3 \<Rightarrow> u16 \<Rightarrow> emu" where
  "wback s a v = (if a = 0 then s else s\<lparr>reg := put_gen (reg s) (unat (mode s)) (unat a) v\<rparr>)"

lemma writeback_reg:
  assumes "wf s" "ex s = 0" "ra s = ucast (a :: r3)"
    "op s = 0 \<or> op s = 1 \<or> op s = 5 \<or> op s = 6 \<or> isXop s \<or> isYop s \<and> yop s < 2 \<or> isZop s"
  shows "writeback s = Inr (wback s a (wb s))"
proof -
  have i: "idx (reg s) (unat (mode s)) = Inr (reg s ! unat (mode s))" using assms(1) by (simp add: wf_def)
  show ?thesis
    using assms by (auto simp: writeback_def i wback_def r3_eq r3_unat gen_set_ok wf_def r3_lt)
qed

lemma writeback_none:
  assumes "wf s" "\<not> (op s = 0 \<or> op s = 1 \<or> op s = 5 \<or> op s = 6 \<or> isXop s \<or> isYop s \<and> yop s < 2 \<or> isZop s)"
  shows "writeback s = Inr s"
proof -
  have i: "idx (reg s) (unat (mode s)) = Inr (reg s ! unat (mode s))" using assms(1) by (simp add: wf_def)
  show ?thesis using assms(2) by (auto simp: writeback_def i)
qed

lemma memory_pass: "ex s = 0 \<Longrightarrow> \<not> op s < 4 \<Longrightarrow> \<not> isYop s \<Longrightarrow> memory s = Inr (s\<lparr>wb := alu s\<rparr>)"
  by (simp add: memory_def Let_def)

section \<open>Bytes of memory\<close>

lemma unat_and_1: "unat ((v :: u16) AND 1) = unat v mod 2"
proof -
  have "v AND 1 = take_bit 1 v" by (simp add: take_bit_eq_mask)
  then show ?thesis by (simp only: unsigned_take_bit_eq) (simp add: take_bit_eq_mod)
qed

lemma odd_and_1: "(v :: u16) AND 1 \<noteq> 0 \<longleftrightarrow> odd (unat v)" "(v :: u16) AND 1 = 1 \<longleftrightarrow> odd (unat v)"
  using unat_and_1 [of v] by (auto simp: word_unat_eq_iff odd_iff_mod_2_eq_one)

lemma unat_u8: "unat (ucast (w :: u16) :: u8) = unat w mod 256"
  by (simp add: unsigned_ucast_eq take_bit_eq_mod)

lemma unat_hi8: "unat (ucast (drop_bit 8 (w :: u16)) :: u8) = unat w div 256"
proof -
  have "unat (drop_bit 8 w) = unat w div 256"
    by (simp only: unat_drop_bit_eq) (simp add: drop_bit_eq_div)
  moreover have "unat w div 256 < 256" using unat_lt_u16 [of w] by (intro less_mult_imp_div_less) simp
  ultimately show ?thesis by (simp only: unat_u8 mod_less)
qed

lemma pbyte_even: "even p \<Longrightarrow> pbyte m p = ucast (m (p div 2))" "even p \<Longrightarrow> pbyte m (p + 1) = ucast (drop_bit 8 (m (p div 2)))"
  by (auto simp: pbyte_def)

lemma pbyte_odd: "odd p \<Longrightarrow> pbyte m p = ucast (drop_bit 8 (m (p div 2)))"
  by (simp add: pbyte_def odd_iff_mod_2_eq_one)

lemma word_of_bytes:
  "even p \<Longrightarrow> ucast (pbyte m p) + 256 * ucast (pbyte m (p + 1)) = m (p div 2)"
proof -
  assume "even p"
  then have "unat (pbyte m p) = unat (m (p div 2)) mod 256" "unat (pbyte m (p + 1)) = unat (m (p div 2)) div 256"
    by (simp_all only: pbyte_even unat_u8 unat_hi8 [symmetric])
  then have "unat (pbyte m p) + 256 * unat (pbyte m (p + 1)) = unat (m (p div 2))"
    by (simp only: mod_mult_div_eq)
  then have "of_nat (unat (pbyte m p) + 256 * unat (pbyte m (p + 1))) = m (p div 2)" by simp
  then show ?thesis by simp
qed

lemma byte_of_word:
  "ucast (pbyte m p) = (if odd p then drop_bit 8 (m (p div 2)) else m (p div 2) AND 0xFF)"
proof (cases "odd p")
  case True
  have "unat (pbyte m p) = unat (drop_bit 8 (m (p div 2)))"
    using True unfolding pbyte_odd [OF True] unat_hi8
    by (simp only: unat_drop_bit_eq) (simp add: drop_bit_eq_div)
  then have "of_nat (unat (pbyte m p)) = drop_bit 8 (m (p div 2))" by simp
  with True show ?thesis by simp
next
  case False
  have "unat (m (p div 2) AND 0xFF) = unat (m (p div 2)) mod 256"
  proof -
    have "m (p div 2) AND 0xFF = take_bit 8 (m (p div 2))" by (simp add: take_bit_eq_mask mask_eq_exp_minus_1)
    then show ?thesis by (simp only: unsigned_take_bit_eq) (simp add: take_bit_eq_mod)
  qed
  with False have "unat (pbyte m p) = unat (m (p div 2) AND 0xFF)" 
    by (simp only: pbyte_even(1) unat_u8 not_not)
  then have "of_nat (unat (pbyte m p)) = m (p div 2) AND 0xFF" by simp
  with False show ?thesis by simp
qed

lemma pbyte_upd: "pbyte (m(q := w)) = (pbyte m)(2 * q := ucast w, 2 * q + 1 := ucast (drop_bit 8 w))"
proof
  fix p
  consider "p = 2 * q" | "p = 2 * q + 1" | "p div 2 \<noteq> q" "p \<noteq> 2 * q" "p \<noteq> 2 * q + 1" by linarith
  then show "pbyte (m(q := w)) p = ((pbyte m)(2 * q := ucast w, 2 * q + 1 := ucast (drop_bit 8 w))) p"
    by cases (auto simp: pbyte_def)
qed

lemma low_merge: "ucast ((w AND 0xFF00) OR (d AND 0xFF)) = (ucast (d :: u16) :: u8)"
  "ucast (drop_bit 8 ((w AND 0xFF00) OR (d AND 0xFF))) = (ucast (drop_bit 8 (w :: u16)) :: u8)"
  "ucast ((w AND 0xFF) OR push_bit 8 d) = (ucast (w :: u16) :: u8)"
  "ucast (drop_bit 8 ((w AND 0xFF) OR push_bit 8 d)) = (ucast (d :: u16) :: u8)"
proof -
  have l: "bit (0xFF :: u16) n \<longleftrightarrow> n < 8" for n
  proof -
    have "(0xFF :: u16) = mask 8" by (simp add: mask_eq_exp_minus_1)
    then show ?thesis by (simp only: bit_mask_iff) auto
  qed
  have h: "bit (0xFF00 :: u16) n \<longleftrightarrow> n < 16 \<and> 8 \<le> n" for n
  proof -
    have "(0xFF00 :: u16) = NOT (mask 8)" by (simp add: mask_eq_exp_minus_1)
    then show ?thesis by (simp only: bit_not_iff bit_mask_iff) auto
  qed
  note b = bit_or_iff bit_and_iff bit_ucast_iff bit_drop_bit_eq comp_def bit_push_bit_iff l h
  show "ucast ((w AND 0xFF00) OR (d AND 0xFF)) = (ucast (d :: u16) :: u8)"
    by (rule bit_word_eqI) (simp only: b, auto)
  show "ucast (drop_bit 8 ((w AND 0xFF00) OR (d AND 0xFF))) = (ucast (drop_bit 8 (w :: u16)) :: u8)"
    by (rule bit_word_eqI) (simp only: b, auto)
  show "ucast ((w AND 0xFF) OR push_bit 8 d) = (ucast (w :: u16) :: u8)"
    by (rule bit_word_eqI) (simp only: b, auto)
  show "ucast (drop_bit 8 ((w AND 0xFF) OR push_bit 8 d)) = (ucast (d :: u16) :: u8)"
    by (rule bit_word_eqI) (simp only: b, auto)
qed

text \<open>The read-modify-write of a byte store changes that byte alone.\<close>

lemma pbyte_stb:
  "pbyte (m(p div 2 := if odd p then (m (p div 2) AND 0xFF) OR push_bit 8 d
                       else (m (p div 2) AND 0xFF00) OR (d AND 0xFF))) = (pbyte m)(p := ucast d)"
proof (cases "odd p")
  case True
  then have p: "2 * (p div 2) + 1 = p" by simp
  have "pbyte m (2 * (p div 2)) = ucast (m (p div 2))" by (simp add: pbyte_def)
  then show ?thesis
    using p by (simp only: pbyte_upd True not_False_eq_True if_True low_merge) (auto simp: fun_eq_iff)
next
  case False
  then have p: "2 * (p div 2) = p" by simp
  have "pbyte m (p + 1) = ucast (drop_bit 8 (m (p div 2)))" using False pbyte_even(2) by simp
  then show ?thesis
    using p by (simp only: pbyte_upd False if_False low_merge) (auto simp: fun_eq_iff)
qed

lemma pbyte_stw: "even p \<Longrightarrow> pbyte (m(p div 2 := w)) = (pbyte m)(p := ucast w, p + 1 := ucast (drop_bit 8 w))"
  by (simp only: pbyte_upd) simp

section \<open>Loads and stores\<close>

lemma phys_byte: "phys s True v = byte_addr s v div 2"
  by (simp add: phys_def byte_addr_def)

lemma odd_byte_addr: "odd (byte_addr s v) \<longleftrightarrow> odd (unat v)"
proof -
  have "even (4096 :: nat)" by simp
  then have "odd (unat v mod 4096) \<longleftrightarrow> odd (unat v)" by (simp only: dvd_mod_iff)
  then show ?thesis by (simp add: byte_addr_def)
qed

lemma translate_data:
  assumes "wf t"
  shows "translate t True v = Inr (if byte_addr t v div 2 > PhysMemSize then ExMemory else ExNone, of_nat (byte_addr t v div 2))"
  using translate_eq [OF assms, of True v] by (simp only: phys_byte)

lemma unat_byte_addr: "unat (of_nat (byte_addr t v div 2) :: u32) = byte_addr t v div 2"
proof -
  have "byte_addr t v div 2 < 2 ^ 24" using phys_bound [of t True v] by (simp only: phys_byte)
  then show ?thesis by (simp add: unat_of_nat)
qed

lemma ldst_eq:
  assumes "wf t" "mmu_safe t"
  defines "p \<equiv> byte_addr t (alu t)"
  shows "ldst t =
    (if p div 2 > PhysMemSize then Inr (t\<lparr>ex := ExMemory\<rparr>)
     else if op t = 0 then (if odd (unat (alu t)) then Inr (t\<lparr>ex := ExMemory\<rparr>) else Inr (t\<lparr>wb := physmem t (p div 2)\<rparr>))
     else if op t = 1 then Inr (t\<lparr>wb := ucast (pbyte (physmem t) p)\<rparr>)
     else if op t = 2 then
       (if odd (unat (alu t)) then Inr (t\<lparr>ex := ExMemory\<rparr>) else Inr (t\<lparr>physmem := (physmem t)(p div 2 := sd t)\<rparr>))
     else Inr (t\<lparr>physmem := (physmem t)(p div 2 := if odd p then (physmem t (p div 2) AND 0xFF) OR push_bit 8 (sd t)
                       else (physmem t (p div 2) AND 0xFF00) OR (sd t AND 0xFF))\<rparr>))"
proof (cases "p div 2 > PhysMemSize")
  case True
  then show ?thesis by (simp add: ldst_def Let_def translate_data [OF assms(1)] p_def [symmetric])
next
  case False
  have "p div 2 \<noteq> PhysMemSize"
    using mmu_safe_phys [OF assms(2), of True "alu t"] by (simp only: phys_byte p_def not_False_eq_True)
  with False have "p div 2 < PhysMemSize" by simp
  then have g: "mem_get t (of_nat (p div 2)) = Inr (physmem t (p div 2))"
    "mem_set t (of_nat (p div 2)) w = Inr (t\<lparr>physmem := (physmem t)(p div 2 := w)\<rparr>)" for w
    by (simp_all only: mem_get_def mem_set_def p_def unat_byte_addr if_True)
  show ?thesis
    using False unfolding ldst_def Let_def translate_data [OF assms(1)] p_def [symmetric] odd_and_1 odd_byte_addr [of t "alu t", folded p_def]
    by (simp add: g byte_of_word odd_byte_addr [of t "alu t", folded p_def])
qed

section \<open>Refinement\<close>

definition implements :: "emu \<Rightarrow> arch \<Rightarrow> bool" where
  "implements s st \<longleftrightarrow> (\<exists>s'. stages s = Inr s' \<and> arch_of s' = st)"

text \<open>The instruction word that \<open>fetch\<close> finds at the program counter.\<close>

definition fetches :: "emu \<Rightarrow> u16 \<Rightarrow> bool" where
  "fetches s w \<longleftrightarrow> phys s False (pc s) < PhysMemSize \<and> physmem s (phys s False (pc s)) = w"

lemma fetches_fetch:
  assumes "wf s" "ex s = 0" "fetches s w"
  shows "fetch s = Inr (s\<lparr>ir := w, pc := pc s + 1\<rparr>)"
proof -
  have u: "unat (of_nat (phys s False (pc s)) :: u32) = phys s False (pc s)"
    using phys_bound [of s False "pc s"] by (simp add: unat_of_nat)
  show ?thesis
    using assms(2,3) translate_eq [OF assms(1), of False "pc s"]
    by (simp add: fetch_def fetches_def mem_get_def u)
qed

lemma arch_issued: "arch_of (issued s w) = (arch_of s)\<lparr>apc := pc s + 1\<rparr>"
  by (simp add: arch_of_def)

lemma rd_arch [simp]: "rd (arch_of s) r = rg s r"
  by (simp add: rd_def arch_of_def)

lemma data_map_arch:
  assumes "mmu_safe s"
  shows "data_map (arch_of s) v = (if byte_addr s v div 2 > PhysMemSize then None else Some (byte_addr s v))"
proof -
  have "byte_addr s v div 2 \<noteq> PhysMemSize" using mmu_safe_phys [OF assms, of True v] by (simp only: phys_byte not_False_eq_True)
  then have "byte_addr s v < 2 * PhysMemSize \<longleftrightarrow> \<not> byte_addr s v div 2 > PhysMemSize" by (simp add: PhysMemSize_def) arith
  moreover have "4096 * entry (arch_of s) True v + unat v mod 4096 = byte_addr s v"
    by (simp add: entry_def byte_addr_def mmu_entry_def spr_at_def arch_of_def)
  ultimately show ?thesis by (simp add: data_map_def Let_def)
qed

lemma implementsI:
  assumes "wf s" "ex s = 0" "fetches s w" "arch_of s' = st"
    and "bindE (execute (issued s w)) (\<lambda>s. bindE (memory s) writeback) = Inr s'"
  shows "implements s st"
  using stages_issue [OF assms(2) fetches_fetch [OF assms(1-3)]] assms(4,5) by (auto simp: implements_def)

lemma arch_of_latches [simp]:
  "arch_of (s\<lparr>alu := x\<rparr>) = arch_of s" "arch_of (s\<lparr>sd := x\<rparr>) = arch_of s" "arch_of (s\<lparr>wb := x\<rparr>) = arch_of s"
  "arch_of (s\<lparr>ex := e\<rparr>) = (arch_of s)\<lparr>pend := e\<rparr>" "arch_of (s\<lparr>hc := x\<rparr>) = (arch_of s)\<lparr>carry := x\<rparr>"
  "arch_of (s\<lparr>pc := x\<rparr>) = (arch_of s)\<lparr>apc := x\<rparr>" "arch_of (s\<lparr>reg := r\<rparr>) = (arch_of s)\<lparr>regs := r\<rparr>"
  "arch_of (s\<lparr>en := b\<rparr>) = (arch_of s)\<lparr>ien := b\<rparr>" "arch_of (s\<lparr>run := b\<rparr>) = (arch_of s)\<lparr>running := b\<rparr>"
  "arch_of (s\<lparr>physmem := m\<rparr>) = (arch_of s)\<lparr>bytes := pbyte m\<rparr>"
  "arch_of (s\<lparr>mode := u\<rparr>) = (arch_of s)\<lparr>amode := unat u\<rparr>" "arch_of (s\<lparr>cyc := n\<rparr>) = arch_of s"
  by (simp_all add: arch_of_def)

lemma arch_sel [simp]:
  "regs (arch_of s) = reg s" "amode (arch_of s) = unat (mode s)" "apc (arch_of s) = pc s" "carry (arch_of s) = hc s"
  "ien (arch_of s) = en s" "running (arch_of s) = run s" "bytes (arch_of s) = pbyte (physmem s)" "pend (arch_of s) = ex s"
  by (simp_all add: arch_of_def)

lemma implements_trap:
  assumes "wf s" "ex s = 0" "fetches s w" "execute (issued s w) = Inr ((issued s w)\<lparr>ex := e\<rparr>)" "e \<noteq> 0"
  shows "implements s (trap e (arch_of (issued s w)))"
  using assms(4,5) by (intro implementsI [OF assms(1-3)]) (auto simp: pending_skip trap_def)

lemma arch_wback: "arch_of (wback s a v) = wr a v (arch_of s)" "ex (wback s a v) = ex s"
  by (simp_all add: wback_def wr_def)

text \<open>The effect of one instruction, with the departures.\<close>

abbreviation (input) runs :: "emu \<Rightarrow> inst \<Rightarrow> bool" where
  "runs s i \<equiv> implements s (departs i (exec_inst (emul_inst i) (arch_of (issued s (encode i)))))"

lemma pend_wr [simp]: "pend (wr a v st) = pend st"
  by (simp add: wr_def)

lemma carry_wr: "(wr a v st)\<lparr>carry := c\<rparr> = wr a v (st\<lparr>carry := c\<rparr>)"
  by (simp add: wr_def)

lemma rri_class:
  assumes "opc = 0 \<or> opc = 1 \<or> opc = 2 \<or> opc = 3 \<or> opc = 4 \<or> opc = 5"
  shows "\<not> isYop (issued s (enc_rri opc a b k))" "\<not> isXop (issued s (enc_rri opc a b k))"
    "\<not> isZop (issued s (enc_rri opc a b k))"
  using assms by (auto simp: enc_rri_fields)

lemmas rri_simps = enc_rri_fields rri_class imm_rri cur_gen_r3 exec_rri

lemma wf_latch [simp]:
  "wf (s\<lparr>alu := x\<rparr>) = wf s" "wf (s\<lparr>sd := x\<rparr>) = wf s" "wf (s\<lparr>wb := x\<rparr>) = wf s" "wf (s\<lparr>hc := x\<rparr>) = wf s"
  "wf (s\<lparr>ex := e\<rparr>) = wf s" "wf (s\<lparr>physmem := m\<rparr>) = wf s" "wf (s\<lparr>pc := x\<rparr>) = wf s"
  "wf (s\<lparr>en := i\<rparr>) = wf s" "wf (s\<lparr>run := i\<rparr>) = wf s"
  by (simp_all add: wf_def)

lemma mmu_safe_latch [simp]:
  "mmu_safe (s\<lparr>alu := x\<rparr>) = mmu_safe s" "mmu_safe (s\<lparr>sd := x\<rparr>) = mmu_safe s"
  "mmu_safe (s\<lparr>wb := x\<rparr>) = mmu_safe s" "mmu_safe (issued s w) = mmu_safe s"
  by (simp_all add: mmu_safe_def)

lemma byte_addr_latch [simp]:
  "byte_addr (s\<lparr>alu := x\<rparr>) v = byte_addr s v" "byte_addr (s\<lparr>sd := x\<rparr>) v = byte_addr s v"
  "byte_addr (s\<lparr>wb := x\<rparr>) v = byte_addr s v" "byte_addr (issued s w) v = byte_addr s v"
  by (simp_all add: byte_addr_def mmu_entry_def)

lemma refine_adi:
  assumes "wf s" "ex s = 0" "fetches s (encode (Adi a b k))"
  shows "runs s (Adi a b k)"
  by (rule implementsI [OF assms])
     (simp_all add: rri_simps assms adi_def memory_pass writeback_reg [where a = a] arch_wback)

lemma refine_beq:
  assumes "wf s" "ex s = 0" "fetches s (encode (Beq a b k))"
  shows "runs s (Beq a b k)"
  by (rule implementsI [OF assms])
     (simp_all add: rri_simps assms beq_def memory_pass writeback_none)

lemma refine_lui:
  assumes "wf s" "ex s = 0" "fetches s (encode (Lui a k))"
  shows "runs s (Lui a k)"
  using exec_lui [OF assms(2), of a k]
  by (intro implementsI [OF assms])
     (simp_all add: assms memory_pass writeback_reg [where a = a] arch_wback enc_lui_fields)


lemma memory_ldst:
  "ex s = 0 \<Longrightarrow> op s < 4 \<Longrightarrow> memory s = ldst (s\<lparr>wb := alu s\<rparr>)"
  by (simp add: memory_def Let_def)

lemmas data_simps = rri_simps memory_ldst ldst_eq pending_skip data_map_arch Let_def arch_wback trap_def word_at_def

lemma refine_ldb:
  assumes "wf s" "ex s = 0" "fetches s (encode (Ldb a b k))" "mmu_safe s"
  shows "runs s (Ldb a b k)"
proof (cases "PhysMemSize < byte_addr s (rg s b + scast k) div 2")
  case True
  then show ?thesis
    by (intro implementsI [OF assms(1-3)]) (simp_all add: data_simps assms ldb_def)
next
  case False
  then show ?thesis
    by (intro implementsI [OF assms(1-3)]) (simp_all add: data_simps assms ldb_def writeback_reg [where a = a])
qed

lemma enc_rri_0: "enc_rri 0 a b k = 0 \<longleftrightarrow> a = 0 \<and> b = 0 \<and> k = 0"
proof
  assume "enc_rri 0 a b k = 0"
  then have "encode (Ldw a b k) = encode (Ldw 0 0 0)" by (simp add: enc_rri_def cat_def)
  then have "inst_of (encode (Ldw a b k)) = inst_of (encode (Ldw 0 0 0))" by simp
  then show "a = 0 \<and> b = 0 \<and> k = 0" by (simp only: inst_of_encode inst.inject)
qed (simp add: enc_rri_def cat_def)

text \<open>A word access faults, is misaligned, or reaches two bytes.\<close>

lemma word_access_cases [case_names fault odd word]:
  assumes "PhysMemSize < byte_addr s v div 2 \<Longrightarrow> P"
    and "\<not> PhysMemSize < byte_addr s v div 2 \<Longrightarrow> odd (unat v) \<Longrightarrow> P"
    and "\<not> PhysMemSize < byte_addr s v div 2 \<Longrightarrow> even (unat v) \<Longrightarrow> even (byte_addr s v) \<Longrightarrow> P"
  shows P
  using assms odd_byte_addr by blast

lemma refine_ldw:
  assumes "wf s" "ex s = 0" "fetches s (encode (Ldw a b k))" "mmu_safe s"
  shows "runs s (Ldw a b k)"
proof (cases "a = 0 \<and> b = 0 \<and> k = 0")
  case True
  then show ?thesis
    using implements_trap [OF assms(1-3), of ExIllegal] by (simp add: exec_rri assms ldw_def enc_rri_0 trap_def)
next
  case False
  then have i: "enc_rri 0 a b k \<noteq> 0" by (simp add: enc_rri_0)
  note d = data_simps assms ldw_def i if_not_P [OF False]
  show ?thesis
  proof (cases s "rg s b + scast k" rule: word_access_cases)
    case fault
    then show ?thesis by (intro implementsI [OF assms(1-3)]) (simp_all add: d)
  next
    case odd
    then show ?thesis by (intro implementsI [OF assms(1-3)]) (simp_all add: d)
  next
    case word
    then show ?thesis
      using word_of_bytes [OF word(3), of "physmem s"]
      by (intro implementsI [OF assms(1-3)]) (simp_all add: d writeback_reg [where a = a])
  qed
qed

lemma refine_stw:
  assumes "wf s" "ex s = 0" "fetches s (encode (Stw a b k))" "mmu_safe s"
  shows "runs s (Stw a b k)"
proof (cases s "rg s b + scast k" rule: word_access_cases)
  case fault
  then show ?thesis by (intro implementsI [OF assms(1-3)]) (simp_all add: data_simps assms stw_def)
next
  case odd
  then show ?thesis by (intro implementsI [OF assms(1-3)]) (simp_all add: data_simps assms stw_def)
next
  case word
  then show ?thesis
    using pbyte_stw [OF word(3), of "physmem s" "rg s a"]
    by (intro implementsI [OF assms(1-3)]) (simp_all add: data_simps assms stw_def writeback_none)
qed

lemma refine_stb:
  assumes "wf s" "ex s = 0" "fetches s (encode (Stb a b k))" "mmu_safe s"
  shows "runs s (Stb a b k)"
proof (cases "PhysMemSize < byte_addr s (rg s b + scast k) div 2")
  case True
  then show ?thesis
    by (intro implementsI [OF assms(1-3)]) (simp_all add: data_simps assms stb_def)
next
  case p: False
  define p where "p = byte_addr s (rg s b + scast k)"
  note m = pbyte_stb [of "physmem s" p "rg s a"]
  show ?thesis
  proof (cases "odd p")
    case True
    with m p p_def show ?thesis
      by (intro implementsI [OF assms(1-3)]) (simp_all add: data_simps assms stb_def writeback_none)
  next
    case False
    with m p p_def show ?thesis
      by (intro implementsI [OF assms(1-3)]) (simp_all add: data_simps assms stb_def writeback_none)
  qed
qed

section \<open>The ALU against arithmetic\<close>

lemma bit_80: "(x :: u16) AND 0x80 \<noteq> 0 \<longleftrightarrow> bit x 7"
  by (simp add: bit_iff_and_push_bit_not_eq_0)

lemma bit_8000: "(x :: u16) AND 0x8000 \<noteq> 0 \<longleftrightarrow> bit x 15"
  by (simp add: bit_iff_and_push_bit_not_eq_0)

lemma bit_FF00: "bit (0xFF00 :: u16) n \<longleftrightarrow> n < 16 \<and> 8 \<le> n"
proof -
  have "(0xFF00 :: u16) = NOT (mask 8)" by (simp add: mask_eq_exp_minus_1)
  then show ?thesis by (simp only: bit_not_iff bit_mask_iff) auto
qed

lemma sxt_eq: "(if x AND 0x80 \<noteq> 0 then x OR 0xFF00 else x AND NOT 0xFF00) = (scast (ucast (x :: u16) :: u8) :: u16)"
proof (rule bit_word_eqI)
  fix n
  have s: "bit (scast (ucast x :: u8) :: u16) n \<longleftrightarrow> n < 16 \<and> bit x (min n 7)"
    by (auto simp: bit_signed_iff bit_ucast_iff min_def)
  have l: "bit (if bit x 7 then x OR 0xFF00 else x AND NOT 0xFF00) n \<longleftrightarrow>
      (if bit x 7 then bit x n \<or> n < 16 \<and> 8 \<le> n else bit x n \<and> \<not> (n < 16 \<and> 8 \<le> n))"
    by (simp only: if_distrib [of "\<lambda>w. bit w n"] bit_or_iff bit_and_iff bit_not_iff bit_FF00)
       (auto dest: bit_imp_le_length)
  have "n < 7 \<or> n = 7 \<or> 8 \<le> n" by arith
  moreover have "bit x n \<Longrightarrow> n < 16" using bit_imp_le_length [of x n] by simp
  ultimately show "bit (if x AND 0x80 \<noteq> 0 then x OR 0xFF00 else x AND NOT 0xFF00) n
      \<longleftrightarrow> bit (scast (ucast x :: u8) :: u16) n"
    unfolding bit_80 l s by auto
qed

lemma unat_drop8: "unat (drop_bit 8 (x :: u16)) = unat x div 256"
  by (simp only: unat_drop_bit_eq) (simp add: drop_bit_eq_div)

lemma swb_eq: "drop_bit 8 x OR push_bit 8 x = (of_nat (256 * (unat x mod 256) + unat x div 256) :: u16)"
proof -
  have "push_bit 8 x OR drop_bit 8 x = push_bit 8 x + drop_bit 8 x"
    by (rule disjunctive_add [symmetric])
       (auto simp: bit_push_bit_iff bit_drop_bit_eq dest: bit_imp_le_length)
  moreover have "push_bit 8 x = of_nat (256 * (unat x mod 256))"
  proof -
    have "unat (push_bit 8 x) = 256 * unat x mod 65536"
      by (simp add: push_bit_eq_mult unat_word_ariths mult.commute)
    also have "\<dots> = 256 * (unat x mod 256)" using mult_mod_right [of 256 "unat x" 256] by simp
    finally show ?thesis by (rule eq_of_nat_if_unat)
  qed
  moreover have "drop_bit 8 x = of_nat (unat x div 256)"
    by (rule eq_of_nat_if_unat) (rule unat_drop8)
  ultimately show ?thesis by (simp only: or.commute of_nat_add)
qed

lemma lsr_eq: "drop_bit 1 x = (of_nat (unat x div 2) :: u16)" "x AND 1 = (of_nat (unat x mod 2) :: u16)"
proof -
  have "unat (drop_bit 1 x) = unat x div 2"
    by (simp only: unat_drop_bit_eq) (simp add: drop_bit_eq_div)
  then show "drop_bit 1 x = of_nat (unat x div 2)" by (rule eq_of_nat_if_unat)
  show "x AND 1 = of_nat (unat x mod 2)" by (rule eq_of_nat_if_unat) (rule unat_and_1)
qed

lemma lsl_eq: "(if (x :: u16) AND 0x8000 = 0 then 0 else 1) = (of_nat (unat x div 32768) :: u16)"
proof -
  have b: "bit x 15 \<longleftrightarrow> odd (unat x div 32768)"
  proof -
    have "bit x 15 \<longleftrightarrow> bit (unat x) 15" by (simp add: bit_unsigned_iff)
    then show ?thesis by (simp add: bit_iff_odd)
  qed
  have "unat x div 32768 < 2" using unat_lt_u16 [of x] by (intro less_mult_imp_div_less) simp
  then have "unat x div 32768 = 0 \<or> unat x div 32768 = 1" by arith
  then show ?thesis using b bit_8000 [of x] by auto
qed

lemma asr_eq: "drop_bit 1 x OR (x AND 0x8000) = (word_of_int (sint x div 2) :: u16)"
proof -
  have b: "bit (x AND 0x8000) n \<longleftrightarrow> n = 15 \<and> bit x 15" for n
  proof -
    have "(0x8000 :: u16) = push_bit 15 1" by simp
    then show ?thesis by (simp only: bit_and_iff bit_push_bit_iff bit_1_iff) auto
  qed
  have "drop_bit 1 x OR (x AND 0x8000) = signed_drop_bit 1 x"
    by (rule bit_word_eqI)
       (simp only: bit_or_iff b bit_drop_bit_eq comp_def bit_signed_drop_bit_iff, auto simp: less_Suc_eq dest: bit_imp_le_length)
  also have "\<dots> = word_of_int (sint (signed_drop_bit 1 x))" by simp
  also have "\<dots> = word_of_int (sint x div 2)"
    by (simp only: sint_signed_drop_bit_eq) (simp add: drop_bit_eq_div)
  finally show ?thesis .
qed

section \<open>ALU, special and control instructions\<close>

lemma alu1_eq:
  assumes "wf t" "ra t = ucast (a :: r3)" "zop t = ucast (op1_code z)"
  shows "alu1 t = Inr (t\<lparr>alu := fst (op1_val (emul_op1 z) (rg t a)), hc := snd (op1_val (emul_op1 z) (rg t a))\<rparr>)"
proof -
  have g: "cur_gen t (ra t) = Inr (rg t a)" using assms by (simp add: cur_gen_r3)
  show ?thesis
    using assms(3) unfolding alu1_def g bindE_simps sxt_eq swb_eq lsl_eq asr_eq unfolding lsr_eq
    by (cases z) (simp_all add: not_eq_complement push_bit_eq_mult)
qed

lemma alu3_carry: "ucast (drop_bit 16 ((ucast (v :: u16) :: u32) AND 0x10000)) = (0 :: u16)"
proof -
  have "(ucast v :: u32) AND 0x10000 = 0"
  proof (rule bit_word_eqI)
    fix n
    have "(0x10000 :: u32) = push_bit 16 1" by simp
    then show "bit ((ucast v :: u32) AND 0x10000) n = bit (0 :: u32) n"
      by (simp only: bit_and_iff bit_push_bit_iff bit_ucast_iff bit_1_iff bit_0_eq)
         (auto dest: bit_imp_le_length)
  qed
  then show ?thesis by simp
qed

lemma alu3_value: "ucast ((ucast (v :: u16) :: u32) AND 0xFFFF) = v"
proof (rule bit_word_eqI)
  fix n
  have "(0xFFFF :: u32) = mask 16" by (simp add: mask_eq_exp_minus_1)
  then show "bit (ucast ((ucast v :: u32) AND 0xFFFF) :: u16) n = bit v n"
    by (simp only: bit_and_iff bit_mask_iff bit_ucast_iff) (auto dest: bit_imp_le_length)
qed

lemma alu3_eq:
  assumes "wf t" "rb t = ucast (b :: r3)" "rc t = ucast (c :: r3)" "xop t = ucast (op3_code x)"
  shows "alu3 t = Inr (t\<lparr>alu := op3_val x (rg t c) (rg t b) (hc t), hc := 0\<rparr>)"
proof -
  have g: "cur_gen t (rb t) = Inr (rg t b)" "cur_gen t (rc t) = Inr (rg t c)" using assms by (simp_all add: cur_gen_r3)
  have e: "alu3_set t v = Inr (t\<lparr>alu := v, hc := 0\<rparr>)" "alu3_logic t v = Inr (t\<lparr>alu := v, hc := 0\<rparr>)" for v
    unfolding alu3_set_def alu3_logic_def Let_def alu3_carry alu3_value by simp_all
  show ?thesis
    using assms(4) unfolding alu3_def g bindE_simps e by (cases x) simp_all
qed

lemma f_class:
  "isXop (issued s (enc_f x c b a)) \<longleftrightarrow> x \<noteq> 7"
  "isYop (issued s (enc_f x c b a)) \<longleftrightarrow> x = 7 \<and> c \<noteq> 7"
  "isZop (issued s (enc_f x c b a)) \<longleftrightarrow> x = 7 \<and> c = 7 \<and> b \<noteq> 7"
  by (auto simp: enc_f_fields r3_eq)

lemma refine_xop:
  assumes "wf s" "ex s = 0" "fetches s (encode (Xop x a b c))"
  shows "runs s (Xop x a b c)"
  by (rule implementsI [OF assms])
     (simp_all add: carry_wr exec_f [simplified] assms alu3_eq [where b = b and c = c and x = x] enc_f_fields codes_ne7 r3_eq
        memory_pass writeback_reg [where a = a] arch_wback rd_def)

lemma refine_zop:
  assumes "wf s" "ex s = 0" "fetches s (encode (Zop z a))"
  shows "runs s (Zop z a)"
  by (rule implementsI [OF assms])
     (simp_all add: exec_f [simplified] assms alu1_eq [where a = a and z = z] enc_f_fields codes_ne7 r3_eq
        memory_pass writeback_reg [where a = a] arch_wback rd_def)

lemma jlr_imm_cases:
  fixes k :: "6 word"
  shows "(ucast k :: u16) AND 1 = 1 \<or> (ucast k :: u16) < 32 \<or> (ucast k :: u16) > 62 \<longleftrightarrow> odd (unat k) \<or> unat k < 32"
proof -
  have u: "unat (ucast k :: u16) = unat k" by (rule unat_ucast_le) simp
  have "unat k < 2 ^ LENGTH(6)" by (rule unsigned_less)
  then have "unat k \<le> 62 \<or> odd (unat k)" by simp presburger
  then show ?thesis unfolding odd_and_1(2) u word_less_nat_alt by (auto simp: u)
qed

lemma jlr_class:
  "\<not> isYop (issued s (encode (Jlr a b k)))" "\<not> isXop (issued s (encode (Jlr a b k)))"
  "\<not> isZop (issued s (encode (Jlr a b k)))" "bits (encode (Jlr a b k)) 15 12 = 0xE"
  by (simp_all add: enc_jlr_fields field_simps16)

lemma exec_jlr_eq:
  fixes a b :: r3 and k :: "6 word" and s :: emu
  assumes "wf s" "ex s = 0"
  defines "t \<equiv> issued s (encode (Jlr a b k))"
  shows "execute t =
     (if a = 0 then (if b \<noteq> 0 \<or> odd (unat k) \<or> unat k < 32 then Inr (t\<lparr>ex := ExIllegal\<rparr>) else Inr (t\<lparr>ex := ucast k\<rparr>))
      else if a = 1 then Inr (t\<lparr>reg := put_spr (reg s) (unat (mode s)) Link (pc s + 1), pc := rg s b + ucast k\<rparr>)
      else if a = 2 then Inr (t\<lparr>pc := rg s b + ucast k\<rparr>)
      else Inr (t\<lparr>ex := ExIllegal\<rparr>))"
proof -
  have f: "ra t = ucast a" "rb t = ucast b" "imm t = ucast k" "bits (ir t) 15 12 = 0xE"
    "reg t = reg s" "mode t = mode s" "pc t = pc s + 1"
    unfolding t_def by (simp_all add: enc_jlr_fields imm_jlr field_simps16)
  have w: "wf_regs (reg s)" "unat (mode s) < 2" "wf t" using assms by (simp_all add: wf_def)
  let ?r = "put_spr (reg s) (unat (mode s)) Link (pc s + 1)"
  have "cur_gen (t\<lparr>reg := ?r\<rparr>) (ucast b) = Inr (rg s b)"
    using w f by (subst cur_gen_r3) (simp_all add: wf_def gen_put_spr)
  moreover have "spr_set t (unat (mode s)) Link (pc s + 1) = Inr (t\<lparr>reg := ?r\<rparr>)"
    using w f by (simp add: spr_set_ok)
  moreover have "cur_gen t (ucast b) = Inr (rg s b)" using w f by (simp add: cur_gen_r3)
  moreover have "execute t = jlr t" unfolding t_def by (rule exec_jlr [OF assms(2)])
  moreover have j: "b \<noteq> 0 \<or> ucast k AND 1 = (1 :: u16) \<or> ucast k < (32 :: u16) \<or> 62 < (ucast k :: u16)
      \<longleftrightarrow> b \<noteq> 0 \<or> odd (unat k) \<or> unat k < 32" using jlr_imm_cases [of k] by auto
  ultimately show ?thesis
    unfolding jlr_def f r3_eq j by (simp add: f)
qed

lemma refine_jlr:
  assumes "wf s" "ex s = 0" "fetches s (encode (Jlr a b k))"
  shows "runs s (Jlr a b k)"
proof -
  define t where "t = issued s (encode (Jlr a b k))"
  note e = exec_jlr_eq [OF assms(1,2), of a b k, folded t_def]
  have f: "op t = 7" "\<not> isYop t" "\<not> isXop t" "\<not> isZop t" "ex t = 0" "reg t = reg s" "mode t = mode s" "pc t = pc s + 1"
    unfolding t_def by (simp_all add: enc_jlr_fields assms)
  have w: "wf t" "wf_regs (reg s)" "unat (mode s) < 2" using assms(1) by (simp_all add: wf_def t_def)
  have k: "\<not> unat k < 32 \<Longrightarrow> (ucast k :: u16) \<noteq> 0"
    using unat_ucast_le [of k, where 'b = 16] by (auto simp: word_unat_eq_iff)
  note imp = implementsI [OF assms, folded t_def] and trap = implements_trap [OF assms, folded t_def]
  consider "a = 0" | "a = 1" | "a = 2" | "a \<noteq> 0 \<and> a \<noteq> 1 \<and> a \<noteq> 2" by blast
  then show ?thesis unfolding t_def [symmetric]
  proof cases
    case 1 with e k show "implements s (departs (Jlr a b k) (exec_inst (emul_inst (Jlr a b k)) (arch_of t)))"
      by (auto intro!: trap)
  next
    case 2
    let ?u = "t\<lparr>reg := put_spr (reg s) (unat (mode s)) Link (pc s + 1), pc := rg s b + ucast k\<rparr>"
    have u: "execute t = Inr ?u" unfolding e by (simp add: 2)
    have "wf ?u" using w f by (simp add: wf_def)
    then show "implements s (departs (Jlr a b k) (exec_inst (emul_inst (Jlr a b k)) (arch_of t)))"
      by (intro imp) (simp_all add: 2 u f memory_pass writeback_none)
  next
    case 3
    have u: "execute t = Inr (t\<lparr>pc := rg s b + ucast k\<rparr>)" unfolding e by (simp add: 3)
    show "implements s (departs (Jlr a b k) (exec_inst (emul_inst (Jlr a b k)) (arch_of t)))"
      by (intro imp) (simp_all add: 3 u f w memory_pass writeback_none)
  next
    case 4 with e show "implements s (departs (Jlr a b k) (exec_inst (emul_inst (Jlr a b k)) (arch_of t)))" by (auto intro!: trap)
  qed
qed

lemma refine_yop:
  assumes "wf s" "ex s = 0" "fetches s (encode (Yop y a b))" "y \<noteq> Lsp" "y \<noteq> Ssp"
  shows "runs s (Yop y a b)"
proof -
  define t where "t = issued s (encode (Yop y a b))"
  have f: "op t = 7" "isYop t" "\<not> isXop t" "\<not> isZop t" "ex t = 0" "reg t = reg s" "mode t = mode s" "wf t"
    "ra t = ucast a" "rb t = ucast b" "yop t = ucast (yopc_code y)" "ucast (yopc_code y) < (8 :: u16)"
    unfolding t_def by (cases y; simp add: enc_f_fields assms r3_eq codes_ne7)+
  have c: "unat (ucast (yopc_code y) :: u16) < 8" by (simp add: r3_unat r3_lt)
  have e: "execute t = call yops (ucast (yopc_code y)) t" unfolding t_def by (rule exec_f(2) [OF assms(2)])
  note e = e [unfolded call_yop [OF c]]
  note imp = implementsI [OF assms(1-3), folded t_def] and trap = implements_trap [OF assms(1-3), folded t_def]
  have m: "memory u = Inr (u\<lparr>wb := 0\<rparr>)" if "ex u = 0" "op u = 7" "isYop u" "yop u = 1" for u
    using that by (simp add: memory_def loadIO_def)
  have m': "memory u = Inr (u\<lparr>wb := alu u\<rparr>)" if "ex u = 0" "op u = 7" "isYop u" "yop u = 3" for u
    using that by (simp add: memory_def storeIO_def)
  show ?thesis unfolding t_def [symmetric]
  proof (cases y)
    case Lio
    then show "implements s (departs (Yop y a b) (exec_inst (emul_inst (Yop y a b)) (arch_of t)))"
      using f by (intro imp) (simp_all add: e lio_def cur_gen_r3 m writeback_reg [where a = a] arch_wback)
  next
    case Sio
    then show "implements s (departs (Yop y a b) (exec_inst (emul_inst (Yop y a b)) (arch_of t)))"
      using f by (intro imp) (simp_all add: e sio_def cur_gen_r3 m' writeback_none)
  qed (use assms(4,5) in \<open>auto intro!: trap simp: e y04_def y05_def y06_def\<close>)
qed

lemma refine_vop:
  assumes "wf s" "ex s = 0" "fetches s (encode (Vop v))" "v \<noteq> Brk"
    and imr: "v = Rti \<Longrightarrow> unat (spr (reg s ! Kern) ! Imr) mod 256 < 2"
  shows "runs s (Vop v)"
proof -
  define t where "t = issued s (encode (Vop v))"
  have f: "op t = 7" "\<not> isYop t" "\<not> isXop t" "\<not> isZop t" "ex t = 0" "reg t = reg s" "mode t = mode s" "wf t"
    unfolding t_def by (simp_all add: enc_f_fields assms)
  have c: "unat (ucast (vopc_code v) :: u16) < 8" by (simp add: r3_unat r3_lt)
  have e: "execute t = call vops (ucast (vopc_code v)) t" unfolding t_def by (rule exec_f(4) [OF assms(2)])
  note e = e [unfolded call_vop [OF c]]
  have w: "wf_regs (reg s)" "unat (mode s) < 2" using assms(1) by (simp_all add: wf_def)
  note imp = implementsI [OF assms(1-3), folded t_def] and trap = implements_trap [OF assms(1-3), folded t_def]
  note d = e f privileged_def memory_pass writeback_none
  show ?thesis unfolding t_def [symmetric]
  proof (cases "mode s = 1")
    case True
    then have u: "unat (mode s) = User" by simp
    from True show "implements s (departs (Vop v) (exec_inst (emul_inst (Vop v)) (arch_of t)))"
      using assms(4) w
      by (cases v) (auto intro!: trap simp: d u rti_def di_def ei_def hlt_def v06_def die_def,
          auto intro!: imp simp: d u rti_def rtl_def di_def ei_def hlt_def v06_def die_def spr_get_ok spr_at_def)
  next
    case False
    then have u: "unat (mode s) \<noteq> Suc 0" by (simp add: word_unat_eq_iff)
    let ?m = "spr (reg s ! Kern) ! Imr" and ?r = "put_spr (reg s) Kern Irr 0"
    have m: "unat (ucast ?m :: u8) = unat ?m mod 256" by (rule unat_u8)
    have i: "spr (?r ! Kern) ! Imr = ?m" using w by (simp add: put_spr_nth)
    have "wf (t\<lparr>ex := 0, en := True, pc := x, reg := ?r, mode := ucast ?m, wb := y\<rparr>)" if "v = Rti" for x y
      using w imr [OF that] by (simp add: wf_def m)
    with False show "implements s (departs (Vop v) (exec_inst (emul_inst (Vop v)) (arch_of t)))"
      using assms(4) w i
      by (cases v) (auto intro!: trap simp: d u v06_def die_def,
        auto intro!: imp simp: d u rti_def rtl_def di_def ei_def hlt_def
           Let_def spr_get_ok spr_set_ok spr_at_def m)
  qed
qed

section \<open>The refinement\<close>

lemma refine_all:
  assumes "wf s" "ex s = 0" "mmu_safe s" "fetches s (encode i)" "plain i"
    and "i = Vop Rti \<Longrightarrow> unat (spr (reg s ! Kern) ! Imr) mod 256 < 2"
  shows "runs s i"
proof (cases i)
  case (Yop y a b)
  with assms show ?thesis by (simp add: plain_def refine_yop del: encode.simps exec_inst.simps emul_inst.simps departs.simps)
next
  case (Vop v)
  with assms show ?thesis
    by (intro refine_vop [of s v, folded Vop]) (simp_all add: plain_def del: encode.simps exec_inst.simps emul_inst.simps departs.simps)
qed (use assms in \<open>simp_all only: refine_ldw refine_ldb refine_stw refine_stb refine_beq refine_adi refine_lui refine_jlr refine_xop refine_zop\<close>)

text \<open>The fetch of the abstract machine is that of the emulator.\<close>

lemma covered_safe: "covered (arch_of s) \<Longrightarrow> mmu_safe s"
  by (auto simp: covered_def mmu_safe_def spr_at_def)

lemma code_map_arch:
  "code_map (arch_of s) v = (if phys s False v < PhysMemSize then Some (2 * phys s False v) else None)"
  by (simp add: code_map_def Let_def entry_def phys_def mmu_entry_def spr_at_def)

lemma word_at_arch: "word_at (arch_of s) (2 * a) = physmem s a"
  using word_of_bytes [of "2 * a" "physmem s"] by (simp add: word_at_def)

lemma next_inst_arch:
  "next_inst (arch_of s) = (if phys s False (pc s) < PhysMemSize then Some (inst_of (physmem s (phys s False (pc s)))) else None)"
  by (simp add: next_inst_def code_map_arch word_at_arch)

lemma fetch_fault:
  assumes "wf s" "ex s = 0" "phys s False (pc s) > PhysMemSize"
  shows "stages s = Inr (s\<lparr>ex := ExMemory\<rparr>)"
  using assms(2,3) translate_eq [OF assms(1), of False "pc s"]
  by (simp add: stages_def fetch_def decode_def pending_skip)

lemma refine_free:
  assumes "wf s" "ex s = 0" "covered (arch_of s)"
  shows "implements s (emul_step (arch_of s))"
proof -
  have m: "mmu_safe s" by (rule covered_safe [OF assms(3)])
  have t: "take_trap (arch_of s) = arch_of s" using assms(2) by (simp add: take_trap_def)
  show ?thesis
  proof (cases "phys s False (pc s) < PhysMemSize")
    case True
    define i where "i = inst_of (physmem s (phys s False (pc s)))"
    have n: "next_inst (arch_of s) = Some i" using True by (simp add: next_inst_arch i_def)
    have "fetches s (encode i)" using True by (simp add: fetches_def i_def encode_inst_of)
    then have "runs s i" using assms(1,2) m n assms(3) by (intro refine_all) (auto simp: covered_def spr_at_def)
    then show ?thesis using n t by (simp add: emul_step_def arch_issued)
  next
    case False
    then have "phys s False (pc s) > PhysMemSize" using mmu_safe_phys [OF m, of False "pc s"] by simp
    then show ?thesis
      using fetch_fault [OF assms(1,2)] False t by (simp add: implements_def emul_step_def next_inst_arch trap_def)
  qed
qed

lemma refine_step:
  assumes "wf s" "ex s = 0 \<or> en s" "covered (take_trap (arch_of s))"
  shows "implements s (emul_step (arch_of s))"
proof (cases "ex s = 0")
  case True
  then show ?thesis using assms refine_free [of s] by (simp add: take_trap_def)
next
  case False
  let ?t = "s\<lparr>reg := trap_regs s, mode := 0, pc := ex s, en := False, ex := 0\<rparr>"
  have w: "wf_regs (reg s)" using assms(1) by (simp add: wf_def)
  have t: "take_trap (arch_of s) = arch_of ?t" using False by (simp add: take_trap_def trap_regs_def)
  have "wf ?t" using wf_trap_regs [OF w] by (simp add: wf_def)
  then have "implements ?t (emul_step (arch_of ?t))" using assms(3) t by (intro refine_free) simp_all
  moreover have "emul_step (arch_of ?t) = emul_step (arch_of s)"
  proof -
    have "take_trap (arch_of ?t) = arch_of ?t" by (simp add: take_trap_def)
    then show ?thesis unfolding emul_step_def t by simp
  qed
  moreover have "stages s = stages ?t" using stages_trap [OF False] trap_entry_eq [OF w] False assms(2) by simp
  ultimately show ?thesis by (simp add: implements_def)
qed

text \<open>Where nothing departs, the step is that of the architecture.\<close>

lemma emul_step_arch:
  assumes "next_inst (take_trap st) = Some i" "\<forall>a. i \<noteq> Zop Sxt a \<and> i \<noteq> Zop Swb a" "\<forall>x a b c. i \<noteq> Xop x a b c"
    "pend (arch_step st) \<noteq> ExAlign"
  shows "emul_step st = arch_step st"
proof -
  have "z \<noteq> Sxt \<Longrightarrow> z \<noteq> Swb \<Longrightarrow> emul_op1 z = z" for z by (cases z) simp_all
  then have "emul_inst i = i" using assms(2) by (cases i) auto
  moreover have "departs i (arch_step st) = arch_step st" using assms(3,4) by (cases i) auto
  ultimately show ?thesis using assms(1) by (simp add: emul_step_def arch_step_def Let_def)
qed

end
