(* ===== verification/Simulate.thy ===== *)
theory Simulate
  imports Refine
begin

text \<open>
  Loading a binary (\<open>emul/util.go\<close>: \<open>load\<close>), the simulation loop and the program as a whole
  (\<open>emul/emul.go\<close>: \<open>simulate\<close>, \<open>main\<close>). The loop may run forever, so it is a partial function into
  \<open>option\<close>: \<open>None\<close> is a run that does not end. The step relation \<open>cycle\<close> is one turn of it
  and serves the proofs. The last section relates the loop to the steps of the architecture. A file
  is what the operating system reports as its size and the bytes the reads return before the end of
  the file or an error; \<open>timing\<close> stands for the wall-clock part of the last line of output. The
  signal handler and the CPU profile are not modelled.
\<close>

section \<open>Loading\<close>

datatype binfile = File (fsize: nat) (fdata: "u8 list")

definition pm_set :: "emu \<Rightarrow> nat \<Rightarrow> u16 \<Rightarrow> result" where
  "pm_set s off v = (if off < PhysMemSize then Inr (s\<lparr>physmem := (physmem s)(off := v)\<rparr>) else Inl IndexOutOfRange)"

definition pm_get :: "emu \<Rightarrow> nat \<Rightarrow> panic + u16" where
  "pm_get s off = (if off < PhysMemSize then Inr (physmem s off) else Inl IndexOutOfRange)"

fun load_loop :: "u8 list \<Rightarrow> nat \<Rightarrow> nat \<Rightarrow> emu \<Rightarrow> panic + (nat \<times> emu)" where
  "load_loop [] off nRead s = Inr (nRead, s)"
| "load_loop (b # bs) off nRead s =
     (if even nRead
      then bindE (pm_set s off (ucast b)) (load_loop bs off (nRead + 1))
      else bindE (pm_get s off) (\<lambda>w. bindE (pm_set s off (w OR push_bit 8 (ucast b)))
             (load_loop bs (off + 1) (nRead + 1))))"

definition load :: "emu \<Rightarrow> nat \<Rightarrow> string \<Rightarrow> string + binfile \<Rightarrow> panic + (string option \<times> emu)" where
  "load s m binPath f =
     (case f of
        Inl err \<Rightarrow> Inr (Some err, s)
      | Inr fl \<Rightarrow>
          let maxSizeBytes = 3 * 64 * K
          in if fsize fl > maxSizeBytes then Inr (Some (''not a binary: '' @ binPath), s)
             else bindE (load_loop (fdata fl) (if m = User then maxSizeBytes div 2 else 0) 0 s) (\<lambda>(nRead, s1).
                    if nRead \<noteq> fsize fl then Inr (Some ''load didn't read the entire file'', s1)
                    else Inr (None, s1)))"

section \<open>The simulation loop\<close>

partial_function (option) sim_loop :: "emu \<Rightarrow> result option" where
  "sim_loop s =
     (if \<not> run s then Some (Inr s)
      else case stages s of
        Inl p \<Rightarrow> Some (Inl p)
      | Inr s1 \<Rightarrow>
          if ex s1 \<noteq> 0 \<and> \<not> en s1 then Some (Inr s1)
          else if dbEnabled s1 then
            (case dump s1 of
               Inl p \<Rightarrow> Some (Inl p)
             | Inr s2 \<Rightarrow> Option.bind (prompt s2) (\<lambda>(b, s3). sim_loop (s3\<lparr>run := b, cyc := cyc s3 + 1\<rparr>)))
          else sim_loop (s1\<lparr>cyc := cyc s1 + 1\<rparr>))"

definition halt_msg :: "emu \<Rightarrow> string" where
  "halt_msg s = ''halt'' @ (if ex s \<noteq> 0 \<and> \<not> en s then '': double fault: exception '' @ fmt_d (unat (ex s)) else [])"

definition sim_report :: "(u64 \<Rightarrow> string) \<Rightarrow> emu \<Rightarrow> result" where
  "sim_report timing s =
     (if qflag s then Inr s
      else bindE (dump s) (\<lambda>s1.
        Inr (s1\<lparr>stdout := stdout s1 @ halt_msg s1 @ newline @ fmt_d (unat (cyc s1)) @ '' cycles executed''
               @ (if \<not> blockedForInput s1 then timing (cyc s1) else []) @ newline\<rparr>)))"

definition bind_run :: "result option \<Rightarrow> (emu \<Rightarrow> result option) \<Rightarrow> result option" where
  "bind_run m f = Option.bind m (\<lambda>r. case r of Inl p \<Rightarrow> Some (Inl p) | Inr s \<Rightarrow> f s)"

definition debug_start :: "emu \<Rightarrow> result option" where
  "debug_start s =
     (if dbEnabled s then
        bind_run (Some (dump s)) (\<lambda>s1. Option.bind (prompt s1) (\<lambda>(b, s2). Some (Inr (s2\<lparr>run := b\<rparr>))))
      else Some (Inr s))"

definition simulate :: "(u64 \<Rightarrow> string) \<Rightarrow> emu \<Rightarrow> result option" where
  "simulate timing s =
     (if ex s \<noteq> 0 then Some (Inl (Fatal ''internal error: simulation started with an exception pending''))
      else bind_run (debug_start s) (\<lambda>s1.
           bind_run (sim_loop (s1\<lparr>cyc := cyc s1 + 1\<rparr>)) (\<lambda>s2. Some (sim_report timing s2))))"

definition load_or_die :: "nat \<Rightarrow> string \<Rightarrow> string + binfile \<Rightarrow> emu \<Rightarrow> result" where
  "load_or_die m path f s =
     bindE (load s m path f) (\<lambda>(err, s1).
       case err of Some e \<Rightarrow> Inl (Fatal (''loading '' @ path @ '': '' @ e)) | None \<Rightarrow> Inr s1)"

text \<open>\<open>main\<close> after flag parsing: the kernel binary is mandatory, the user binary optional.\<close>

definition emul_main :: "(u64 \<Rightarrow> string) \<Rightarrow> bool \<Rightarrow> emu \<Rightarrow> string \<Rightarrow> string + binfile \<Rightarrow> string \<Rightarrow> string + binfile \<Rightarrow> result option" where
  "emul_main timing pflag s kpath kfile uflag ufile =
     (if pflag \<and> dbEnabled s then Some (Inl (Fatal ''cannot profile and debug at the same time''))
      else bind_run (Some (load_or_die Kern kpath kfile s)) (\<lambda>s1.
           bind_run (Some (if uflag \<noteq> [] then load_or_die User uflag ufile s1 else Inr s1)) (\<lambda>s2.
           bind_run (Some (reset s2)) (simulate timing))))"

section \<open>One turn of the loop\<close>

inductive cycle :: "emu \<Rightarrow> emu \<Rightarrow> bool" where
  free: "run s \<Longrightarrow> stages s = Inr s1 \<Longrightarrow> ex s1 = 0 \<or> en s1 \<Longrightarrow> \<not> dbEnabled s1 \<Longrightarrow> cycle s (s1\<lparr>cyc := cyc s1 + 1\<rparr>)"
| stepped: "run s \<Longrightarrow> stages s = Inr s1 \<Longrightarrow> ex s1 = 0 \<or> en s1 \<Longrightarrow> dbEnabled s1 \<Longrightarrow> dump s1 = Inr s2 \<Longrightarrow>
    prompt s2 = Some (b, s3) \<Longrightarrow> cycle s (s3\<lparr>run := b, cyc := cyc s3 + 1\<rparr>)"

text \<open>How the loop ends.\<close>

inductive ends :: "emu \<Rightarrow> result \<Rightarrow> bool" where
  halted: "\<not> run s \<Longrightarrow> ends s (Inr s)"
| crashed: "run s \<Longrightarrow> stages s = Inl p \<Longrightarrow> ends s (Inl p)"
| double_fault: "run s \<Longrightarrow> stages s = Inr s1 \<Longrightarrow> ex s1 \<noteq> 0 \<Longrightarrow> \<not> en s1 \<Longrightarrow> ends s (Inr s1)"
| dump_crashed: "run s \<Longrightarrow> stages s = Inr s1 \<Longrightarrow> ex s1 = 0 \<or> en s1 \<Longrightarrow> dbEnabled s1 \<Longrightarrow> dump s1 = Inl p \<Longrightarrow> ends s (Inl p)"

inductive_cases cycleE: "cycle s t"
inductive_cases endsE: "ends s r"

lemma sim_loop_end: "ends s r \<Longrightarrow> sim_loop s = Some r"
  by (erule endsE) (auto simp: sim_loop.simps)

lemma sim_loop_cycle: "cycle s t \<Longrightarrow> sim_loop s = sim_loop t"
  by (erule cycleE) (subst sim_loop.simps, auto)+

lemma sim_loop_star: "cycle\<^sup>*\<^sup>* s t \<Longrightarrow> sim_loop s = sim_loop t"
  by (induction rule: rtranclp_induct) (auto dest: sim_loop_cycle)

lemma sim_loop_result: "sim_loop s = Some r \<Longrightarrow> \<exists>t. cycle\<^sup>*\<^sup>* s t \<and> ends t r"
proof (erule sim_loop.raw_induct [rotated])
  fix f :: "emu \<Rightarrow> result option" and s r
  assume ih: "\<And>s r. f s = Some r \<Longrightarrow> \<exists>t. cycle\<^sup>*\<^sup>* s t \<and> ends t r"
  assume b: "(if \<not> run s then Some (Inr s)
      else case stages s of
        Inl p \<Rightarrow> Some (Inl p)
      | Inr s1 \<Rightarrow>
          if ex s1 \<noteq> 0 \<and> \<not> en s1 then Some (Inr s1)
          else if dbEnabled s1 then
            (case dump s1 of
               Inl p \<Rightarrow> Some (Inl p)
             | Inr s2 \<Rightarrow> Option.bind (prompt s2) (\<lambda>(b, s3). f (s3\<lparr>run := b, cyc := cyc s3 + 1\<rparr>)))
          else f (s1\<lparr>cyc := cyc s1 + 1\<rparr>)) = Some r"
  consider (h) "\<not> run s" | (p) p where "run s" "stages s = Inl p"
    | (df) s1 where "run s" "stages s = Inr s1" "ex s1 \<noteq> 0" "\<not> en s1"
    | (f) s1 where "run s" "stages s = Inr s1" "ex s1 = 0 \<or> en s1" "\<not> dbEnabled s1"
    | (dp) s1 p where "run s" "stages s = Inr s1" "ex s1 = 0 \<or> en s1" "dbEnabled s1" "dump s1 = Inl p"
    | (d) s1 s2 where "run s" "stages s = Inr s1" "ex s1 = 0 \<or> en s1" "dbEnabled s1" "dump s1 = Inr s2"
    by (metis sum.exhaust)
  then have "ends s r \<or> (\<exists>t. cycle s t \<and> f t = Some r)"
  proof cases
    case h with b show ?thesis by (auto intro: halted)
  next
    case p with b crashed [OF p] show ?thesis by simp
  next
    case df with b double_fault [OF df] show ?thesis by simp
  next
    case f with b cycle.free [OF f] show ?thesis by auto
  next
    case dp with b dump_crashed [OF dp] show ?thesis by auto
  next
    case d
    then have "Option.bind (prompt s2) (\<lambda>(b, s3). f (s3\<lparr>run := b, cyc := cyc s3 + 1\<rparr>)) = Some r"
      using b by auto
    then obtain c s3 where "prompt s2 = Some (c, s3)" "f (s3\<lparr>run := c, cyc := cyc s3 + 1\<rparr>) = Some r"
      by (auto simp: bind_eq_Some_conv)
    with cycle.stepped [OF d] show ?thesis by blast
  qed
  then show "\<exists>t. cycle\<^sup>*\<^sup>* s t \<and> ends t r"
    using ih by (meson converse_rtranclp_into_rtranclp rtranclp.rtrancl_refl)
qed

text \<open>The loop returns exactly when turns of the loop lead to an end.\<close>

lemma sim_loop_iff: "sim_loop s = Some r \<longleftrightarrow> (\<exists>t. cycle\<^sup>*\<^sup>* s t \<and> ends t r)"
  using sim_loop_result sim_loop_star sim_loop_end by metis

section \<open>Invariants of the loop\<close>

text \<open>At the head of the loop the machine is well formed, and a pending exception can be taken.\<close>

definition sim_inv :: "emu \<Rightarrow> bool" where
  "sim_inv s \<longleftrightarrow> wf s \<and> (ex s \<noteq> 0 \<longrightarrow> en s)"

text \<open>What a dump or a prompt leaves alone.\<close>

definition machine_same :: "emu \<Rightarrow> emu \<Rightarrow> bool" where
  "machine_same s t \<longleftrightarrow> reg t = reg s \<and> mode t = mode s \<and> ex t = ex s \<and> en t = en s
     \<and> physmem t = physmem s \<and> pc t = pc s \<and> cyc t = cyc s"

lemma machine_same_refl: "machine_same s s"
  by (simp add: machine_same_def)

lemma machine_same_trans: "machine_same s t \<Longrightarrow> machine_same t u \<Longrightarrow> machine_same s u"
  by (simp add: machine_same_def)

lemma machine_same_core: "machine_same s (snd (core s))"
  by (simp add: machine_same_def core_def)

lemma machine_same_io [simp]:
  "machine_same s (t\<lparr>stdin := i\<rparr>) = machine_same s t" "machine_same s (t\<lparr>stdout := out\<rparr>) = machine_same s t"
  "machine_same s (t\<lparr>dbEnabled := b\<rparr>) = machine_same s t" "machine_same s (t\<lparr>blockedForInput := b\<rparr>) = machine_same s t"
  by (simp_all add: machine_same_def)

lemma prompt_loop_same: "prompt_loop bs s = Some (b, s') \<Longrightarrow> machine_same s s'"
proof (induction bs arbitrary: s)
  case (Cons c bs)
  let ?t = "s\<lparr>stdin := bs, stdout := stdout s @ newline @ ''[h c r s x] sim> ''\<rparr>"
  have t: "machine_same s ?t" by (simp add: machine_same_refl)
  have step: "prompt_loop bs u = Some (b, s') \<Longrightarrow> machine_same s u \<Longrightarrow> machine_same s s'" for u
    using Cons.IH machine_same_trans by blast
  show ?case
    using Cons.prems t machine_same_core [of ?t, THEN machine_same_trans [OF t]]
    by (auto simp: Let_def machine_same_refl intro: step split: if_splits)
qed simp

lemma prompt_same: "prompt s = Some (b, s') \<Longrightarrow> machine_same s s'"
  using prompt_loop_same [of "stdin s" "s\<lparr>blockedForInput := True\<rparr>" b s'] by (simp add: prompt_def machine_same_def)

lemma dump_same: "dump s = Inr s' \<Longrightarrow> machine_same s s'"
  by (simp add: machine_same_def dump_fields)

lemma sim_inv_same: "machine_same s t \<Longrightarrow> sim_inv (t\<lparr>run := b, cyc := c\<rparr>) = sim_inv s" "sim_inv (s\<lparr>cyc := c\<rparr>) = sim_inv s"
  by (simp_all add: machine_same_def sim_inv_def wf_def)

lemma cycle_inv: "cycle s t \<Longrightarrow> sim_inv s \<Longrightarrow> sim_inv t"
proof (induction rule: cycle.induct)
  case (free s s1)
  then have "sim_inv s1" using stages_wf by (auto simp: sim_inv_def)
  then show ?case by (simp add: sim_inv_same(2))
next
  case (stepped s s1 s2 b s3)
  then have "sim_inv s1" using stages_wf by (auto simp: sim_inv_def)
  moreover have "machine_same s1 s3"
    by (rule machine_same_trans [OF dump_same prompt_same]) fact+
  ultimately show ?case by (simp add: sim_inv_same(1))
qed

lemma reachable_inv: "cycle\<^sup>*\<^sup>* s t \<Longrightarrow> sim_inv s \<Longrightarrow> sim_inv t"
  by (induction rule: rtranclp_induct) (auto intro: cycle_inv)

section \<open>What loading does to memory\<close>

text \<open>The words a byte sequence becomes, little-endian, from word \<open>off\<close> on.\<close>

fun place :: "u8 list \<Rightarrow> nat \<Rightarrow> (nat \<Rightarrow> u16) \<Rightarrow> nat \<Rightarrow> u16" where
  "place [] off m = m"
| "place [b] off m = m(off := ucast b)"
| "place (b # c # bs) off m = place bs (off + 1) (m(off := ucast b OR push_bit 8 (ucast c)))"

lemma load_loop_place:
  "even n \<Longrightarrow> off + (length bs + 1) div 2 \<le> PhysMemSize \<Longrightarrow>
   load_loop bs off n s = Inr (n + length bs, s\<lparr>physmem := place bs off (physmem s)\<rparr>)"
proof (induction bs off "physmem s" arbitrary: n s rule: place.induct)
  case (3 b c bs off)
  have "load_loop (b # c # bs) off n s =
      load_loop bs (off + 1) (n + 2) (s\<lparr>physmem := (physmem s)(off := ucast b OR push_bit 8 (ucast c))\<rparr>)"
    using 3(2,3) by (simp add: pm_set_def pm_get_def)
  also have "\<dots> = Inr (n + 2 + length bs, s\<lparr>physmem := place (b # c # bs) off (physmem s)\<rparr>)"
    using 3(2,3) by (subst 3(1)) simp_all
  finally show ?case by simp
qed (simp_all add: pm_set_def pm_get_def)

lemma place_outside: "a < off \<or> off + (length bs + 1) div 2 \<le> a \<Longrightarrow> place bs off m a = m a"
  by (induction bs off m rule: place.induct) auto

lemma word_bytes:
  "ucast (ucast b OR push_bit 8 (ucast c) :: u16) = (b :: u8)"
  "ucast (drop_bit 8 (ucast b OR push_bit 8 (ucast c) :: u16)) = (c :: u8)"
  by (intro bit_word_eqI; auto simp: bit_or_iff bit_ucast_iff bit_push_bit_iff bit_drop_bit_eq dest: bit_imp_le_length)+

lemma pbyte_place: "i < length bs \<Longrightarrow> pbyte (place bs off m) (2 * off + i) = bs ! i"
proof (induction bs off m arbitrary: i rule: place.induct)
  case (3 b c bs off m)
  let ?m = "m(off := ucast b OR push_bit 8 (ucast c))"
  have o: "place bs (off + 1) ?m off = ucast b OR push_bit 8 (ucast c)"
    by (subst place_outside) simp_all
  consider "i = 0" | "i = 1" | j where "i = j + 2" "j < length bs"
    using 3(2) by (metis Suc_1 Suc_less_eq add_2_eq_Suc' length_Cons not0_implies_Suc One_nat_def)
  then show ?case
  proof cases
    case 1 with o show ?thesis by (simp add: pbyte_def word_bytes(1))
  next
    case 2 with o show ?thesis by (simp add: pbyte_def del: drop_bit_or) (rule word_bytes(2))
  next
    case (3 j)
    with "3.IH" [OF 3(2)] show ?thesis by (simp add: fun_upd_def)
  qed
qed (simp_all add: pbyte_def ucast_ucast_u16)

lemma load_ok:
  assumes "m < 2" "length d \<le> 3 * 64 * K"
  shows "load s m path (Inr (File (length d) d)) =
    Inr (None, s\<lparr>physmem := place d (m * (3 * 32 * K)) (physmem s)\<rparr>)"
proof -
  have "m = 0 \<or> m = 1" using assms(1) by auto
  then show ?thesis
    using assms(2) load_loop_place [of 0 0 d s] load_loop_place [of 0 "3 * 32 * K" d s]
    by (auto simp: load_def Let_def K_def PhysMemSize_def)
qed

lemma load_short_read:
  assumes "m < 2" "length d < n" "n \<le> 3 * 64 * K"
  shows "\<exists>s'. load s m path (Inr (File n d)) = Inr (Some ''load didn't read the entire file'', s')"
proof -
  have "m = 0 \<or> m = 1" using assms(1) by auto
  then show ?thesis
    using assms(2,3) load_loop_place [of 0 0 d s] load_loop_place [of 0 "3 * 32 * K" d s]
    by (auto simp: load_def Let_def K_def PhysMemSize_def)
qed

section \<open>The core file is the byte image of memory\<close>

lemma length_core_bytes: "length (core_bytes m) = 2 * PhysMemSize"
  by (simp add: core_bytes_def le_bytes_def length_concat comp_def sum_list_triv)

lemma concat_pairs: "i < 2 * n \<Longrightarrow> concat (map (\<lambda>j. [f j, g j]) [0..<n]) ! i = (if even i then f (i div 2) else g (i div 2))"
proof (induction n)
  case (Suc n)
  have l: "length (concat (map (\<lambda>j. [f j, g j]) [0..<n])) = 2 * n"
    by (simp add: length_concat comp_def sum_list_triv)
  show ?case
  proof (cases "i < 2 * n")
    case True
    then show ?thesis using Suc.IH by (simp add: nth_append l)
  next
    case False
    with Suc.prems have "i = 2 * n \<or> i = 2 * n + 1" by auto
    then show ?thesis by (auto simp: nth_append l)
  qed
qed simp

lemma core_byte: "i < 2 * PhysMemSize \<Longrightarrow> core_bytes m ! i = pbyte m i"
  using concat_pairs [of i PhysMemSize "\<lambda>j. ucast (m j)" "\<lambda>j. ucast (drop_bit 8 (m j))"]
  by (cases "even i") (simp_all add: core_bytes_def le_bytes_def pbyte_def mod_2_eq_odd)

lemma core_place:
  assumes "2 * off + length d \<le> 2 * PhysMemSize"
  shows "take (length d) (drop (2 * off) (core_bytes (place d off m))) = d"
  using assms by (intro nth_equalityI) (simp_all add: length_core_bytes core_byte pbyte_place)

section \<open>Runs of the loop are runs of the architecture\<close>

text \<open>The loop stops at a halt, or at an exception that comes while interrupts are off.\<close>

definition stopped :: "arch \<Rightarrow> bool" where
  "stopped st \<longleftrightarrow> \<not> running st \<or> pend st \<noteq> 0 \<and> \<not> ien st"

lemma stages_debug:
  assumes "stages s = Inr s'" shows "dbEnabled s' = dbEnabled s"
proof (cases "ex s = 0")
  case True
  then show ?thesis using stages_flags_running [OF assms] by simp
next
  case False
  then obtain t where t: "trap_entry s = Inr t" "stages t = Inr s'" using assms stages_trap [OF False] by (auto simp: bindE_Inr_iff)
  then show ?thesis using trap_entry_Inr(2) [OF t(1)] stages_flags_running [OF t(2)] by simp
qed

lemma run_cycle:
  assumes "wf s" "\<not> dbEnabled s" "\<not> stopped (arch_of s)" "covered (take_trap (arch_of s))"
  obtains t where "stages s = Inr t" "arch_of t = emul_step (arch_of s)" "wf t" "\<not> dbEnabled t" "run s"
proof -
  have e: "ex s = 0 \<or> en s" "run s" using assms(3) by (auto simp: stopped_def)
  then obtain t where t: "stages s = Inr t" "arch_of t = emul_step (arch_of s)"
    using refine_step [OF assms(1) _ assms(4)] by (auto simp: implements_def)
  then show thesis using that e(2) stages_wf [OF assms(1) t(1)] stages_debug [OF t(1)] assms(2) by blast
qed

lemma sim_loop_stops:
  "wf s \<Longrightarrow> \<not> dbEnabled s \<Longrightarrow> ex s = 0 \<or> en s \<Longrightarrow> stopped ((emul_step ^^ n) (arch_of s)) \<Longrightarrow>
   \<forall>j < n. \<not> stopped ((emul_step ^^ j) (arch_of s)) \<and> covered (take_trap ((emul_step ^^ j) (arch_of s))) \<Longrightarrow>
   \<exists>t. sim_loop s = Some (Inr t) \<and> arch_of t = (emul_step ^^ n) (arch_of s)"
proof (induction n arbitrary: s)
  case 0
  then have "\<not> run s" by (auto simp: stopped_def)
  then show ?case using sim_loop_end [OF halted] by auto
next
  case (Suc n)
  have "\<not> stopped (arch_of s)" "covered (take_trap (arch_of s))" using Suc.prems(5) [rule_format, of 0] by simp_all
  then obtain t where t: "stages s = Inr t" "arch_of t = emul_step (arch_of s)" "wf t" "\<not> dbEnabled t" "run s"
    using run_cycle [OF Suc.prems(1,2)] by blast
  have sh: "(emul_step ^^ Suc k) (arch_of s) = (emul_step ^^ k) (arch_of t)" for k by (simp only: funpow_Suc_right comp_def t(2))
  show ?case
  proof (cases "ex t = 0 \<or> en t")
    case True
    let ?t = "t\<lparr>cyc := cyc t + 1\<rparr>"
    have a: "arch_of ?t = arch_of t" by simp
    have "\<exists>u. sim_loop ?t = Some (Inr u) \<and> arch_of u = (emul_step ^^ n) (arch_of ?t)"
    proof (rule Suc.IH)
      show "wf ?t" using t(3) by (simp add: wf_def)
      show "stopped ((emul_step ^^ n) (arch_of ?t))" using Suc.prems(4) unfolding a sh .
      show "\<forall>j < n. \<not> stopped ((emul_step ^^ j) (arch_of ?t)) \<and> covered (take_trap ((emul_step ^^ j) (arch_of ?t)))"
        unfolding a using Suc.prems(5) sh by (metis Suc_less_eq)
    qed (use t(4) True in simp_all)
    moreover have "sim_loop s = sim_loop ?t" by (rule sim_loop_cycle) (use t True in \<open>simp add: cycle.free\<close>)
    ultimately show ?thesis unfolding a sh by simp
  next
    case False
    then have "stopped ((emul_step ^^ 1) (arch_of s))" using sh [of 0] by (simp add: stopped_def)
    then have "n = 0" using Suc.prems(5) by (cases n) auto
    moreover have "sim_loop s = Some (Inr t)" using t False by (intro sim_loop_end double_fault) auto
    ultimately show ?thesis using t(2) by simp
  qed
qed

lemma sim_loop_endless:
  assumes "wf s" "\<not> dbEnabled s"
    and "\<And>n. \<not> stopped ((emul_step ^^ n) (arch_of s)) \<and> covered (take_trap ((emul_step ^^ n) (arch_of s)))"
  shows "sim_loop s = None"
proof (rule ccontr)
  assume "sim_loop s \<noteq> None"
  then obtain r t where r: "cycle\<^sup>*\<^sup>* s t" "ends t r" using sim_loop_result by blast
  have turn: "\<exists>u'. stages u = Inr u' \<and> wf u' \<and> \<not> dbEnabled u' \<and> arch_of u' = (emul_step ^^ Suc n) (arch_of s) \<and> (ex u' = 0 \<or> en u') \<and> run u"
    if u: "wf u" "\<not> dbEnabled u" "arch_of u = (emul_step ^^ n) (arch_of s)" for u n
  proof -
    have "\<not> stopped (arch_of u)" "covered (take_trap (arch_of u))" using assms(3) [of n] u(3) by simp_all
    then obtain u' where u': "stages u = Inr u'" "arch_of u' = emul_step (arch_of u)" "wf u'" "\<not> dbEnabled u'" "run u"
      using run_cycle [OF u(1,2)] by blast
    then have "arch_of u' = (emul_step ^^ Suc n) (arch_of s)" using u(3) by simp
    moreover from this have "\<not> stopped (arch_of u')" using assms(3) [of "Suc n"] by (simp only: not_False_eq_True)
    then have "ex u' = 0 \<or> en u'" by (auto simp: stopped_def)
    ultimately show ?thesis using u' by blast
  qed
  from r(1) have "wf t \<and> \<not> dbEnabled t \<and> (\<exists>n. arch_of t = (emul_step ^^ n) (arch_of s))"
  proof (induction rule: rtranclp_induct)
    case base
    then show ?case using assms(1,2) by (auto intro: exI [of _ 0])
  next
    case (step u v)
    then obtain n where n: "wf u" "\<not> dbEnabled u" "arch_of u = (emul_step ^^ n) (arch_of s)" by blast
    obtain u' where u': "stages u = Inr u'" "wf u'" "\<not> dbEnabled u'" "arch_of u' = (emul_step ^^ Suc n) (arch_of s)"
      using turn [OF n] by blast
    then have "v = u'\<lparr>cyc := cyc u' + 1\<rparr>" using step.hyps(2) by (auto elim!: cycleE)
    then show ?case using u' by (auto simp: wf_def simp del: funpow.simps)
  qed
  then obtain n where "wf t" "\<not> dbEnabled t" "arch_of t = (emul_step ^^ n) (arch_of s)" by blast
  from turn [OF this] r(2) show False by (auto elim!: endsE)
qed

end
