(* ===== verification/Programs.thy ===== *)
theory Programs
  imports Simulate
begin

text \<open>
  Whole runs of assembled programs: what the assembler's rules emit, loaded from a binary file, booted
  and simulated to the halt.
\<close>

section \<open>Assembled binaries\<close>

definition assemble :: "inst list \<Rightarrow> u8 list" where
  "assemble prg = concat (map (\<lambda>i. le_bytes (encode i)) prg)"

lemma length_assemble: "length (assemble prg) = 2 * length prg"
  by (induction prg) (simp_all add: assemble_def le_bytes_def)

lemma le_word: "ucast (ucast w :: u8) OR push_bit 8 (ucast (ucast (drop_bit 8 w) :: u8)) = (w :: u16)"
  by (intro bit_word_eqI)
     (auto simp: bit_or_iff bit_ucast_iff bit_push_bit_iff bit_drop_bit_eq not_less dest: bit_imp_le_length)

lemma place_assemble:
  "place (assemble prg) off m = (\<lambda>a. if off \<le> a \<and> a < off + length prg then encode (prg ! (a - off)) else m a)"
proof (induction prg arbitrary: off m)
  case Nil
  then show ?case by (auto simp: assemble_def fun_eq_iff)
next
  case (Cons i prg)
  have "place (assemble (i # prg)) off m = place (assemble prg) (off + 1) (m(off := encode i))"
    by (simp add: assemble_def le_bytes_def le_word)
  then show ?case by (auto simp: Cons fun_eq_iff nth_Cons' not_le)
qed

section \<open>Running straight-line code\<close>

lemma pbyte_inj: "pbyte m = pbyte m' \<Longrightarrow> m = m'"
proof
  fix a assume "pbyte m = pbyte m'"
  then show "m a = m' a" using word_of_bytes [of "2 * a" m] word_of_bytes [of "2 * a" m'] by simp
qed

text \<open>A machine that runs kernel code from the first page, not under the debugger.\<close>

definition at_code :: "inst list \<Rightarrow> emu \<Rightarrow> bool" where
  "at_code prg s \<longleftrightarrow> wf s \<and> ex s = 0 \<and> run s \<and> \<not> dbEnabled s \<and> mode s = 0 \<and> mmu_safe s
     \<and> unat (spr (reg s ! Kern) ! 32) mod 4096 = 0
     \<and> (\<forall>k < length prg. unat (pc s) + k < 4096 \<and> physmem s (unat (pc s) + k) = encode (prg ! k))"

lemma at_code_fetches:
  assumes "at_code (i # prg) s" shows "fetches s (encode i)"
proof -
  have "unat (pc s) + 0 < 4096 \<and> physmem s (unat (pc s) + 0) = encode i"
    using assms unfolding at_code_def by (elim conjE allE [where x = 0]) auto
  moreover from this have "phys s False (pc s) = unat (pc s)"
    using assms by (simp add: phys_def mmu_entry_def at_code_def)
  ultimately show ?thesis by (simp add: fetches_def PhysMemSize_def)
qed

lemma at_code_step:
  assumes "at_code (i # prg) s" "plain i" "i \<noteq> Vop Rti"
    and "departs i (exec_inst (emul_inst i) (arch_of (issued s (encode i)))) = st" "pend st = 0"
  shows "\<exists>t. cycle s t \<and> arch_of t = st \<and> ex t = 0 \<and> wf t \<and> \<not> dbEnabled t \<and> qflag t = qflag s"
proof -
  have a: "wf s" "ex s = 0" "mmu_safe s" "run s" "\<not> dbEnabled s" using assms(1) by (simp_all add: at_code_def)
  obtain t where t: "stages s = Inr t" "arch_of t = st"
    using refine_all [OF a(1-3) at_code_fetches [OF assms(1)] assms(2)] assms(3,4)
    by (auto simp: implements_def)
  have e: "ex t = 0" using arg_cong [OF t(2), of pend] assms(5) by simp
  have "cycle s (t\<lparr>cyc := cyc t + 1\<rparr>)"
    using t e a stages_flags_running [OF t(1) a(2)] by (intro cycle.free) auto
  moreover have "wf (t\<lparr>cyc := cyc t + 1\<rparr>)" using stages_wf [OF a(1) t(1)] by (simp add: wf_def)
  ultimately show ?thesis using t(2) e stages_flags_running [OF t(1) a(2)] a(5)
    by (intro exI [of _ "t\<lparr>cyc := cyc t + 1\<rparr>"]) simp
qed

lemma at_code_wr:
  assumes "at_code (i # prg) s" "plain i" "i \<noteq> Vop Rti"
    and "departs i (exec_inst (emul_inst i) (arch_of (issued s (encode i)))) = wr a v ((arch_of s)\<lparr>apc := pc s + 1\<rparr>)"
  obtains t where "cycle s t" "at_code prg t" "arch_of t = wr a v ((arch_of s)\<lparr>apc := pc s + 1\<rparr>)" "qflag t = qflag s"
proof -
  obtain t where t: "cycle s t" "arch_of t = wr a v ((arch_of s)\<lparr>apc := pc s + 1\<rparr>)" "ex t = 0" "wf t"
    "\<not> dbEnabled t" "qflag t = qflag s"
    using at_code_step [OF assms] assms(1) by (auto simp: at_code_def)
  have a: "wf_regs (reg s)" "mode s = 0" using assms(1) by (simp_all add: at_code_def wf_def)
  note e = t(2) [THEN arg_cong, of regs] t(2) [THEN arg_cong, of amode] t(2) [THEN arg_cong, of apc]
    t(2) [THEN arg_cong, of bytes] t(2) [THEN arg_cong, of running]
  have f: "pc t = pc s + 1" "physmem t = physmem s" "run t = run s" "mode t = 0"
    using e(2-5) a(2) by (auto simp: wr_def word_unat_eq_iff intro: pbyte_inj split: if_splits)
  have r: "spr (reg t ! 0) = spr (reg s ! 0)" using e(1) by (simp add: wr_def spr_put_gen split: if_splits)
  have "mmu_safe t" using assms(1) a(2) f(4) r by (simp add: at_code_def mmu_safe_def)
  moreover have "unat (pc t) + k < 4096 \<and> physmem t (unat (pc t) + k) = encode (prg ! k)" if "k < length prg" for k
  proof -
    have b: "unat (pc s) + Suc k < 4096 \<and> physmem s (unat (pc s) + Suc k) = encode (prg ! k)"
      using assms(1) that unfolding at_code_def by (elim conjE allE [where x = "Suc k"]) auto
    then have "unat (pc s + 1) = unat (pc s) + 1" by (subst unat_add_lem [THEN iffD1]) simp_all
    with b show ?thesis by (simp add: f)
  qed
  ultimately have "at_code prg t"
    using t assms(1) f r by (simp add: at_code_def)
  with t that show thesis by blast
qed

section \<open>Load immediate, then halt\<close>

text \<open>The two halves of an immediate put together again.\<close>

lemma ldi_value: "64 * ucast (upper_imm w) + scast (ucast (lower_imm w) :: 7 word) = w"
proof -
  have u: "64 * ucast (upper_imm w) = push_bit 6 (drop_bit 6 w)"
  proof (rule bit_word_eqI)
    fix n
    have "(0x3FF :: u16) = mask 10" by (simp add: mask_eq_exp_minus_1)
    then have "bit (push_bit 6 (ucast (upper_imm w) :: u16)) n = bit (push_bit 6 (drop_bit 6 w)) n"
      by (simp only: upper_imm_def bit_push_bit_iff bit_ucast_iff bit_and_iff bit_mask_iff bit_drop_bit_eq)
         (auto dest: bit_imp_le_length)
    then show "bit (64 * ucast (upper_imm w) :: u16) n = bit (push_bit 6 (drop_bit 6 w)) n"
      by (simp add: push_bit_eq_mult mult.commute)
  qed
  have l: "scast (ucast (lower_imm w) :: 7 word) = (take_bit 6 w :: u16)"
  proof (rule bit_word_eqI)
    fix n
    have "(0x3F :: u16) = mask 6" by (simp add: mask_eq_exp_minus_1)
    then show "bit (scast (ucast (lower_imm w) :: 7 word) :: u16) n = bit (take_bit 6 w) n"
      by (simp only: lower_imm_def bit_signed_iff bit_ucast_iff bit_and_iff bit_mask_iff bit_take_bit_iff)
         (auto simp: min_def)
  qed
  show ?thesis unfolding u l by (simp add: bits_ident)
qed

lemma rd_apc: "rd (st\<lparr>apc := x\<rparr>) r = rd st r"
  by (simp add: rd_def)

lemma ldi_hlt_halts:
  assumes "at_code (ldi a w @ [Vop Hlt]) s" "a \<noteq> 0"
  obtains t where "sim_loop s = Some (Inr t)" "gen (reg t ! Kern) ! unat a = w" "qflag t = qflag s"
proof -
  have a: "wf_regs (reg s)" "mode s = 0" using assms(1) by (simp_all add: at_code_def wf_def)
  have p: "plain (Lui x y)" "plain (Adi x z k)" "plain (Vop Hlt)" for x y z k by (simp_all add: plain_def)
  obtain s1 where s1: "cycle s s1" "at_code [Adi a a (ucast (lower_imm w)), Vop Hlt] s1"
    "arch_of s1 = wr a (64 * ucast (upper_imm w)) ((arch_of s)\<lparr>apc := pc s + 1\<rparr>)" "qflag s1 = qflag s"
    by (rule at_code_wr [of "Lui a (upper_imm w)" "[Adi a a (ucast (lower_imm w)), Vop Hlt]" s a "64 * ucast (upper_imm w)"])
       (use assms(1) in \<open>simp_all add: ldi_def p arch_issued\<close>)
  have r1: "rg s1 a = 64 * ucast (upper_imm w)"
  proof -
    have "rd (arch_of s1) a = 64 * ucast (upper_imm w)"
      unfolding s1(3) using a assms(2) r3_lt [of a] by (simp add: wr_def rd_def put_gen_nth)
    then show ?thesis by simp
  qed
  obtain s2 where s2: "cycle s1 s2" "at_code [Vop Hlt] s2" "qflag s2 = qflag s1"
    "arch_of s2 = wr a w ((arch_of s1)\<lparr>apc := pc s1 + 1\<rparr>)"
    by (rule at_code_wr [OF s1(2), of a w]) (simp_all add: p arch_issued rd_apc r1 ldi_value)
  have a1: "wf_regs (reg s1)" "mode s1 = 0" using s1(2) by (simp_all add: at_code_def wf_def)
  have r2: "gen (reg s2 ! 0) ! unat a = w" "mode s2 = 0"
    using arg_cong [OF s2(4), of regs] s2(2) a1 assms(2) r3_lt [of a]
    by (simp_all add: wr_def put_gen_nth at_code_def)
  obtain s3 where s3: "cycle s2 s3" "arch_of s3 = (arch_of (issued s2 (encode (Vop Hlt))))\<lparr>running := False\<rparr>" "qflag s3 = qflag s2"
    using at_code_step [OF s2(2) p(3)] r2(2) s2(2) by (auto simp: privileged_def at_code_def)
  have "\<not> run s3" "reg s3 = reg s2"
    using arg_cong [OF s3(2), of running] arg_cong [OF s3(2), of regs] by simp_all
  then have "sim_loop s = Some (Inr s3)"
    using s1(1) s2(1) s3(1) by (simp add: sim_loop_cycle sim_loop_end halted)
  with \<open>reg s3 = reg s2\<close> r2(1) s1(4) s2(3) s3(3) that show thesis by simp
qed
end
