(* ===== verification/Emulator.thy ===== *)
theory Emulator
  imports Programs
begin

text \<open>
  The properties of the emulator (\<open>emul/\<close>), over the lemmas of the theories below it, with the
  machine states at which they are applied.
\<close>

section \<open>Machines to apply the properties to\<close>

text \<open>A machine after reset with the words \<open>ws\<close> at physical address 0 and every MMU page at 0.\<close>

definition prog :: "u16 list \<Rightarrow> nat \<Rightarrow> u16" where
  "prog ws a = (if a < length ws then ws ! a else 0)"

definition boot :: "u8 \<Rightarrow> u16 list \<Rightarrow> emu" where
  "boot m ws = (init_emu False False True [] (\<lambda>_. Inl []))\<lparr>run := True, mode := m, physmem := prog ws\<rparr>"

lemma boot_sel [simp]:
  "reg (boot m ws) = [zero_reg, zero_reg]" "mode (boot m ws) = m" "ex (boot m ws) = 0" "en (boot m ws) = False"
  "pc (boot m ws) = 0" "physmem (boot m ws) = prog ws" "run (boot m ws) = True" "dbEnabled (boot m ws) = False"
  "hc (boot m ws) = 0"
  by (simp_all add: boot_def init_emu_def)

lemma wf_zero_regs: "wf_regs [zero_reg, zero_reg]"
  by (simp add: wf_regs_def zero_reg_def SprSize_def)

lemma boot_wf: "unat m < 2 \<Longrightarrow> wf (boot m ws)"
  by (simp add: wf_def wf_zero_regs)

lemma spr_zero: "k < 2 \<Longrightarrow> i < 64 \<Longrightarrow> spr ([zero_reg, zero_reg] ! k) ! i = 0"
  by (auto simp: zero_reg_def SprSize_def less_2_cases_iff)

lemma boot_safe: "unat m < 2 \<Longrightarrow> mmu_safe (boot m ws)"
  by (auto simp: mmu_safe_def spr_zero)

lemma boot_fetches: "unat m < 2 \<Longrightarrow> fetches (boot m (w # ws)) w"
  by (simp add: fetches_def phys_def mmu_entry_def spr_zero PhysMemSize_def prog_def)

section \<open>User mode\<close>

text \<open>A run of the machine in which no exception is pending: what a user program does until its next trap.\<close>

inductive user_run :: "emu \<Rightarrow> emu \<Rightarrow> bool" where
  start: "user_run s s"
| step: "user_run s t \<Longrightarrow> ex t = 0 \<Longrightarrow> stages t = Inr u \<Longrightarrow> user_run s u"

lemma isolated_refl: "isolated s s"
  by (simp add: isolated_def)

lemma spr_get_eq: "wf_regs (reg s) \<Longrightarrow> m < 2 \<Longrightarrow> spr_get s m i = (if i < 64 then Inr (spr (reg s ! m) ! i) else Inl IndexOutOfRange)"
  by (auto simp: spr_get_ok) (simp add: spr_get_def idx_def)

lemma isolated_trans:
  assumes "wf s" "wf t" "mode s = of_nat User" "isolated s t" "isolated t u" shows "isolated s u"
proof -
  have "spr (reg t ! 1) ! i = spr (reg s ! 1) ! i" if "32 \<le> i" for i
    using assms(4) that unfolding isolated_def by simp
  then have "mmu_same s t"
    using assms(1-4) by (simp add: mmu_same_def isolated_def wf_def spr_get_eq)
  note tr = translate_mmu_same [OF this]
  show ?thesis
    using assms(4,5) unfolding isolated_def tr by metis
qed

lemma user_run_isolated:
  "user_run s t \<Longrightarrow> wf s \<Longrightarrow> mode s = of_nat User \<Longrightarrow> isolated s t \<and> wf t"
proof (induction rule: user_run.induct)
  case (step s t u)
  then have t: "isolated s t" "wf t" by simp_all
  then have "mode t = of_nat User" using step.prems by (simp add: isolated_def)
  with step t show ?case
    using user_isolation [of t u] stages_wf [of t u] isolated_trans [of s t u] by simp
qed (simp add: isolated_refl)

text \<open>
  (C2) User code cannot escape: however long a program runs in user mode without a trap, the kernel's
  registers, the user's own special registers other than the link register, the mode, the interrupt
  enable, the run flag and the output stay as they were, and memory changes only at words that the
  user's data pages map.
\<close>

theorem user_mode_isolation:
  assumes "wf s" "mode s = of_nat User" "user_run s t"
  shows "isolated s t \<and> wf t"
  using user_run_isolated [OF assms(3,1,2)] .

lemmas cycle_eval = boot_def init_emu_def stages_def fetch_def translate_def spr_get_def zero_reg_def
  SprSize_def PhysMemSize_def mem_get_def prog_def decode_def decode_fields_def Let_def bits_def
  execute_def sxtImm_def call_def baseops_def adi_def stw_def ldw_def cur_gen_def gen_get_def memory_def writeback_def
  gen_set_def

theorem user_mode_isolation_witness:
  "\<exists>t. user_run (boot 1 [0xA141]) t \<and> gen (reg t ! User) ! 1 = 5 \<and> isolated (boot 1 [0xA141]) t"
proof -
  obtain t where t: "stages (boot 1 [0xA141]) = Inr t" "gen (reg t ! User) ! 1 = 5"
    by (simp add: cycle_eval)
  have "user_run (boot 1 [0xA141]) t" by (rule user_run.step [OF user_run.start _ t(1)]) simp
  with user_mode_isolation [of "boot 1 [0xA141]" t] t(2) show ?thesis by (auto simp: boot_wf)
qed

lemma isolated_safe:
  assumes "isolated s t" "mode s = of_nat User" "mmu_safe s" shows "mmu_safe t"
proof -
  have "spr (reg t ! 1) ! (32 + i) = spr (reg s ! 1) ! (32 + i)" "spr (reg t ! 1) ! (48 + i) = spr (reg s ! 1) ! (48 + i)" for i
    using assms(1) by (simp_all add: isolated_def)
  then show ?thesis using assms by (simp add: mmu_safe_def isolated_def)
qed

text \<open>
  (C3) User code cannot crash the emulator: as long as no entry of the user's MMU has the one value
  that the bounds check of \<open>translate\<close> lets through, every cycle of a user program returns, whatever
  the instruction words are.
\<close>

theorem user_mode_never_panics:
  assumes "wf s" "mode s = of_nat User" "mmu_safe s" "user_run s t" "ex t = 0"
  shows "\<exists>u. stages t = Inr u \<and> mmu_safe u"
proof -
  have t: "isolated s t" "wf t" using user_run_isolated [OF assms(4,1,2)] by simp_all
  then have m: "mode t = of_nat User" "mmu_safe t"
    using assms(2) isolated_safe [OF t(1) assms(2,3)] by (simp_all add: isolated_def)
  obtain u where u: "stages t = Inr u" using user_cycle_total [OF t(2) m(1) assms(5) m(2)] by blast
  with isolated_safe [OF user_isolation [OF t(2) m(1) assms(5) u] m] show ?thesis by blast
qed

theorem user_mode_never_panics_witness: "\<exists>u. stages (boot 1 [0xFFFC]) = Inr u \<and> mmu_safe u"
  using user_mode_never_panics [of "boot 1 [0xFFFC]" "boot 1 [0xFFFC]"]
  by (simp add: boot_wf boot_safe user_run.start)

section \<open>Exceptions\<close>

text \<open>
  (C4) Exceptions are precise: a cycle that raises an exception changes no register, no memory word, no
  carry, mode, enable or run bit; the program counter is the instruction's address or the one after it.
\<close>

theorem exceptions_are_precise:
  assumes "stages s = Inr s'" "ex s = 0" "ex s' \<noteq> 0"
  shows "reg s' = reg s \<and> physmem s' = physmem s \<and> hc s' = hc s \<and> mode s' = mode s \<and> en s' = en s
    \<and> run s' = run s \<and> (pc s' = pc s \<or> pc s' = pc s + 1)"
  using stages_precise [OF assms] .

theorem exceptions_are_precise_witness:
  "\<exists>s'. stages (boot 1 [0]) = Inr s' \<and> ex s' = ExIllegal \<and> reg s' = reg (boot 1 [0])"
proof -
  obtain s' where s': "stages (boot 1 [0]) = Inr s'" "ex s' = ExIllegal"
    by (simp add: cycle_eval)
  with exceptions_are_precise [OF s'(1)] show ?thesis by simp
qed

lemma trap_return:
  assumes "wf s" "en s"
  obtains t u where "trap_entry s = Inr t" "rti t = Inr u"
    "mode t = of_nat Kern" "pc t = ex s" "\<not> en t" "ex t = 0" "physmem t = physmem s"
    "spr (reg t ! Kern) ! Irr = pc s" "spr (reg t ! Kern) ! Icr = ex s" "spr (reg t ! Kern) ! Imr = ucast (mode s)"
    "mode u = mode s" "pc u = pc s" "en u" "ex u = 0" "physmem u = physmem s"
    "\<And>k. gen (reg u ! k) = gen (reg s ! k)" "reg u ! User = reg s ! User"
proof -
  have w: "wf_regs (reg s)" using assms(1) by (simp add: wf_def)
  let ?t = "s\<lparr>reg := trap_regs s, mode := 0, pc := ex s, en := False, ex := 0\<rparr>"
  have t: "trap_entry s = Inr ?t" by (rule trap_entry_eq [OF w assms(2)])
  note wt = wf_trap_regs [OF w]
  have sp: "spr (trap_regs s ! 0) ! 2 = pc s" "spr (trap_regs s ! 0) ! 3 = ex s" "spr (trap_regs s ! 0) ! 4 = ucast (mode s)"
    using w by (simp_all add: trap_regs_def put_spr_nth)
  let ?r = "put_spr (trap_regs s) Kern Irr 0"
  have m: "spr (?r ! 0) ! 4 = ucast (mode s)" using wt sp by (simp add: put_spr_nth)
  let ?u = "?t\<lparr>en := True, pc := pc s, reg := ?r, mode := mode s\<rparr>"
  have c: "(ucast (ucast (mode s) :: u16) :: u8) = mode s" by (rule ucast_ucast_u16) simp
  have u: "rti ?t = Inr ?u"
    using wt m sp by (simp add: rti_def spr_get_ok spr_set_ok c Let_def)
  have g: "gen (?r ! k) = gen (reg s ! k)" for k by (simp add: gen_put_spr trap_regs_def)
  have us: "?r ! Suc 0 = reg s ! Suc 0" using w by (simp add: trap_regs_def put_spr_nth)
  show thesis by (rule that [OF t u]) (simp_all add: sp g us)
qed

text \<open>
  (C5) Taking a trap and returning from it: with interrupts enabled, an exception enters the kernel at
  the address that is its number, with interrupts off and the interrupted program counter, the cause
  and the mode in the kernel's \<open>Irr\<close>, \<open>Icr\<close> and \<open>Imr\<close>; an \<open>rti\<close> from there restores program counter,
  mode and enable bit, and no general register, user register or memory word has changed.
\<close>

theorem trap_then_rti:
  assumes "wf s" "en s" "ex s \<noteq> 0"
  shows "\<exists>t u. trap_entry s = Inr t \<and> stages s = stages t \<and> mode t = of_nat Kern \<and> pc t = ex s \<and> \<not> en t \<and> ex t = 0
    \<and> spr (reg t ! Kern) ! Irr = pc s \<and> spr (reg t ! Kern) ! Icr = ex s \<and> spr (reg t ! Kern) ! Imr = ucast (mode s)
    \<and> rti t = Inr u \<and> mode u = mode s \<and> pc u = pc s \<and> en u \<and> ex u = 0 \<and> physmem u = physmem s
    \<and> (\<forall>k. gen (reg u ! k) = gen (reg s ! k)) \<and> reg u ! User = reg s ! User"
proof -
  obtain t u where t: "trap_entry s = Inr t" "rti t = Inr u"
    "mode t = of_nat Kern" "pc t = ex s" "\<not> en t" "ex t = 0" "physmem t = physmem s"
    "spr (reg t ! Kern) ! Irr = pc s" "spr (reg t ! Kern) ! Icr = ex s" "spr (reg t ! Kern) ! Imr = ucast (mode s)"
    "mode u = mode s" "pc u = pc s" "en u" "ex u = 0" "physmem u = physmem s"
    "\<And>k. gen (reg u ! k) = gen (reg s ! k)" "reg u ! User = reg s ! User"
    using trap_return [OF assms(1,2)] by metis
  with stages_trap [OF assms(3)] have "stages s = stages t" by simp
  with t show ?thesis by blast
qed

theorem trap_then_rti_witness:
  "\<exists>t u. trap_entry ((boot 1 [])\<lparr>en := True, ex := 32, pc := 7\<rparr>) = Inr t \<and> pc t = 32 \<and> rti t = Inr u \<and> pc u = 7 \<and> mode u = 1"
  using trap_then_rti [of "(boot 1 [])\<lparr>en := True, ex := 32, pc := 7\<rparr>"] boot_wf [of 1 "[]"]
  by (auto simp: wf_def)

section \<open>Instructions\<close>



lemma boot_covered:
  assumes "unat m < 2" "plain (inst_of w)" "inst_of w \<noteq> Vop Rti"
  shows "covered (take_trap (arch_of (boot m (w # ws))))" "next_inst (take_trap (arch_of (boot m (w # ws)))) = Some (inst_of w)"
proof -
  let ?s = "boot m (w # ws)"
  have t: "take_trap (arch_of ?s) = arch_of ?s" by (simp add: take_trap_def)
  have n: "next_inst (arch_of ?s) = Some (inst_of w)"
    using boot_fetches [OF assms(1), of w ws] by (simp add: next_inst_arch fetches_def)
  show "covered (take_trap (arch_of ?s))" "next_inst (take_trap (arch_of ?s)) = Some (inst_of w)"
    using boot_safe [OF assms(1), of "w # ws"] n assms(2,3) unfolding t by (simp_all add: covered_def mmu_safe_def spr_at_def)
qed


lemma arch_regs: "arch_of t = st \<Longrightarrow> reg t = regs st \<and> unat (mode t) = amode st \<and> hc t = carry st"
  by auto

text \<open>
  (C13) The three-operand instructions never leave a carry: \<open>alu3\<close> widens the sum after the 16-bit
  addition has wrapped, so after \<open>add\<close>, \<open>adc\<close>, \<open>sub\<close> and \<open>sbb\<close> the hidden carry is 0 even when the
  unsigned sum does not fit in 16 bits.
\<close>

theorem alu3_loses_carry:
  assumes "wf s" "ex s = 0" "fetches s (encode (Xop x a b c))" "a \<noteq> 0"
  shows "\<exists>s'. stages s = Inr s' \<and> ex s' = 0 \<and> hc s' = 0 \<and>
    gen (reg s' ! unat (mode s)) ! unat a = op3_val x (rg s c) (rg s b) (hc s)"
proof -
  have w: "wf_regs (reg s)" "unat (mode s) < 2" using assms(1) by (simp_all add: wf_def)
  obtain s' where s': "stages s = Inr s'"
    "arch_of s' = wr a (op3_val x (rg s c) (rg s b) (hc s)) ((arch_of (issued s (encode (Xop x a b c))))\<lparr>carry := 0\<rparr>)"
    using refine_xop [OF assms(1-3)] by (auto simp: implements_def carry_wr)
  have "reg s' = put_gen (reg s) (unat (mode s)) (unat a) (op3_val x (rg s c) (rg s b) (hc s))" "hc s' = 0" "ex s' = 0"
    using arg_cong [OF s'(2), of regs] arg_cong [OF s'(2), of carry] arg_cong [OF s'(2), of pend] assms(2,4)
    by (simp_all add: wr_def)
  then show ?thesis using s'(1) w r3_lt [of a] by (simp add: put_gen_nth)
qed

definition big_add :: emu where
  "big_add = (boot 0 [0xF089])\<lparr>reg := put_gen (put_gen [zero_reg, zero_reg] 0 2 0xFFFF) 0 1 2\<rparr>"

lemma encode_add: "encode (Xop Add 1 1 2) = 0xF089"
  by (simp add: enc_f_def cat_def)

theorem alu3_loses_carry_witness: "\<exists>s'. stages big_add = Inr s' \<and> hc s' = 0 \<and> gen (reg s' ! 0) ! 1 = 1"
proof -
  have "wf big_add" by (simp add: big_add_def wf_def wf_zero_regs)
  moreover have "fetches big_add (encode (Xop Add 1 1 2))"
    unfolding encode_add
    by (simp add: big_add_def fetches_def phys_def mmu_entry_def spr_put_gen zero_reg_def SprSize_def PhysMemSize_def prog_def)
  moreover have "ex big_add = 0" "mode big_add = 0" "rg big_add 2 = 0xFFFF" "rg big_add 1 = 2"
    by (simp_all add: big_add_def put_gen_def zero_reg_def)
  ultimately show ?thesis using alu3_loses_carry [of big_add Add 1 1 2] by auto
qed

text \<open>
  (C14) The emulator swaps two instructions: the code that the assembler and the disassembler give to
  \<open>sxt\<close> exchanges the bytes of the register, and the code of \<open>swb\<close> sign-extends its low byte.
\<close>

theorem sxt_and_swb_are_swapped:
  assumes "wf s" "ex s = 0" "a \<noteq> 0" "fetches s (encode (Zop z a))" "z = Sxt \<or> z = Swb"
  shows "\<exists>s'. stages s = Inr s' \<and> ex s' = 0 \<and>
    gen (reg s' ! unat (mode s')) ! unat a =
      (if z = Sxt then of_nat (256 * (unat (rg s a) mod 256) + unat (rg s a) div 256) else scast (ucast (rg s a) :: u8))"
proof -
  have w: "wf_regs (reg s)" "unat (mode s) < 2" using assms(1) by (simp_all add: wf_def)
  obtain s' where s': "stages s = Inr s'"
    "arch_of s' = wr a (fst (op1_val (emul_op1 z) (rg s a))) ((arch_of (issued s (encode (Zop z a))))\<lparr>carry := snd (op1_val (emul_op1 z) (rg s a))\<rparr>)"
    using refine_zop [OF assms(1,2,4)] by (auto simp: implements_def)
  have "reg s' = put_gen (reg s) (unat (mode s)) (unat a) (fst (op1_val (emul_op1 z) (rg s a)))" "mode s' = mode s" "ex s' = 0"
    using arg_cong [OF s'(2), of regs] arg_cong [OF s'(2), of amode] arg_cong [OF s'(2), of pend] assms(2,3)
    by (simp_all add: wr_def word_unat_eq_iff)
  then show ?thesis
    using s'(1) w assms(5) r3_lt [of a] by (auto simp: put_gen_nth)
qed

definition byte_reg :: emu where
  "byte_reg = (boot 0 [0xFFD1])\<lparr>reg := put_gen [zero_reg, zero_reg] 0 1 0x1280\<rparr>"

lemma encode_sxt: "encode (Zop Sxt 1) = 0xFFD1"
  by (simp add: enc_f_def cat_def)

theorem sxt_and_swb_are_swapped_witness:
  "\<exists>s'. stages byte_reg = Inr s' \<and> gen (reg s' ! unat (mode s')) ! 1 = 0x8012"
proof -
  have "wf byte_reg" by (simp add: byte_reg_def wf_def wf_zero_regs)
  moreover have "fetches byte_reg (encode (Zop Sxt 1))"
    unfolding encode_sxt
    by (simp add: byte_reg_def fetches_def phys_def mmu_entry_def spr_put_gen zero_reg_def SprSize_def PhysMemSize_def prog_def)
  moreover have "ex byte_reg = 0" "rg byte_reg 1 = 0x1280"
    by (simp_all add: byte_reg_def put_gen_def zero_reg_def)
  ultimately show ?thesis using sxt_and_swb_are_swapped [of byte_reg 1 Sxt] by auto
qed

section \<open>Address translation\<close>

text \<open>
  (C12) Address translation: bits 12 to 15 of the address select the MMU entry of the current mode and
  space, its low 12 bits give the page, and a data address counts bytes of 16-bit words; the result is
  below 2 to the 24th and reported as a fault exactly above the size of physical memory.
\<close>

theorem translate_is_paging:
  fixes s :: emu and d :: bool and v :: u16
  assumes "wf s"
  defines "e \<equiv> spr (reg s ! unat (mode s)) ! (32 + (if d then 16 else 0) + unat v div 4096)"
  defines "p \<equiv> (4096 * (unat e mod 4096) + unat v mod 4096) div (if d then 2 else 1)"
  shows "translate s d v = Inr (if p > PhysMemSize then ExMemory else ExNone, of_nat p) \<and> p < 2 ^ 24"
  using translate_eq [OF assms(1), of d v] phys_bound [of s d v] by (simp add: phys_def mmu_entry_def e_def p_def)

theorem translate_is_paging_witness: "translate (boot 1 []) True 0x0123 = Inr (ExNone, 0x91)"
  using translate_is_paging [where s = "boot 1 []" and d = True and v = "0x0123"] boot_wf [of 1 "[]"] by (simp add: zero_reg_def SprSize_def PhysMemSize_def)

text \<open>
  (C15) The bounds check of \<open>translate\<close> is off by one word: when the page of the program counter is
  mapped to physical page 0x60, the one just past memory, the first word of that page passes the check and the
  emulator panics with an index out of range, in user mode too, while every other word of the page
  gives the memory exception that it should.
\<close>

theorem translate_off_by_one:
  assumes "wf s" "ex s = 0" "unat (mmu_entry s False (pc s)) mod 4096 = 0x60"
  shows "if unat (pc s) mod 4096 = 0
    then translate s False (pc s) = Inr (ExNone, of_nat PhysMemSize) \<and> stages s = Inl IndexOutOfRange
    else stages s = Inr (s\<lparr>ex := ExMemory\<rparr>)"
proof -
  have p: "phys s False (pc s) = PhysMemSize + unat (pc s) mod 4096" using assms(3) by (simp add: phys_def PhysMemSize_def)
  show ?thesis
  proof (cases "unat (pc s) mod 4096 = 0")
    case True
    then have t: "translate s False (pc s) = Inr (ExNone, of_nat PhysMemSize)" using translate_eq [OF assms(1), of False "pc s"] p by simp
    then show ?thesis using True assms(2) by (simp add: stages_def fetch_def mem_get_def PhysMemSize_def)
  next
    case False
    then show ?thesis using p fetch_fault [OF assms(1,2)] by simp
  qed
qed

theorem translate_off_by_one_witness:
  "\<exists>s. mode s = of_nat User \<and> stages s = Inl IndexOutOfRange \<and> stages (s\<lparr>pc := 1\<rparr>) = Inr (s\<lparr>pc := 1, ex := ExMemory\<rparr>)"
proof -
  let ?s = "(boot 1 [])\<lparr>reg := put_spr [zero_reg, zero_reg] 1 32 0x60\<rparr>"
  have "wf ?s" "wf (?s\<lparr>pc := 1\<rparr>)" by (simp_all add: wf_def wf_zero_regs)
  then have "stages ?s = Inl IndexOutOfRange" "stages (?s\<lparr>pc := 1\<rparr>) = Inr (?s\<lparr>pc := 1, ex := ExMemory\<rparr>)"
    using translate_off_by_one [of ?s] translate_off_by_one [of "?s\<lparr>pc := 1\<rparr>"]
    by (simp_all add: mmu_entry_def put_spr_def zero_reg_def SprSize_def)
  then show ?thesis by (intro exI [of _ ?s]) simp
qed

section \<open>The simulation loop\<close>

text \<open>
  (C7) The simulation loop runs the architecture: without the debugger, and as long as the steps are covered
  as in the property above, the loop returns exactly when the abstract machine with the departures
  stops, at a halt or at an exception with interrupts off, and then with that machine's state; when the
  abstract machine never stops, neither does the loop.
\<close>

theorem simulation_runs_architecture:
  fixes s :: emu
  defines "st n \<equiv> (emul_step ^^ n) (arch_of s)"
  assumes "sim_inv s" "\<not> dbEnabled s" "\<And>k. \<forall>j \<le> k. \<not> stopped (st j) \<Longrightarrow> covered (take_trap (st k))"
  shows "(\<forall>n. stopped (st n) \<and> (\<forall>j < n. \<not> stopped (st j)) \<longrightarrow> (\<exists>t. sim_loop s = Some (Inr t) \<and> arch_of t = st n))
    \<and> ((\<forall>n. \<not> stopped (st n)) \<longrightarrow> sim_loop s = None)"
proof -
  have s: "wf s" "ex s = 0 \<or> en s" using assms(2) by (auto simp: sim_inv_def)
  have "\<exists>t. sim_loop s = Some (Inr t) \<and> arch_of t = st n" if "stopped (st n)" "\<forall>j < n. \<not> stopped (st j)" for n
    unfolding st_def
  proof (rule sim_loop_stops [OF s(1) assms(3) s(2)])
    show "\<forall>j < n. \<not> stopped ((emul_step ^^ j) (arch_of s)) \<and> covered (take_trap ((emul_step ^^ j) (arch_of s)))"
      using that(2) assms(4) unfolding st_def by auto
  qed (use that(1) in \<open>simp add: st_def\<close>)
  moreover have "sim_loop s = None" if "\<forall>n. \<not> stopped (st n)"
    using that assms(4) unfolding st_def by (intro sim_loop_endless s(1) assms(3)) auto
  ultimately show ?thesis by blast
qed

theorem simulation_runs_architecture_witness:
  "\<exists>t. sim_loop (boot 0 [0xFFFC]) = Some (Inr t) \<and> \<not> run t \<and> pc t = 1"
proof -
  let ?s = "boot 0 [0xFFFC]"
  have i: "inst_of 0xFFFC = Vop Hlt" using inst_of_encode [of "Vop Hlt"] by (simp add: enc_f_def cat_def)
  have c: "covered (take_trap (arch_of ?s))" "next_inst (take_trap (arch_of ?s)) = Some (Vop Hlt)"
    using boot_covered [of 0 "0xFFFC" "[]"] by (simp_all add: i plain_def)
  have e: "emul_step (arch_of ?s) = (arch_of ?s)\<lparr>apc := 1, running := False\<rparr>"
    using c(2) by (simp add: emul_step_def take_trap_def privileged_def)
  have f: "\<not> stopped (arch_of ?s)" "stopped (emul_step (arch_of ?s))" by (simp_all add: stopped_def e)
  have "covered (take_trap ((emul_step ^^ k) (arch_of ?s)))" if "\<forall>j \<le> k. \<not> stopped ((emul_step ^^ j) (arch_of ?s))" for k
    using that c(1) f(2) by (cases k) (auto dest: spec [of _ 1])
  then have "\<exists>t. sim_loop ?s = Some (Inr t) \<and> arch_of t = (emul_step ^^ 1) (arch_of ?s)"
    using simulation_runs_architecture [of ?s] f by (auto simp: sim_inv_def boot_wf dest: spec [of _ 1])
  then obtain t where t: "sim_loop ?s = Some (Inr t)" "arch_of t = (arch_of ?s)\<lparr>apc := 1, running := False\<rparr>" by (auto simp: e)
  have "running (arch_of t) = False" "apc (arch_of t) = 1" unfolding t(2) by simp_all
  then show ?thesis using t(1) by simp
qed

lemma ends_expected:
  assumes "ends t (Inl p)" "sim_inv t" shows "expected p"
  using assms(1)
proof (cases rule: ends.cases)
  case crashed
  with assms(2) expected_stages [of t] show ?thesis by (auto simp: sim_inv_def dest: panicED)
next
  case (dump_crashed s1)
  with expected_dump [of s1] show ?thesis by (auto dest: panicED)
qed

text \<open>
  (C6) From a well-formed machine the loop never ends in a decode failure or in the assertion about
  a double fault in \<open>fetch\<close>: its only panics are an index out of range and the missing case of
  \<open>loadSpecial\<close>.
\<close>

theorem simulation_panics:
  assumes "sim_inv s" "sim_loop s = Some (Inl p)"
  shows "p = IndexOutOfRange \<or> p = AssertionFailure ''missing case in loadSpecial()''"
proof -
  obtain t where "cycle\<^sup>*\<^sup>* s t" "ends t (Inl p)" using sim_loop_result [OF assms(2)] by blast
  with reachable_inv [of s t] assms(1) ends_expected show ?thesis by (auto simp: expected_def)
qed

text \<open>A kernel that reads special register 24: \<open>adi r2, r0, 24\<close>, then \<open>lsp r1, r2\<close>.\<close>

lemma lsp24_crashes: "sim_loop (boot 0 [0xA602, 0xFE11]) = Some (Inl (AssertionFailure ''missing case in loadSpecial()''))"
  by (subst sim_loop.simps, simp add: cycle_eval, subst sim_loop.simps,
      simp add: cycle_eval yops_def lsp_def loadSpecial_def)

lemma boot_inv: "unat m < 2 \<Longrightarrow> sim_inv (boot m ws)"
  by (simp add: sim_inv_def boot_wf)

theorem simulation_panics_witness:
  "\<exists>p. sim_loop (boot 0 [0xA602, 0xFE11]) = Some (Inl p) \<and> (p = IndexOutOfRange \<or> p = AssertionFailure ''missing case in loadSpecial()'')"
  using simulation_panics [OF boot_inv lsp24_crashes] lsp24_crashes by simp

section \<open>Dumping\<close>

lemma mapE_Inl: "f x = Inl e \<Longrightarrow> mapE f (x # xs) = Inl e"
  by simp

lemma spr_rows_total:
  assumes "wf_regs (reg s)" "m < 2" shows "\<exists>t. spr_rows s m = Inr t"
proof -
  have "mapE (spr_get s m) [8 * row..<8 * row + 8] = Inr (map (\<lambda>i. spr (reg s ! m) ! i) [8 * row..<8 * row + 8])"
    if "row < 8" for row
    using assms that by (intro mapE_total) (auto simp: spr_get_ok)
  then have "mapE (\<lambda>row. mapE (spr_get s m) [8 * row..<8 * row + 8]) [0..<8]
      = Inr (map (\<lambda>row. map (\<lambda>i. spr (reg s ! m) ! i) [8 * row..<8 * row + 8]) [0..<8])"
    by (rule mapE_total) simp
  then show ?thesis by (simp only: spr_rows_def bindE_simps) blast
qed

lemma and_not_7: "unat ((x :: u32) AND NOT 7) = 8 * (unat x div 8)"
proof -
  have "(7 :: u32) = mask 3" by (simp add: mask_eq_exp_minus_1)
  then have "x AND NOT 7 = push_bit 3 (drop_bit 3 x)"
    by (intro bit_word_eqI) (simp only: bit_and_iff bit_not_iff bit_mask_iff bit_push_bit_iff bit_drop_bit_eq, auto dest: bit_imp_le_length)
  moreover have "unat (push_bit 3 (drop_bit 3 x)) = take_bit LENGTH(32) (push_bit 3 (drop_bit 3 (unat x)))"
    by (simp only: unsigned_push_bit_eq unat_drop_bit_eq)
  moreover have "8 * (unat x div 8) < 2 ^ 32"
  proof -
    have "unat x < 2 ^ LENGTH(32)" by (rule unsigned_less)
    then show ?thesis by simp
  qed
  ultimately show ?thesis by (simp add: push_bit_eq_mult drop_bit_eq_div take_bit_nat_eq_self_iff mult.commute)
qed

lemma dump_fetch_fault:
  assumes "wf s" "phys s False (pc s) > PhysMemSize"
  shows "dump s = Inl IndexOutOfRange"
proof -
  have w: "wf_regs (reg s)" "unat (mode s) < 2" using assms(1) by (simp_all add: wf_def)
  let ?p = "phys s False (pc s)"
  have t: "translate s False (pc s) = Inr (ExMemory, of_nat ?p)" using translate_eq [OF assms(1), of False "pc s"] assms(2) by simp
  have u: "unat (of_nat ?p :: u32) = ?p" using phys_bound [of s False "pc s"] by (simp add: unat_of_nat)
  have "unat (of_nat ?p AND NOT 7 :: u32) \<ge> PhysMemSize"
    using assms(2) by (simp only: and_not_7 u) (simp add: PhysMemSize_def)
  then have "mem_get s (of_nat ?p AND NOT 7) = Inl IndexOutOfRange" by (simp add: mem_get_def)
  then have m: "mem_row s (of_nat ?p AND NOT 7) = Inl IndexOutOfRange"
    by (simp add: mem_row_def upt_conv_Cons)
  obtain k v where "spr_rows s Kern = Inr k" "spr_rows s User = Inr v"
    using spr_rows_total [OF w(1)] by fastforce
  then show ?thesis
    using w by (simp add: dump_def dump_text_def t dump_pc_line_def m [simplified])
qed

text \<open>
  (C16) A machine whose program counter lies outside physical memory cannot be dumped: \<open>dump\<close> prints
  the fault and then indexes memory with the faulting address all the same, so the report after a
  double fault in the fetch of an instruction panics.
\<close>

theorem dump_after_fetch_fault_panics:
  assumes "wf s" "phys s False (pc s) > PhysMemSize" "\<not> qflag s"
  shows "sim_report timing s = Inl IndexOutOfRange"
  using dump_fetch_fault [OF assms(1,2)] assms(3) by (simp add: sim_report_def)

theorem dump_after_fetch_fault_panics_witness:
  "sim_report (\<lambda>_. []) ((boot 0 [])\<lparr>qflag := False, reg := put_spr [zero_reg, zero_reg] 0 32 0xFFF\<rparr>) = Inl IndexOutOfRange"
  by (rule dump_after_fetch_fault_panics)
     (simp_all add: wf_def wf_regs_def phys_def mmu_entry_def put_spr_def zero_reg_def SprSize_def PhysMemSize_def)

section \<open>Loading, core files and whole programs\<close>

text \<open>
  (C10) Loading a binary of at most three 64-kilobyte segments puts byte \<open>i\<close> of the file at physical byte
  \<open>i\<close> for the kernel and 196608 + \<open>i\<close> for the user, little-endian in 16-bit words, and changes no word
  past the end of the file or before its start.
\<close>

theorem load_places_file:
  assumes "m = Kern \<or> m = User" "length d \<le> 196608"
  shows "\<exists>s'. load s m path (Inr (File (length d) d)) = Inr (None, s') \<and>
    (\<forall>i < length d. pbyte (physmem s') (m * 196608 + i) = d ! i) \<and>
    (\<forall>a. a < m * 98304 \<or> m * 98304 + (length d + 1) div 2 \<le> a \<longrightarrow> physmem s' a = physmem s a)"
proof -
  have m: "m < 2" using assms(1) by auto
  have "pbyte (place d (m * 98304) (physmem s)) (m * 196608 + i) = d ! i" if "i < length d" for i
    using pbyte_place [OF that, of "m * 98304" "physmem s"] by (simp add: mult.commute)
  then show ?thesis
    using load_ok [OF m, of d s path] assms(2) by (simp add: K_def place_outside)
qed

theorem load_places_file_witness:
  "\<exists>s'. load (boot 0 []) User ''u'' (Inr (File 3 [1, 2, 3])) = Inr (None, s') \<and> pbyte (physmem s') 196609 = 2"
  using load_places_file [of User "[1, 2, 3]" "boot 0 []" "''u''"] by (force simp: numeral_3_eq_3)

text \<open>
  (C11) A core file is the byte image of memory, so a core dumped after loading a binary contains the
  binary: the bytes of the file from offset 0 for the kernel, 196608 for the user.
\<close>

theorem load_core_roundtrip:
  assumes "m = Kern \<or> m = User" "length d \<le> 196608" "create_ok s"
  shows "\<exists>s' s'' img. load s m path (Inr (File (length d) d)) = Inr (None, s') \<and> core s' = (None, s'')
    \<and> corefile s'' = Some img \<and> length img = 786432 \<and> take (length d) (drop (m * 196608) img) = d"
proof -
  have m: "m < 2" using assms(1) by auto
  let ?s = "s\<lparr>physmem := place d (m * 98304) (physmem s)\<rparr>"
  have "take (length d) (drop (2 * (m * 98304)) (core_bytes (physmem ?s))) = d"
    using core_place [of "m * 98304" d "physmem s"] assms(1,2) by (auto simp: PhysMemSize_def)
  moreover have "load s m path (Inr (File (length d) d)) = Inr (None, ?s)"
    using load_ok [OF m, of d s path] assms(2) by (simp add: K_def)
  moreover have "core ?s = (None, ?s\<lparr>corefile := Some (core_bytes (physmem ?s))\<rparr>)"
    using assms(3) by (simp add: core_def)
  ultimately show ?thesis
    using length_core_bytes [of "physmem ?s"] by (intro exI conjI) (auto simp: PhysMemSize_def mult.commute)
qed

theorem load_core_roundtrip_witness:
  "\<exists>s' s'' img. load (boot 0 []) Kern ''k'' (Inr (File 2 [0xFC, 0xFF])) = Inr (None, s') \<and> core s' = (None, s'')
     \<and> corefile s'' = Some img \<and> take 2 img = [0xFC, 0xFF]"
  using load_core_roundtrip [of Kern "[0xFC, 0xFF]" "boot 0 []" "''k''"]
  by (fastforce simp: boot_def init_emu_def numeral_2_eq_2)

text \<open>
  (C8) A whole run of the emulator: the binary that the assembler's rules give for \<open>ldi rA, w\<close> followed
  by \<open>hlt\<close>, for any 16-bit value and any register but \<open>r0\<close>, loads, boots, runs and halts with the value
  in the kernel's register; the program returns without a panic.
\<close>

theorem ldi_program_runs:
  fixes a :: r3 and w :: u16
  assumes "a \<noteq> 0"
  defines "d \<equiv> assemble (ldi a w @ [Vop Hlt])"
  shows "\<exists>t. emul_main timing False (init_emu False h True inp cmd) path (Inr (File (length d) d)) [] uf = Some (Inr t)
    \<and> gen (reg t ! Kern) ! unat a = w"
proof -
  let ?p = "ldi a w @ [Vop Hlt]"
  let ?s0 = "init_emu False h True inp cmd"
  let ?s1 = "?s0\<lparr>physmem := place d 0 (physmem ?s0)\<rparr>"
  let ?r = "put_spr [zero_reg, zero_reg] Kern Imr 1"
  let ?s2 = "?s1\<lparr>cyc := 0, pc := 0, run := True, mode := 0, ex := 0, en := False, reg := ?r\<rparr>"
  let ?s3 = "?s2\<lparr>cyc := 1\<rparr>"
  have r0: "reg ?s0 = [zero_reg, zero_reg]" "physmem ?s0 = (\<lambda>_. 0)" "dbEnabled ?s0 = False" "qflag ?s0 = True"
    by (simp_all add: init_emu_def)
  have l: "length ?p = 3" by (simp add: ldi_def)
  have "length d = 6" unfolding d_def length_assemble l by simp
  then have ld: "load_or_die Kern path (Inr (File (length d) d)) ?s0 = Inr ?s1"
    using load_ok [of 0 d ?s0 path] by (simp add: load_or_die_def K_def)
  have w: "wf_regs ?r" by (simp add: wf_zero_regs)
  have rs: "reset ?s1 = Inr ?s2"
    by (simp add: reset_def r0 spr_set_ok wf_zero_regs)
  have z: "spr (?r ! 0) ! i = 0" if "32 \<le> i" "i < 64" for i
    using that wf_zero_regs by (simp add: put_spr_nth zero_reg_def SprSize_def)
  have "at_code ?p ?s3"
    using w by (simp add: at_code_def wf_def mmu_safe_def z r0 d_def place_assemble) (simp add: ldi_def)
  then obtain t where t: "sim_loop ?s3 = Some (Inr t)" "gen (reg t ! Kern) ! unat a = w" "qflag t = qflag ?s3"
    using assms(1) by (rule ldi_hlt_halts)
  have "simulate timing ?s2 = Some (Inr t)"
    using t by (simp add: simulate_def debug_start_def bind_run_def sim_report_def r0)
  then show ?thesis
    using t(2) unfolding emul_main_def bind_run_def ld by (simp add: r0(3) rs)
qed

theorem ldi_program_runs_witness:
  "\<exists>t. emul_main (\<lambda>_. []) False (init_emu False False True [] (\<lambda>_. Inl [])) ''k''
      (Inr (File (length (assemble (ldi 3 0xBEEF @ [Vop Hlt]))) (assemble (ldi 3 0xBEEF @ [Vop Hlt])))) [] (Inl []) = Some (Inr t)
    \<and> gen (reg t ! Kern) ! 3 = 0xBEEF"
  using ldi_program_runs [where a = 3 and w = "0xBEEF" and timing = "\<lambda>_. []" and h = False and inp = "[]"
      and cmd = "\<lambda>_. Inl []" and path = "''k''" and uf = "Inl []"] by simp
end
