(* ===== verification/Dsm.thy ===== *)
theory Dsm
  imports ISA Dump "HOL-Library.Char_ord"
begin

text \<open>
  The disassembler (\<open>dsm/dsm.go\<close>). A file is its list of bytes; output is a string. The functions
  of \<open>strings\<close> and \<open>strconv\<close> that \<open>main\<close> calls on the \<open>-f\<close> argument are written out. Index
  expressions on the instruction list keep Go's bounds check; the register names are indexed by
  three-bit fields.
\<close>

section \<open>The opcode table\<close>

record KeyEntry =
  name :: string
  nbits :: nat
  opcode :: u16
  signature :: u16

abbreviation (input) RRI :: u16 where "RRI \<equiv> 1"
abbreviation (input) RJX :: u16 where "RJX \<equiv> 2"
abbreviation (input) RRR :: u16 where "RRR \<equiv> 3"
abbreviation (input) RRX :: u16 where "RRX \<equiv> 5"
abbreviation (input) RXX :: u16 where "RXX \<equiv> 6"
abbreviation (input) XXX :: u16 where "XXX \<equiv> 7"

definition RegNames :: "string list" where
  "RegNames = [''r0'', ''r1'', ''r2'', ''r3'', ''r4'', ''r5'', ''r6'', ''r7'']"

definition ke :: "string \<Rightarrow> nat \<Rightarrow> u16 \<Rightarrow> u16 \<Rightarrow> KeyEntry" where
  "ke n b c sg = \<lparr>name = n, nbits = b, opcode = c, signature = sg\<rparr>"

definition KeyTable :: "KeyEntry list" where
  "KeyTable =
     [ke ''ldw'' 3 0x0000 RRI, ke ''ldb'' 3 0x2000 RRI, ke ''stw'' 3 0x4000 RRI, ke ''stb'' 3 0x6000 RRI,
      ke ''beq'' 3 0x8000 RRI, ke ''adi'' 3 0xA000 RRI, ke ''lui'' 3 0xC000 RJX, ke ''jlr'' 4 0xE000 RRI,
      ke ''add'' 7 0xF000 RRR, ke ''adc'' 7 0xF200 RRR, ke ''sub'' 7 0xF400 RRR, ke ''sbb'' 7 0xF600 RRR,
      ke ''bic'' 7 0xF800 RRR, ke ''bis'' 7 0xFA00 RRR, ke ''xor'' 7 0xFC00 RRR,
      ke ''lsp'' 10 0xFE00 RRX, ke ''lio'' 10 0xFE40 RRX, ke ''ssp'' 10 0xFE80 RRX, ke ''sio'' 10 0xFEC0 RRX,
      ke ''y04'' 10 0xFF00 RRX, ke ''y06'' 10 0xFF40 RRX, ke ''y06'' 10 0xFF80 XXX,
      ke ''not'' 13 0xFFC0 RXX, ke ''neg'' 13 0xFFC8 RXX, ke ''sxt'' 13 0xFFD0 RXX, ke ''swb'' 13 0xFFD8 RXX,
      ke ''lsr'' 13 0xFFE0 RXX, ke ''lsl'' 13 0xFFE8 RXX, ke ''asr'' 13 0xFFF0 RXX,
      ke ''rti'' 16 0xFFF8 XXX, ke ''rtl'' 16 0xFFF9 XXX, ke ''di '' 16 0xFFFA XXX, ke ''ei '' 16 0xFFFB XXX,
      ke ''hlt'' 16 0xFFFC XXX, ke ''brk'' 16 0xFFFD XXX, ke ''v06'' 16 0xFFFE XXX, ke ''die'' 16 0xFFFF XXX]"

section \<open>Decoding one instruction\<close>

definition dsm_bits :: "u16 \<Rightarrow> u16 \<Rightarrow> u16 \<Rightarrow> u16" where
  "dsm_bits opc hi lo =
     (let b = hi - lo + 1; msk = push_bit (unat b) 1 - 1 in drop_bit (unat lo) opc AND msk)"

definition key_mask :: "KeyEntry \<Rightarrow> u16" where
  "key_mask k = push_bit (16 - nbits k) (push_bit (nbits k) 1 - 1)"

fun find_key :: "KeyEntry list \<Rightarrow> u16 \<Rightarrow> KeyEntry option" where
  "find_key [] opc = None"
| "find_key (k # ks) opc = (if opc AND key_mask k = opcode k AND key_mask k then Some k else find_key ks opc)"

abbreviation (input) rname :: "u16 \<Rightarrow> u16 \<Rightarrow> u16 \<Rightarrow> string" where
  "rname opc hi lo \<equiv> RegNames ! unat (dsm_bits opc hi lo)"

text \<open>The verb \<open>%x\<close>: lower-case hexadecimal.\<close>

definition fmt_x :: "nat \<Rightarrow> string" where
  "fmt_x n = map (\<lambda>d. ''0123456789abcdef'' ! d) (to_digits 16 n)"

definition dsm_args :: "u16 \<Rightarrow> u16 \<Rightarrow> nat \<Rightarrow> string" where
  "dsm_args sg opc at =
     (if sg = RRI then
        (let im = dsm_bits opc 12 6
         in rname opc 2 0 @ '', '' @ rname opc 5 3 @ '', '' @
            (if dsm_bits opc 15 13 = 4 then fmt_d (unat (of_nat (unat im + at + 1) AND 0x7F :: u16))
             else ''0x'' @ fmt_X 2 (unat im)))
      else if sg = RJX then rname opc 2 0 @ '', 0x'' @ fmt_X 3 (unat (dsm_bits opc 12 3))
      else if sg = RRR then rname opc 2 0 @ '', '' @ rname opc 5 3 @ '', '' @ rname opc 8 6
      else if sg = RRX then rname opc 2 0 @ '', '' @ rname opc 5 3
      else if sg = RXX then rname opc 2 0
      else if sg = XXX then []
      else ''internal error: unknown signature 0x'' @ fmt_x (unat sg))"

definition dsm_decode :: "u16 \<Rightarrow> nat \<Rightarrow> string" where
  "dsm_decode opc at =
     (case find_key KeyTable opc of
        None \<Rightarrow> ''internal error: opcode not found''
      | Some k \<Rightarrow> name k @ '' '' @ dsm_args (signature k) opc at)"

section \<open>The passes over a file\<close>

fun forEachInst :: "(nat \<Rightarrow> u16 \<Rightarrow> u16 \<Rightarrow> 'a \<Rightarrow> panic + 'a) \<Rightarrow> u8 list \<Rightarrow> nat \<Rightarrow> u16 \<Rightarrow> 'a \<Rightarrow> panic + 'a" where
  "forEachInst f (lo # hi # rest) at prevInst acc =
     (let instr = ucast lo OR push_bit 8 (ucast hi)
      in if \<not> at < 64 * 1024 \<or> instr = 0 then Inr acc
         else bindE (f at prevInst instr acc) (forEachInst f rest (at + 1) instr))"
| "forEachInst f _ at prevInst acc = Inr acc"

definition set_at :: "nat \<Rightarrow> string \<Rightarrow> string list \<Rightarrow> panic + string list" where
  "set_at at t instructions = upd instructions at t"

text \<open>\<open>instructions[at-1] = ""\<close>, then \<open>instructions[at] = t\<close>.\<close>

definition set_hiding :: "nat \<Rightarrow> string \<Rightarrow> string list \<Rightarrow> panic + string list" where
  "set_hiding at t instructions =
     (if at = 0 then Inl IndexOutOfRange
      else bindE (upd instructions (at - 1) []) (set_at at t))"

definition wide_imm :: "u16 \<Rightarrow> u16 \<Rightarrow> u16" where
  "wide_imm prevInst instr = push_bit 6 (dsm_bits prevInst 12 3) OR dsm_bits instr 12 6"

definition condense_adi :: "nat \<Rightarrow> u16 \<Rightarrow> u16 \<Rightarrow> string list \<Rightarrow> panic + string list" where
  "condense_adi at prevInst instr is =
     (if dsm_bits instr 12 12 = 0 then
        (if dsm_bits prevInst 15 13 = 6
         then set_hiding at (''ldi '' @ rname instr 2 0 @ '', 0x'' @ fmt_X 4 (unat (wide_imm prevInst instr))) is
         else set_at at (''lli '' @ rname instr 2 0 @ '', 0x'' @ fmt_X 2 (unat (dsm_bits instr 12 6))) is)
      else set_at at (''adi '' @ rname instr 2 0 @ '', '' @ rname instr 5 3 @ '', 0x''
             @ fmt_X 2 (unat (dsm_bits instr 12 6))) is)"

definition illegal_text :: "u16 \<Rightarrow> string" where
  "illegal_text instr = ''die ; ILLEGAL OPCODE 0x'' @ fmt_X 4 (unat instr)"

definition condense_jump :: "string \<Rightarrow> (u16 \<Rightarrow> string) \<Rightarrow> nat \<Rightarrow> u16 \<Rightarrow> u16 \<Rightarrow> string list \<Rightarrow> panic + string list" where
  "condense_jump mn fmt at prevInst instr is =
     (let rb = dsm_bits instr 5 3; im = dsm_bits instr 12 6
      in if dsm_bits prevInst 15 13 = 6 \<and> rb = dsm_bits prevInst 2 0
         then set_hiding at (mn @ '' '' @ rname instr 5 3 @ '', '' @ fmt (wide_imm prevInst instr)) is
         else if im = 0 \<and> rb \<noteq> 0 then set_at at (mn @ '' '' @ rname instr 5 3) is
         else Inr is)"

definition condense_jlr :: "nat \<Rightarrow> u16 \<Rightarrow> u16 \<Rightarrow> string list \<Rightarrow> panic + string list" where
  "condense_jlr at prevInst instr is =
     (let rb = dsm_bits instr 5 3; im = dsm_bits instr 12 6; j = dsm_bits instr 2 0
      in if j = 0 then
           (if rb \<noteq> 0 \<or> im AND 1 \<noteq> 0 then set_at at (illegal_text instr) is
            else set_at at (''sys '' @ fmt_d (unat im)) is)
         else if j = 1 then condense_jump ''jsr'' (\<lambda>w. ''0x'' @ fmt_X 4 (unat w)) at prevInst instr is
         else if j = 2 then condense_jump ''jmp'' (\<lambda>w. fmt_d (unat w)) at prevInst instr is
         else set_at at (illegal_text instr) is)"

definition condense :: "nat \<Rightarrow> u16 \<Rightarrow> u16 \<Rightarrow> string list \<Rightarrow> panic + string list" where
  "condense at prevInst instr is =
     (if dsm_bits instr 15 13 = 5 \<and> dsm_bits instr 5 3 = dsm_bits instr 2 0 \<and> dsm_bits instr 2 0 \<noteq> 0
      then condense_adi at prevInst instr is
      else if dsm_bits instr 15 12 = 0xE then condense_jlr at prevInst instr is
      else if instr = 0xFFC8 then set_at at ''nop'' is
      else Inr is)"

definition pass1 :: "u8 list \<Rightarrow> panic + string list" where
  "pass1 f = forEachInst (\<lambda>at prevInst instr is. Inr (is @ [dsm_decode instr at])) f 0 0 []"

definition pass2 :: "u8 list \<Rightarrow> string list \<Rightarrow> panic + string list" where
  "pass2 f = forEachInst condense f 0 0"

definition fmt_dw :: "nat \<Rightarrow> nat \<Rightarrow> string" where
  "fmt_dw w n = fmt_s w (fmt_d n)"

definition long_line :: "nat \<Rightarrow> u16 \<Rightarrow> string \<Rightarrow> string" where
  "long_line at instr t = fmt_dw 5 at @ '': 0x'' @ fmt_X 4 (unat instr) @ '': '' @ t @ newline"

definition pass3 :: "bool \<Rightarrow> u8 list \<Rightarrow> string list \<Rightarrow> panic + string" where
  "pass3 q f is =
     (if q then Inr (concat (map (\<lambda>t. t @ newline) (filter (\<lambda>t. length t > 0) is)))
      else forEachInst (\<lambda>at prevInst instr out. bindE (idx is at) (\<lambda>t. Inr (out @ long_line at instr t))) f 0 0 [])"

definition disassemble :: "bool \<Rightarrow> u8 list \<Rightarrow> panic + string" where
  "disassemble q f = bindE (pass1 f) (\<lambda>is1. bindE (pass2 f is1) (pass3 q f))"

section \<open>The command line\<close>

text \<open>\<open>strings.Split\<close> with a one-character separator.\<close>

fun split_on :: "char \<Rightarrow> string \<Rightarrow> string list" where
  "split_on c [] = [[]]"
| "split_on c (x # xs) =
     (if x = c then [] # split_on c xs
      else case split_on c xs of [] \<Rightarrow> [[x]] | p # ps \<Rightarrow> (x # p) # ps)"

text \<open>\<open>strconv.ParseUint(s, 0, 16)\<close>: a base prefix, underscores between digits, at most 65535.\<close>

definition lower :: "char \<Rightarrow> char" where
  "lower c = (if CHR ''A'' \<le> c \<and> c \<le> CHR ''Z'' then char_of (of_char c + 32 :: nat) else c)"

definition digit_val :: "char \<Rightarrow> nat option" where
  "digit_val c =
     (if CHR ''0'' \<le> c \<and> c \<le> CHR ''9'' then Some (of_char c - 48)
      else if CHR ''a'' \<le> lower c \<and> lower c \<le> CHR ''z'' then Some (of_char (lower c) - 97 + 10)
      else None)"

fun parse_loop :: "nat \<Rightarrow> string \<Rightarrow> nat \<Rightarrow> bool \<Rightarrow> (nat \<times> bool) option" where
  "parse_loop base [] n us = Some (n, us)"
| "parse_loop base (c # cs) n us =
     (if c = CHR ''_'' then parse_loop base cs n True
      else case digit_val c of
        None \<Rightarrow> None
      | Some d \<Rightarrow>
          if d \<ge> base \<or> n * base + d > 65535 then None else parse_loop base cs (n * base + d) us)"

text \<open>The states of \<open>underscoreOK\<close>: the start, after a digit, after an underscore, after anything else.\<close>

datatype saw = SawStart | SawDigit | SawUnderscore | SawOther

fun underscore_loop :: "bool \<Rightarrow> string \<Rightarrow> saw \<Rightarrow> bool" where
  "underscore_loop hx [] sw = (sw \<noteq> SawUnderscore)"
| "underscore_loop hx (c # cs) sw =
     (if CHR ''0'' \<le> c \<and> c \<le> CHR ''9'' \<or> hx \<and> CHR ''a'' \<le> lower c \<and> lower c \<le> CHR ''f''
      then underscore_loop hx cs SawDigit
      else if c = CHR ''_'' then sw = SawDigit \<and> underscore_loop hx cs SawUnderscore
      else sw \<noteq> SawUnderscore \<and> underscore_loop hx cs SawOther)"

definition underscoreOK :: "string \<Rightarrow> bool" where
  "underscoreOK s0 =
     (let s = (if s0 \<noteq> [] \<and> (hd s0 = CHR ''-'' \<or> hd s0 = CHR ''+'') then tl s0 else s0)
      in if length s \<ge> 2 \<and> s ! 0 = CHR ''0'' \<and> lower (s ! 1) \<in> {CHR ''b'', CHR ''o'', CHR ''x''}
         then underscore_loop (lower (s ! 1) = CHR ''x'') (drop 2 s) SawDigit
         else underscore_loop False s SawStart)"

definition ParseUint16 :: "string \<Rightarrow> nat option" where
  "ParseUint16 s0 =
     (if s0 = [] then None
      else let (base, s) =
             (if s0 ! 0 \<noteq> CHR ''0'' then (10, s0)
              else if length s0 \<ge> 3 \<and> lower (s0 ! 1) = CHR ''b'' then (2, drop 2 s0)
              else if length s0 \<ge> 3 \<and> lower (s0 ! 1) = CHR ''o'' then (8, drop 2 s0)
              else if length s0 \<ge> 3 \<and> lower (s0 ! 1) = CHR ''x'' then (16, drop 2 s0)
              else (8, drop 1 s0))
      in case parse_loop base s 0 False of
           None \<Rightarrow> None
         | Some (n, us) \<Rightarrow> if us \<and> \<not> underscoreOK s0 then None else Some n)"

text \<open>The fast path: an instruction and its address, \<open>op@pc\<close>. The result is the exit status and
  what goes to standard output.\<close>

definition fast :: "string \<Rightarrow> nat \<times> string" where
  "fast arg =
     (case split_on CHR 0x40 arg of
        [o1, p1] \<Rightarrow>
          (case ParseUint16 o1 of
             None \<Rightarrow> (1, ''invalid instruction: '' @ o1 @ newline)
           | Some opc \<Rightarrow>
               (case ParseUint16 p1 of
                  None \<Rightarrow> (1, ''invalid PC: '' @ p1 @ newline)
                | Some at \<Rightarrow> (0, dsm_decode (of_nat opc) at @ newline)))
      | _ \<Rightarrow> (1, ''invalid argument: '' @ arg @ newline))"

definition dsm_main :: "bool \<Rightarrow> string \<Rightarrow> string list \<Rightarrow> (string \<Rightarrow> string + u8 list) \<Rightarrow> panic + (nat \<times> string)" where
  "dsm_main q fflag args open_file =
     (if length fflag > 0 then Inr (fast fflag)
      else case args of
        [path] \<Rightarrow>
          (case open_file path of
             Inl err \<Rightarrow> Inr (2, [])
           | Inr f \<Rightarrow> bindE (disassemble q f) (\<lambda>out. Inr (0, out)))
      | _ \<Rightarrow> Inr (1, []))"

section \<open>The disassembler's bit fields are the emulator's\<close>

lemma dsm_bits_eq [simp]:
  "dsm_bits w 15 13 = bits w 15 13" "dsm_bits w 15 12 = bits w 15 12" "dsm_bits w 12 12 = bits w 12 12"
  "dsm_bits w 12 6 = bits w 12 6" "dsm_bits w 12 3 = bits w 12 3" "dsm_bits w 8 6 = bits w 8 6"
  "dsm_bits w 5 3 = bits w 5 3" "dsm_bits w 2 0 = bits w 2 0"
  by (simp_all add: dsm_bits_def bits_def Let_def)

lemma key_match:
  assumes "b \<le> 16"
  shows "w AND key_mask (ke n b c sg) = opcode (ke n b c sg) AND key_mask (ke n b c sg)
    \<longleftrightarrow> drop_bit (16 - b) w = drop_bit (16 - b) c"
proof -
  have m: "bit (push_bit (16 - b) (push_bit b 1 - 1) :: u16) i \<longleftrightarrow> 16 - b \<le> i \<and> i < 16" for i
    using assms unfolding shift_mask by (auto simp: bit_push_bit_iff bit_mask_iff)
  have "w AND push_bit (16 - b) (push_bit b 1 - 1) = c AND push_bit (16 - b) (push_bit b 1 - 1)
      \<longleftrightarrow> (\<forall>i. 16 - b \<le> i \<and> i < 16 \<longrightarrow> bit w i = bit c i)"
    by (simp only: bit_eq_iff bit_and_iff m) (auto dest: bit_imp_le_length)
  also have "\<dots> \<longleftrightarrow> (\<forall>i. bit w (16 - b + i) = bit c (16 - b + i))"
  proof
    assume h: "\<forall>i. 16 - b \<le> i \<and> i < 16 \<longrightarrow> bit w i = bit c i"
    show "\<forall>i. bit w (16 - b + i) = bit c (16 - b + i)"
    proof
      fix i show "bit w (16 - b + i) = bit c (16 - b + i)"
        using h bit_imp_le_length [of w "16 - b + i"] bit_imp_le_length [of c "16 - b + i"]
        by (cases "16 - b + i < 16") auto
    qed
  next
    assume h: "\<forall>i. bit w (16 - b + i) = bit c (16 - b + i)"
    show "\<forall>i. 16 - b \<le> i \<and> i < 16 \<longrightarrow> bit w i = bit c i"
      using h by (metis le_add_diff_inverse)
  qed
  also have "\<dots> \<longleftrightarrow> drop_bit (16 - b) w = drop_bit (16 - b) c"
  proof
    assume "\<forall>i. bit w (16 - b + i) = bit c (16 - b + i)"
    then show "drop_bit (16 - b) w = drop_bit (16 - b) c"
      by (intro bit_word_eqI) (simp add: bit_drop_bit_eq)
  next
    assume "drop_bit (16 - b) w = drop_bit (16 - b) c"
    then have "bit (drop_bit (16 - b) w) i = bit (drop_bit (16 - b) c) i" for i by simp
    then show "\<forall>i. bit w (16 - b + i) = bit c (16 - b + i)" by (simp add: bit_drop_bit_eq)
  qed
  finally show ?thesis by (simp add: key_mask_def ke_def)
qed

text \<open>Which row of the table a word selects, by its leading bits.\<close>

lemma find_key_cons:
  "b \<le> 16 \<Longrightarrow> find_key (ke n b c sg # ks) w =
     (if drop_bit (16 - b) w = drop_bit (16 - b) c then Some (ke n b c sg) else find_key ks w)"
  by (simp only: find_key.simps key_match)

lemma find_key_table:
  "find_key KeyTable w =
    (let a = drop_bit 13 w; j = drop_bit 12 w; x = drop_bit 9 w; y = drop_bit 6 w; z = drop_bit 3 w in
     if a = 0 then Some (ke ''ldw'' 3 0x0000 RRI) else if a = 1 then Some (ke ''ldb'' 3 0x2000 RRI)
     else if a = 2 then Some (ke ''stw'' 3 0x4000 RRI) else if a = 3 then Some (ke ''stb'' 3 0x6000 RRI)
     else if a = 4 then Some (ke ''beq'' 3 0x8000 RRI) else if a = 5 then Some (ke ''adi'' 3 0xA000 RRI)
     else if a = 6 then Some (ke ''lui'' 3 0xC000 RJX) else if j = 0xE then Some (ke ''jlr'' 4 0xE000 RRI)
     else if x = 0x78 then Some (ke ''add'' 7 0xF000 RRR) else if x = 0x79 then Some (ke ''adc'' 7 0xF200 RRR)
     else if x = 0x7A then Some (ke ''sub'' 7 0xF400 RRR) else if x = 0x7B then Some (ke ''sbb'' 7 0xF600 RRR)
     else if x = 0x7C then Some (ke ''bic'' 7 0xF800 RRR) else if x = 0x7D then Some (ke ''bis'' 7 0xFA00 RRR)
     else if x = 0x7E then Some (ke ''xor'' 7 0xFC00 RRR)
     else if y = 0x3F8 then Some (ke ''lsp'' 10 0xFE00 RRX) else if y = 0x3F9 then Some (ke ''lio'' 10 0xFE40 RRX)
     else if y = 0x3FA then Some (ke ''ssp'' 10 0xFE80 RRX) else if y = 0x3FB then Some (ke ''sio'' 10 0xFEC0 RRX)
     else if y = 0x3FC then Some (ke ''y04'' 10 0xFF00 RRX) else if y = 0x3FD then Some (ke ''y06'' 10 0xFF40 RRX)
     else if y = 0x3FE then Some (ke ''y06'' 10 0xFF80 XXX)
     else if z = 0x1FF8 then Some (ke ''not'' 13 0xFFC0 RXX) else if z = 0x1FF9 then Some (ke ''neg'' 13 0xFFC8 RXX)
     else if z = 0x1FFA then Some (ke ''sxt'' 13 0xFFD0 RXX) else if z = 0x1FFB then Some (ke ''swb'' 13 0xFFD8 RXX)
     else if z = 0x1FFC then Some (ke ''lsr'' 13 0xFFE0 RXX) else if z = 0x1FFD then Some (ke ''lsl'' 13 0xFFE8 RXX)
     else if z = 0x1FFE then Some (ke ''asr'' 13 0xFFF0 RXX)
     else if w = 0xFFF8 then Some (ke ''rti'' 16 0xFFF8 XXX) else if w = 0xFFF9 then Some (ke ''rtl'' 16 0xFFF9 XXX)
     else if w = 0xFFFA then Some (ke ''di '' 16 0xFFFA XXX) else if w = 0xFFFB then Some (ke ''ei '' 16 0xFFFB XXX)
     else if w = 0xFFFC then Some (ke ''hlt'' 16 0xFFFC XXX) else if w = 0xFFFD then Some (ke ''brk'' 16 0xFFFD XXX)
     else if w = 0xFFFE then Some (ke ''v06'' 16 0xFFFE XXX) else if w = 0xFFFF then Some (ke ''die'' 16 0xFFFF XXX)
     else None)"
  unfolding KeyTable_def Let_def by (simp add: find_key_cons del: find_key.simps(2) cong: if_cong split del: if_split)

end
