(* ===== verification/Dsm_Print.thy ===== *)
theory Dsm_Print
  imports Dsm
begin

text \<open>
  What the disassembler prints for one word: a reference printer over the machine instructions,
  the proof that the search of the opcode table prints the same, and the emulator's call of the
  disassembler.
\<close>

section \<open>A reference printer\<close>

text \<open>What an instruction looks like in the listing, written over the instruction and not over
  its bits or the table. Two rows of the table are kept as they are: \<open>y05\<close> prints as \<open>y06\<close>, and
  \<open>y06\<close> prints without operands.\<close>

definition rn :: "r3 \<Rightarrow> string" where
  "rn r = RegNames ! unat r"

fun op3_name :: "op3 \<Rightarrow> string" where
  "op3_name Add = ''add''" | "op3_name Adc = ''adc''" | "op3_name Sub = ''sub''" | "op3_name Sbb = ''sbb''"
| "op3_name Bic = ''bic''" | "op3_name Bis = ''bis''" | "op3_name Xor = ''xor''"

fun yopc_name :: "yopc \<Rightarrow> string" where
  "yopc_name Lsp = ''lsp''" | "yopc_name Lio = ''lio''" | "yopc_name Ssp = ''ssp''" | "yopc_name Sio = ''sio''"
| "yopc_name Y04 = ''y04''" | "yopc_name Y05 = ''y06''" | "yopc_name Y06 = ''y06''"

fun op1_name :: "op1 \<Rightarrow> string" where
  "op1_name Not = ''not''" | "op1_name Neg = ''neg''" | "op1_name Sxt = ''sxt''" | "op1_name Swb = ''swb''"
| "op1_name Lsr = ''lsr''" | "op1_name Lsl = ''lsl''" | "op1_name Asr = ''asr''"

fun vopc_name :: "vopc \<Rightarrow> string" where
  "vopc_name Rti = ''rti''" | "vopc_name Rtl = ''rtl''" | "vopc_name Di = ''di ''" | "vopc_name Ei = ''ei ''"
| "vopc_name Hlt = ''hlt''" | "vopc_name Brk = ''brk''" | "vopc_name V06 = ''v06''" | "vopc_name Die = ''die''"

definition rri_text :: "string \<Rightarrow> r3 \<Rightarrow> r3 \<Rightarrow> string \<Rightarrow> string" where
  "rri_text mn a b im = mn @ '' '' @ rn a @ '', '' @ rn b @ '', '' @ im"

definition hex :: "nat \<Rightarrow> nat \<Rightarrow> string" where
  "hex w n = ''0x'' @ fmt_X w n"

fun print_inst :: "inst \<Rightarrow> nat \<Rightarrow> string" where
  "print_inst (Ldw a b k) at = rri_text ''ldw'' a b (hex 2 (unat k))"
| "print_inst (Ldb a b k) at = rri_text ''ldb'' a b (hex 2 (unat k))"
| "print_inst (Stw a b k) at = rri_text ''stw'' a b (hex 2 (unat k))"
| "print_inst (Stb a b k) at = rri_text ''stb'' a b (hex 2 (unat k))"
| "print_inst (Beq a b k) at = rri_text ''beq'' a b (fmt_d ((unat k + at + 1) mod 128))"
| "print_inst (Adi a b k) at = rri_text ''adi'' a b (hex 2 (unat k))"
| "print_inst (Lui a k) at = ''lui '' @ rn a @ '', '' @ hex 3 (unat k)"
| "print_inst (Jlr a b k) at = rri_text ''jlr'' a b (hex 2 (unat k))"
| "print_inst (Xop x a b c) at = rri_text (op3_name x) a b (rn c)"
| "print_inst (Yop y a b) at = (if y = Y06 then ''y06 '' else yopc_name y @ '' '' @ rn a @ '', '' @ rn b)"
| "print_inst (Zop z a) at = op1_name z @ '' '' @ rn a"
| "print_inst (Vop v) at = vopc_name v @ '' ''"

section \<open>The table prints what the reference printer prints\<close>

lemma unat_ucast16 [simp]: "LENGTH('a::len) \<le> 16 \<Longrightarrow> unat (ucast (f :: 'a word) :: u16) = unat f"
  by (rule unat_ucast_le) simp

lemma beq_target: "unat (of_nat n AND 0x7F :: u16) = n mod 128"
proof -
  have "(of_nat n AND 0x7F :: u16) = take_bit 7 (of_nat n)" by (simp add: take_bit_eq_mask mask_eq_exp_minus_1)
  then have "unat (of_nat n AND 0x7F :: u16) = take_bit 7 (take_bit 16 n)"
    by (simp only: unsigned_take_bit_eq) (simp add: unsigned_of_nat)
  then show ?thesis by (simp add: take_bit_eq_mod mod_mod_cancel)
qed

lemma rri_top:
  "opc = 0 \<or> opc = 1 \<or> opc = 2 \<or> opc = 3 \<or> opc = 4 \<or> opc = 5 \<Longrightarrow> drop_bit 13 (enc_rri opc a b k) = opc"
  using enc_rri_fields(1) [of opc a b k] by (simp add: bits_top)

lemma lui_top: "drop_bit 13 (cat (cat 6 (k :: 10 word)) (a :: r3)) = 6"
  using enc_lui_fields(1) [of k a] by (simp add: bits_top)

lemma jlr_top: "drop_bit 13 (encode (Jlr a b k)) = 7" "drop_bit 12 (encode (Jlr a b k)) = 0xE"
  using enc_jlr_fields(1,2) [of k b a] jlr_field [of "encode (Jlr a b k)"] by (simp_all add: bits_top)

lemma f_top:
  "drop_bit 13 (enc_f x c b a) = 7" "drop_bit 12 (enc_f x c b a) = 0xF"
  "drop_bit 9 (enc_f x c b a) = bits (cat 0xF x) 6 0"
  "drop_bit 6 (enc_f x c b a) = bits (cat (cat 0xF x) c) 9 0"
  "drop_bit 3 (enc_f x c b a) = bits (cat (cat (cat 0xF x) c) b) 12 0"
proof -
  show "drop_bit 13 (enc_f x c b a) = 7" "drop_bit 12 (enc_f x c b a) = 0xF"
    using enc_f_fields(1,2) [of x c b a] ones_split(1) [of "enc_f x c b a"] by (simp_all add: bits_top)
  have "bits (enc_f x c b a) 15 9 = bits (cat 0xF x) 6 0" "bits (enc_f x c b a) 15 6 = bits (cat (cat 0xF x) c) 9 0"
    "bits (enc_f x c b a) 15 3 = bits (cat (cat (cat 0xF x) c) b) 12 0"
    by (simp_all add: enc_f_def cat_fields)
  then show "drop_bit 9 (enc_f x c b a) = bits (cat 0xF x) 6 0"
    "drop_bit 6 (enc_f x c b a) = bits (cat (cat 0xF x) c) 9 0"
    "drop_bit 3 (enc_f x c b a) = bits (cat (cat (cat 0xF x) c) b) 12 0"
    by (simp_all add: bits_top)
qed

lemmas text_simps = rri_text_def hex_def rn_def dsm_args_def Let_def ke_def

lemma decode_rri:
  "dsm_decode (encode (Ldw a b k)) at = print_inst (Ldw a b k) at"
  "dsm_decode (encode (Ldb a b k)) at = print_inst (Ldb a b k) at"
  "dsm_decode (encode (Stw a b k)) at = print_inst (Stw a b k) at"
  "dsm_decode (encode (Stb a b k)) at = print_inst (Stb a b k) at"
  "dsm_decode (encode (Beq a b k)) at = print_inst (Beq a b k) at"
  "dsm_decode (encode (Adi a b k)) at = print_inst (Adi a b k) at"
  by (simp_all add: dsm_decode_def find_key_table rri_top text_simps enc_rri_fields beq_target [of "unat k + at + 1", simplified])

lemma decode_lui: "dsm_decode (encode (Lui a k)) at = print_inst (Lui a k) at"
  by (simp add: dsm_decode_def find_key_table lui_top text_simps enc_lui_fields)

lemma decode_jlr: "dsm_decode (encode (Jlr a b k)) at = print_inst (Jlr a b k) at"
  using jlr_top [of a b k]
  by (simp add: dsm_decode_def find_key_table text_simps enc_jlr_fields enc_jlr_imm)

lemma f_vals:
  "bits (cat 0xF (0 :: r3)) 6 0 = 0x78" "bits (cat 0xF (1 :: r3)) 6 0 = 0x79" "bits (cat 0xF (2 :: r3)) 6 0 = 0x7A"
  "bits (cat 0xF (3 :: r3)) 6 0 = 0x7B" "bits (cat 0xF (4 :: r3)) 6 0 = 0x7C" "bits (cat 0xF (5 :: r3)) 6 0 = 0x7D"
  "bits (cat 0xF (6 :: r3)) 6 0 = 0x7E" "bits 0x7F 6 0 = 0x7F" "cat 0xF (7 :: r3) = 0x7F"
  "bits (cat 0x7F (0 :: r3)) 9 0 = 0x3F8" "bits (cat 0x7F (1 :: r3)) 9 0 = 0x3F9" "bits (cat 0x7F (2 :: r3)) 9 0 = 0x3FA"
  "bits (cat 0x7F (3 :: r3)) 9 0 = 0x3FB" "bits (cat 0x7F (4 :: r3)) 9 0 = 0x3FC" "bits (cat 0x7F (5 :: r3)) 9 0 = 0x3FD"
  "bits (cat 0x7F (6 :: r3)) 9 0 = 0x3FE" "bits 0x3FF 9 0 = 0x3FF" "cat 0x7F (7 :: r3) = 0x3FF"
  "bits (cat 0x3FF (0 :: r3)) 12 0 = 0x1FF8" "bits (cat 0x3FF (1 :: r3)) 12 0 = 0x1FF9" "bits (cat 0x3FF (2 :: r3)) 12 0 = 0x1FFA"
  "bits (cat 0x3FF (3 :: r3)) 12 0 = 0x1FFB" "bits (cat 0x3FF (4 :: r3)) 12 0 = 0x1FFC" "bits (cat 0x3FF (5 :: r3)) 12 0 = 0x1FFD"
  "bits (cat 0x3FF (6 :: r3)) 12 0 = 0x1FFE" "bits (cat 0x3FF (7 :: r3)) 12 0 = 0x1FFF"
  by (simp_all add: bits_def cat_def)

lemmas f_simps = dsm_decode_def find_key_table f_top f_vals text_simps enc_f_fields

lemma decode_xop: "dsm_decode (encode (Xop x a b c)) at = print_inst (Xop x a b c) at"
  by (cases x) (simp_all add: f_simps split del: if_split)

lemma decode_yop: "dsm_decode (encode (Yop y a b)) at = print_inst (Yop y a b) at"
  by (cases y) (simp_all add: f_simps split del: if_split)

lemma decode_zop: "dsm_decode (encode (Zop z a)) at = print_inst (Zop z a) at"
  by (cases z) (simp_all add: f_simps split del: if_split)

lemma enc_vop: "enc_f 7 7 7 v = 0xFFF8 + ucast v"
  using r3_cases [of v] by (elim disjE) (simp_all add: enc_f_def cat_def)

lemma decode_vop: "dsm_decode (encode (Vop v)) at = print_inst (Vop v) at"
  by (cases v) (simp_all add: f_simps enc_vop split del: if_split)

lemma decode_print: "dsm_decode w at = print_inst (inst_of w) at"
proof -
  have "dsm_decode (encode i) at = print_inst i at" for i
    by (cases i) (simp_all only: decode_rri decode_lui decode_jlr decode_xop decode_yop decode_zop decode_vop)
  from this [of "inst_of w"] show ?thesis by (simp only: encode_inst_of)
qed

section \<open>The emulator's call of the disassembler\<close>

lemma digit_val_char: "d < 16 \<Longrightarrow> digit_val (digit_char d) = Some d" "d < 16 \<Longrightarrow> digit_char d \<noteq> CHR ''_''"
  "d < 16 \<Longrightarrow> digit_char d \<noteq> CHR 0x40"
proof -
  assume "d < 16"
  then have "d = 0 \<or> d = 1 \<or> d = 2 \<or> d = 3 \<or> d = 4 \<or> d = 5 \<or> d = 6 \<or> d = 7 \<or> d = 8 \<or> d = 9 \<or> d = 10
    \<or> d = 11 \<or> d = 12 \<or> d = 13 \<or> d = 14 \<or> d = 15" by arith
  then show "digit_val (digit_char d) = Some d" "digit_char d \<noteq> CHR ''_''" "digit_char d \<noteq> CHR 0x40"
    by (elim disjE; simp add: digit_char_def digit_chars_def digit_val_def lower_def less_eq_char_def)+
qed

text \<open>Reading back the digits that \<open>fmt_X\<close> writes.\<close>

lemma foldl_digits_mono: "n \<le> foldl (\<lambda>n d. n * b + d) n ds" if "1 \<le> b" for b :: nat
proof (induction ds arbitrary: n)
  case (Cons d ds)
  have "n \<le> n * b + d" using that by (simp add: trans_le_add1)
  also have "\<dots> \<le> foldl (\<lambda>n d. n * b + d) (n * b + d) ds" by (rule Cons.IH)
  finally show ?case by simp
qed simp

lemma parse_digits:
  assumes "\<forall>d \<in> set ds. d < 16" "foldl (\<lambda>n d. n * 16 + d) n ds \<le> 65535"
  shows "parse_loop 16 (map digit_char ds) n us = Some (foldl (\<lambda>n d. n * 16 + d) n ds, us)"
  using assms
proof (induction ds arbitrary: n)
  case (Cons d ds)
  then have "n * 16 + d \<le> 65535"
    using foldl_digits_mono [of 16 "n * 16 + d" ds] by simp
  with Cons show ?case by (simp add: digit_val_char)
qed simp

lemma fmt_X_digits: "\<forall>d \<in> set (zero_pad w (to_digits 16 n)). d < 16" "of_digits 16 (zero_pad w (to_digits 16 n)) = n"
  using to_digits_small [of 16] by (auto simp: zero_pad_def of_digits_zeros of_to_digits)

lemma fmt_X_nonempty: "fmt_X w n \<noteq> []"
  by (simp add: fmt_X_def zero_pad_def)

lemma lower_x: "lower CHR ''x'' = CHR ''x''"
  by (simp add: lower_def less_eq_char_def)

lemma parse_hex: "n < 65536 \<Longrightarrow> ParseUint16 (''0x'' @ fmt_X w n) = Some n"
proof -
  assume "n < 65536"
  then have "parse_loop 16 (fmt_X w n) 0 False = Some (n, False)"
    using parse_digits [of "zero_pad w (to_digits 16 n)" 0 False] fmt_X_digits [of w n]
    by (simp add: fmt_X_def of_digits_def)
  moreover have "length (fmt_X w n) \<ge> 1" using fmt_X_nonempty [of w n] by (cases "fmt_X w n") auto
  ultimately show ?thesis by (simp add: ParseUint16_def lower_x)
qed

lemma split_on_none: "c \<notin> set xs \<Longrightarrow> split_on c xs = [xs]"
  by (induction xs) auto

lemma split_on_app: "c \<notin> set xs \<Longrightarrow> split_on c (xs @ c # ys) = xs # split_on c ys"
  by (induction xs) auto

lemma fmt_X_no_at: "CHR 0x40 \<notin> set (''0x'' @ fmt_X w n)"
proof -
  have "CHR 0x40 \<notin> digit_char ` set (zero_pad w (to_digits 16 n))"
    using fmt_X_digits(1) [of w n] digit_val_char(3) by (metis imageE)
  then show ?thesis by (simp add: fmt_X_def)
qed

lemma fast_hex:
  assumes "p < 65536"
  shows "fast (''0x'' @ fmt_X 4 (unat w) @ CHR 0x40 # ''0x'' @ fmt_X 4 p) = (0, dsm_decode w p @ newline)"
proof -
  have "split_on CHR 0x40 (''0x'' @ fmt_X 4 (unat w) @ CHR 0x40 # ''0x'' @ fmt_X 4 p)
      = [''0x'' @ fmt_X 4 (unat w), ''0x'' @ fmt_X 4 p]"
    using split_on_app [OF fmt_X_no_at [of 4 "unat w"], of "''0x'' @ fmt_X 4 p"] split_on_none [OF fmt_X_no_at [of 4 p]]
    by simp
  then show ?thesis
    using parse_hex [of "unat w" 4] parse_hex [OF assms, of 4] unat_lt_u16 [of w] by (simp add: fast_def)
qed

text \<open>The command that \<open>rundis\<close> starts, when it is this disassembler.\<close>

definition dsm_process :: "string \<Rightarrow> string + string" where
  "dsm_process arg = (case fast arg of (st, out) \<Rightarrow> if st = 0 then Inr out else Inl ''exit status 1'')"

lemma rundis_dsm:
  assumes "dsm_cmd s = dsm_process"
  shows "rundis s (''0x'' @ fmt_X 4 (unat w) @ ''@0x'' @ fmt_X 4 (unat (p :: u16))) = Inr (dsm_decode w (unat p))"
proof -
  have "dsm_process (''0x'' @ fmt_X 4 (unat w) @ ''@0x'' @ fmt_X 4 (unat p)) = Inr (dsm_decode w (unat p) @ newline)"
    using fast_hex [OF unat_lt_u16 [of p], of w] by (simp add: dsm_process_def)
  then show ?thesis by (simp add: rundis_def assms newline_def)
qed

end
