(* ===== verification/Asm_Rules.thy ===== *)
theory Asm_Rules
  imports Dsm_Print Programs
begin

text \<open>
  The rule set of the assembler (\<open>asm/asm\<close>): one constructor of \<open>stmt\<close> per rule, the aliases
  included, with the code that each rule gives and the assertions some of them make, and a reader for lines
  that match the rules. The rule set is run by \<open>customasm\<close>, which is not part of the repository; what is
  read here of its input language are lines with one statement whose operands are register names and
  unsigned literals. Labels, expressions, comments and directives are left out.
\<close>

section \<open>Statements and their code\<close>

text \<open>\<open>Inst\<close> is a rule that is an instruction; there is none for \<open>jlr\<close>, and the one for \<open>beq\<close> takes an
  absolute target. Immediates are what the subrules \<open>imm6\<close>, \<open>imm7\<close>, \<open>imm10\<close> and \<open>imm16\<close> leave.\<close>

datatype stmt =
    Inst inst | BeqTo r3 r3 u16
  | Lli r3 "6 word" | Ldi r3 u16 | Lsi r3 "6 word" | Nop | SysCall "6 word"
  | Jsr r3 u16 | JsrReg r3 | Jmp r3 u16 | JmpReg r3
  | Ior r3 r3 "6 word" | Iow r3 r3 "6 word" | Srr r3 r3 "6 word" | Srw r3 r3 "6 word"

text \<open>The code of a statement at the address \<open>here\<close>; \<open>None\<close> when there is no such rule, or an assertion
  of the rule fails.\<close>

fun stmt_code :: "stmt \<Rightarrow> u16 \<Rightarrow> inst list option" where
  "stmt_code (Inst (Jlr a b k)) here = None"
| "stmt_code (Inst (Beq a b k)) here = None"
| "stmt_code (Inst i) here = Some [i]"
| "stmt_code (BeqTo a b t) here = Some [asm_beq a b t here]"
| "stmt_code (Lli a k) here = Some [lli a k]"
| "stmt_code (Ldi a w) here = Some (ldi a w)"
| "stmt_code (Lsi a k) here = Some [lsi a k]"
| "stmt_code Nop here = Some [nop]"
| "stmt_code (SysCall k) here = map_option (\<lambda>i. [i]) (sys k)"
| "stmt_code (Jsr b w) here = jsr b w"
| "stmt_code (JsrReg b) here = map_option (\<lambda>i. [i]) (jsr_reg b)"
| "stmt_code (Jmp b w) here = jmp b w"
| "stmt_code (JmpReg b) here = map_option (\<lambda>i. [i]) (jmp_reg b)"
| "stmt_code (Ior a b k) here = Some (ior a b k)"
| "stmt_code (Iow a b k) here = Some (iow a b k)"
| "stmt_code (Srr a b k) here = Some (srr a b k)"
| "stmt_code (Srw a b k) here = Some (srw a b k)"

text \<open>The words that the rules can give.\<close>

definition jlr_written :: "inst \<Rightarrow> bool" where
  "jlr_written i \<longleftrightarrow> (case i of Jlr a b k \<Rightarrow> a = 0 \<and> b = 0 \<and> k AND 1 \<noteq> 1 \<or> (a = 1 \<or> a = 2) \<and> b \<noteq> 0 | _ \<Rightarrow> True)"

lemma lower_imm_ucast: "lower_imm (ucast (k :: 6 word)) = k"
proof -
  have m: "(0x3F :: u16) = mask 6" by (simp add: mask_eq_exp_minus_1)
  show ?thesis unfolding lower_imm_def m by (intro bit_word_eqI) (auto simp: bit_simps)
qed

lemma written_code: "stmt_code s here = Some is \<Longrightarrow> i \<in> set is \<Longrightarrow> jlr_written i"
  by (induction s here rule: stmt_code.induct)
     (auto simp: jlr_written_def asm_beq_def lli_def lsi_def nop_def ldi_def sys_def jsr_def jsr_reg_def jmp_def jmp_reg_def
       ior_def iow_def srr_def srw_def split: if_splits)

lemma code_written:
  assumes "jlr_written i" shows "\<exists>s here is. stmt_code s here = Some is \<and> i \<in> set is"
proof (cases i)
  case (Beq a b k)
  have "asm_beq a b (ucast k + 1) 0 = i"
    unfolding asm_beq_def Beq by (simp add: ucast_ucast_u16)
  then show ?thesis by (intro exI [of _ "BeqTo a b (ucast k + 1)"] exI [of _ 0] exI [of _ "[i]"]) simp
next
  case (Jlr a b k)
  from assms consider "a = 0" "b = 0" "k AND 1 \<noteq> 1" | "a = 1" "b \<noteq> 0" | "a = 2" "b \<noteq> 0" by (auto simp: Jlr jlr_written_def)
  then show ?thesis
  proof cases
    case 1
    then show ?thesis by (intro exI [of _ "SysCall k"] exI [of _ 0] exI [of _ "[i]"]) (simp add: Jlr sys_def)
  next
    case 2
    then show ?thesis
      by (intro exI [of _ "Jsr b (ucast k)"] exI [of _ 0] exI [of _ "[Lui b (upper_imm (ucast k)), i]"]) (simp add: Jlr jsr_def lower_imm_ucast)
  next
    case 3
    then show ?thesis
      by (intro exI [of _ "Jmp b (ucast k)"] exI [of _ 0] exI [of _ "[Lui b (upper_imm (ucast k)), i]"]) (simp add: Jlr jmp_def lower_imm_ucast)
  qed
qed (intro exI [of _ "Inst i"] exI [of _ 0] exI [of _ "[i]"]; simp)+

text \<open>A program: the statements one after the other, from an address on.\<close>

fun source_code :: "stmt list \<Rightarrow> nat \<Rightarrow> inst list option" where
  "source_code [] at = Some []"
| "source_code (s # ss) at =
     (case stmt_code s (of_nat at) of None \<Rightarrow> None
      | Some is \<Rightarrow> map_option (\<lambda>js. is @ js) (source_code ss (at + length is)))"

section \<open>Reading a line\<close>

datatype asm_arg = Reg r3 | Numb nat

definition reg_names :: "(string \<times> r3) list" where
  "reg_names = [(''r0'', 0), (''r1'', 1), (''r2'', 2), (''r3'', 3), (''r4'', 4), (''r5'', 5), (''r6'', 6), (''r7'', 7)]"

fun digits :: "nat \<Rightarrow> string \<Rightarrow> nat \<Rightarrow> nat option" where
  "digits b [] n = Some n"
| "digits b (c # cs) n =
     (case digit_val c of None \<Rightarrow> None | Some d \<Rightarrow> if d < b then digits b cs (n * b + d) else None)"

definition number :: "string \<Rightarrow> nat option" where
  "number s =
     (if length s > 2 \<and> take 2 s = ''0x'' then digits 16 (drop 2 s) 0
      else if s = [] then None else digits 10 s 0)"

definition arg_of :: "string \<Rightarrow> asm_arg option" where
  "arg_of s = (case map_of reg_names s of Some r \<Rightarrow> Some (Reg r) | None \<Rightarrow> map_option Numb (number s))"

definition mnemonic :: "string \<Rightarrow> string" where
  "mnemonic s = takeWhile (\<lambda>c. c \<noteq> CHR '' '') s"

definition operand_texts :: "string \<Rightarrow> string list" where
  "operand_texts s =
     (let r = dropWhile (\<lambda>c. c = CHR '' '') (dropWhile (\<lambda>c. c \<noteq> CHR '' '') s)
      in if r = [] then [] else map (dropWhile (\<lambda>c. c = CHR '' '')) (split_on CHR '','' r))"

definition rri_names :: "(string \<times> (r3 \<Rightarrow> r3 \<Rightarrow> 7 word \<Rightarrow> inst)) list" where
  "rri_names = [(''ldw'', Ldw), (''ldb'', Ldb), (''stw'', Stw), (''stb'', Stb), (''adi'', Adi)]"

definition io_names :: "(string \<times> (r3 \<Rightarrow> r3 \<Rightarrow> 6 word \<Rightarrow> stmt)) list" where
  "io_names = [(''ior'', Ior), (''iow'', Iow), (''srr'', Srr), (''srw'', Srw)]"

definition op3_names :: "(string \<times> op3) list" where
  "op3_names = [(''add'', Add), (''adc'', Adc), (''sub'', Sub), (''sbb'', Sbb), (''bic'', Bic), (''bis'', Bis), (''xor'', Xor)]"

definition yopc_names :: "(string \<times> yopc) list" where
  "yopc_names = [(''lsp'', Lsp), (''lio'', Lio), (''ssp'', Ssp), (''sio'', Sio), (''y04'', Y04), (''y05'', Y05), (''y06'', Y06)]"

definition op1_names :: "(string \<times> op1) list" where
  "op1_names = [(''not'', Not), (''neg'', Neg), (''sxt'', Sxt), (''swb'', Swb), (''lsr'', Lsr), (''lsl'', Lsl), (''asr'', Asr)]"

definition vopc_names :: "(string \<times> vopc) list" where
  "vopc_names = [(''rti'', Rti), (''rtl'', Rtl), (''di'', Di), (''ei'', Ei), (''hlt'', Hlt), (''brk'', Brk), (''v06'', V06), (''die'', Die)]"

text \<open>The rules, by the shape of their operands. A literal must fit the subrule it is matched with.\<close>

fun rule_for :: "string \<Rightarrow> asm_arg list \<Rightarrow> stmt option" where
  "rule_for mn [Reg a, Reg b, Numb n] =
     (if mn = ''beq'' then (if n < 65536 then Some (BeqTo a b (of_nat n)) else None)
      else case map_of rri_names mn of
        Some f \<Rightarrow> if n < 128 then Some (Inst (f a b (of_nat n))) else None
      | None \<Rightarrow> if n < 64 then map_option (\<lambda>f. f a b (of_nat n)) (map_of io_names mn) else None)"
| "rule_for mn [Reg a, Reg b, Reg c] = map_option (\<lambda>x. Inst (Xop x a b c)) (map_of op3_names mn)"
| "rule_for mn [Reg a, Reg b] = map_option (\<lambda>y. Inst (Yop y a b)) (map_of yopc_names mn)"
| "rule_for mn [Reg a, Numb n] =
     (if mn = ''lui'' then (if n < 1024 then Some (Inst (Lui a (of_nat n))) else None)
      else if mn = ''lli'' then (if n < 64 then Some (Lli a (of_nat n)) else None)
      else if mn = ''lsi'' then (if n < 64 then Some (Lsi a (of_nat n)) else None)
      else if \<not> n < 65536 then None
      else if mn = ''ldi'' then Some (Ldi a (of_nat n))
      else if mn = ''jsr'' then Some (Jsr a (of_nat n))
      else if mn = ''jmp'' then Some (Jmp a (of_nat n)) else None)"
| "rule_for mn [Reg a] =
     (if mn = ''jsr'' then Some (JsrReg a) else if mn = ''jmp'' then Some (JmpReg a)
      else map_option (\<lambda>z. Inst (Zop z a)) (map_of op1_names mn))"
| "rule_for mn [Numb n] = (if mn = ''sys'' \<and> n < 64 then Some (SysCall (of_nat n)) else None)"
| "rule_for mn [] = (if mn = ''nop'' then Some Nop else map_option (\<lambda>v. Inst (Vop v)) (map_of vopc_names mn))"
| "rule_for mn _ = None"

definition read_stmt :: "string \<Rightarrow> stmt option" where
  "read_stmt s = Option.bind (those (map arg_of (operand_texts s))) (rule_for (mnemonic s))"

text \<open>A line that is one instruction, at the address \<open>here\<close>.\<close>

definition read_line :: "string \<Rightarrow> u16 \<Rightarrow> inst option" where
  "read_line s here = Option.bind (read_stmt s) (\<lambda>st. case stmt_code st here of Some [i] \<Rightarrow> Some i | _ \<Rightarrow> None)"

section \<open>Reading what is printed\<close>

lemma digits_map:
  "b \<le> 16 \<Longrightarrow> \<forall>d \<in> set ds. d < b \<Longrightarrow> digits b (map digit_char ds) n = Some (foldl (\<lambda>n d. n * b + d) n ds)"
  by (induction ds arbitrary: n) (simp_all add: digit_val_char)

lemma number_hex: "number (hex w n) = Some n"
proof -
  have "digits 16 (fmt_X w n) 0 = Some n"
    using digits_map [of 16 "zero_pad w (to_digits 16 n)" 0] fmt_X_digits [of w n] by (simp add: fmt_X_def of_digits_def)
  moreover have "fmt_X w n \<noteq> []" by (rule fmt_X_nonempty)
  ultimately show ?thesis by (simp add: number_def hex_def)
qed

lemma digit_char_10: "d < 10 \<Longrightarrow> digit_char d \<noteq> CHR ''x'' \<and> digit_char d \<noteq> CHR '' '' \<and> digit_char d \<noteq> CHR '','' \<and> digit_char d \<noteq> CHR ''r''"
proof -
  assume "d < 10"
  then have "d = 0 \<or> d = 1 \<or> d = 2 \<or> d = 3 \<or> d = 4 \<or> d = 5 \<or> d = 6 \<or> d = 7 \<or> d = 8 \<or> d = 9" by arith
  then show ?thesis by (elim disjE) (simp_all add: digit_char_def digit_chars_def)
qed

lemma digit_char_16: "d < 16 \<Longrightarrow> digit_char d \<noteq> CHR '' '' \<and> digit_char d \<noteq> CHR '',''"
proof -
  assume "d < 16"
  then have "d < 10 \<or> d = 10 \<or> d = 11 \<or> d = 12 \<or> d = 13 \<or> d = 14 \<or> d = 15" by arith
  then show ?thesis using digit_char_10 by (elim disjE) (simp_all add: digit_char_def digit_chars_def)
qed

lemma fmt_d_chars: "c \<in> set (fmt_d n) \<Longrightarrow> c \<noteq> CHR ''x'' \<and> c \<noteq> CHR '' '' \<and> c \<noteq> CHR '','' \<and> c \<noteq> CHR ''r''"
  using to_digits_small [of 10] digit_char_10 by (fastforce simp: fmt_d_def)

lemma fmt_d_nonempty: "fmt_d n \<noteq> []"
  by (simp add: fmt_d_def)

lemma number_d: "number (fmt_d n) = Some n"
proof -
  have "digits 10 (fmt_d n) 0 = Some n"
    using digits_map [of 10 "to_digits 10 n" 0] to_digits_small [of 10] of_to_digits [of 10 n] by (simp add: fmt_d_def of_digits_def)
  moreover have "take 2 (fmt_d n) \<noteq> ''0x''"
  proof
    assume "take 2 (fmt_d n) = ''0x''"
    then have "CHR ''x'' \<in> set (take 2 (fmt_d n))" by simp
    then show False using fmt_d_chars by (auto dest: in_set_takeD)
  qed
  ultimately show ?thesis using fmt_d_nonempty by (simp add: number_def)
qed

lemma rn_eq: "rn r = [CHR ''r'', digit_char (unat r)]"
  using r3_cases [of r] by (elim disjE) (simp_all add: rn_def RegNames_def digit_char_def digit_chars_def)

lemma operand_reg [simp]: "arg_of (rn r) = Some (Reg r)"
  using r3_cases [of r] by (elim disjE) (simp_all add: arg_of_def reg_names_def rn_def RegNames_def)

lemma not_reg: "s \<noteq> [] \<Longrightarrow> hd s \<noteq> CHR ''r'' \<Longrightarrow> map_of reg_names s = None"
  by (auto simp: reg_names_def)

lemma operand_hex [simp]: "arg_of (hex w n) = Some (Numb n)"
  using not_reg [of "hex w n"] number_hex [of w n] by (simp add: arg_of_def) (simp add: hex_def)

lemma operand_d [simp]: "arg_of (fmt_d n) = Some (Numb n)"
  using not_reg [of "fmt_d n"] fmt_d_chars [of "hd (fmt_d n)" n] fmt_d_nonempty [of n] number_d [of n] by (simp add: arg_of_def)

text \<open>An operand as it is printed: not empty, without commas and spaces.\<close>

definition word_like :: "string \<Rightarrow> bool" where
  "word_like s \<longleftrightarrow> s \<noteq> [] \<and> CHR '','' \<notin> set s \<and> CHR '' '' \<notin> set s"

lemma word_like_operands [simp]: "word_like (rn r)" "word_like (hex w n)" "word_like (fmt_d n)"
proof -
  show "word_like (fmt_d n)" using fmt_d_chars fmt_d_nonempty by (auto simp: word_like_def)
  have "\<forall>c \<in> set (fmt_X w n). c \<noteq> CHR '' '' \<and> c \<noteq> CHR '',''" using fmt_X_digits(1) [of w n] digit_char_16 by (auto simp: fmt_X_def)
  then show "word_like (hex w n)" by (auto simp: word_like_def hex_def)
  show "word_like (rn r)" using r3_cases [of r] by (elim disjE) (simp_all add: word_like_def rn_def RegNames_def)
qed

lemma drop_blank: "word_like t \<Longrightarrow> dropWhile (\<lambda>c. c = CHR '' '') (t @ r) = t @ r"
  by (cases t) (auto simp: word_like_def)

lemma mnemonic_text: "CHR '' '' \<notin> set mn \<Longrightarrow> mnemonic (mn @ CHR '' '' # r) = mn" "CHR '' '' \<notin> set mn \<Longrightarrow> mnemonic mn = mn"
  by (induction mn) (auto simp: mnemonic_def)

lemma skip_mnemonic: "CHR '' '' \<notin> set mn \<Longrightarrow> dropWhile (\<lambda>c. c \<noteq> CHR '' '') (mn @ CHR '' '' # r) = CHR '' '' # r"
  by (induction mn) auto

lemma split_arg: "word_like t \<Longrightarrow> split_on CHR '','' (t @ CHR '','' # r) = t # split_on CHR '','' r"
  "word_like t \<Longrightarrow> split_on CHR '','' t = [t]" "word_like t \<Longrightarrow> split_on CHR '','' (CHR '' '' # t) = [CHR '' '' # t]"
  "word_like t \<Longrightarrow> split_on CHR '','' (CHR '' '' # t @ CHR '','' # r) = (CHR '' '' # t) # split_on CHR '','' r"
  using split_on_app [of "CHR '',''" t r] split_on_none [of "CHR '',''" t] by (simp_all add: word_like_def)

lemma operands_text:
  assumes "CHR '' '' \<notin> set mn" "word_like t"
  shows "operand_texts (mn @ CHR '' '' # t) = [t]"
    "word_like u \<Longrightarrow> operand_texts (mn @ CHR '' '' # t @ '', '' @ u) = [t, u]"
    "word_like u \<Longrightarrow> word_like v \<Longrightarrow> operand_texts (mn @ CHR '' '' # t @ '', '' @ u @ '', '' @ v) = [t, u, v]"
  using assms drop_blank [OF assms(2), of "[]"] drop_blank [of u "[]"] drop_blank [of v "[]"]
  by (simp_all add: operand_texts_def skip_mnemonic [OF assms(1)] drop_blank Let_def split_arg) (auto simp: word_like_def)

lemma no_operands: "CHR '' '' \<notin> set mn \<Longrightarrow> operand_texts mn = []" "CHR '' '' \<notin> set mn \<Longrightarrow> operand_texts (mn @ '' '') = []"
proof -
  assume m: "CHR '' '' \<notin> set mn"
  then have "dropWhile (\<lambda>c. c \<noteq> CHR '' '') mn = []" by (auto simp: dropWhile_eq_Nil_conv)
  then show "operand_texts mn = []" by (simp only: operand_texts_def Let_def dropWhile.simps simp_thms if_True)
  show "operand_texts (mn @ '' '') = []" using skip_mnemonic [OF m, of "[]"] by (simp add: operand_texts_def)
qed

text \<open>What is read of a mnemonic with up to three operands.\<close>

lemma read_text:
  assumes "CHR '' '' \<notin> set mn"
  shows "read_stmt mn = rule_for mn []" "read_stmt (mn @ '' '') = rule_for mn []"
    "word_like t \<Longrightarrow> arg_of t = Some x \<Longrightarrow> read_stmt (mn @ '' '' @ t) = rule_for mn [x]"
    "word_like t \<Longrightarrow> arg_of t = Some x \<Longrightarrow> word_like u \<Longrightarrow> arg_of u = Some y \<Longrightarrow>
       read_stmt (mn @ '' '' @ t @ '', '' @ u) = rule_for mn [x, y]"
    "word_like t \<Longrightarrow> arg_of t = Some x \<Longrightarrow> word_like u \<Longrightarrow> arg_of u = Some y \<Longrightarrow> word_like v \<Longrightarrow> arg_of v = Some z \<Longrightarrow>
       read_stmt (mn @ '' '' @ t @ '', '' @ u @ '', '' @ v) = rule_for mn [x, y, z]"
  using mnemonic_text [OF assms] no_operands [OF assms] operands_text [OF assms]
  by (simp_all add: read_stmt_def)

text \<open>The same for the three-letter mnemonics, as a rewrite rule.\<close>

lemma read3:
  assumes "c1 \<noteq> CHR '' ''" "c2 \<noteq> CHR '' ''" "c3 \<noteq> CHR '' ''"
  shows "read_stmt [c1, c2, c3] = rule_for [c1, c2, c3] []" "read_stmt [c1, c2, c3, CHR '' ''] = rule_for [c1, c2, c3] []"
    "word_like t \<Longrightarrow> arg_of t \<noteq> None \<Longrightarrow> read_stmt (c1 # c2 # c3 # CHR '' '' # t) = rule_for [c1, c2, c3] [the (arg_of t)]"
    "word_like t \<Longrightarrow> arg_of t \<noteq> None \<Longrightarrow> word_like u \<Longrightarrow> arg_of u \<noteq> None \<Longrightarrow>
       read_stmt (c1 # c2 # c3 # CHR '' '' # t @ CHR '','' # CHR '' '' # u) = rule_for [c1, c2, c3] [the (arg_of t), the (arg_of u)]"
    "word_like t \<Longrightarrow> arg_of t \<noteq> None \<Longrightarrow> word_like u \<Longrightarrow> arg_of u \<noteq> None \<Longrightarrow> word_like v \<Longrightarrow> arg_of v \<noteq> None \<Longrightarrow>
       read_stmt (c1 # c2 # c3 # CHR '' '' # t @ CHR '','' # CHR '' '' # u @ CHR '','' # CHR '' '' # v)
         = rule_for [c1, c2, c3] [the (arg_of t), the (arg_of u), the (arg_of v)]"
  using assms read_text [of "[c1, c2, c3]"] by auto

lemma unat_small: "unat (k :: 7 word) < 128" "unat (i :: 6 word) < 64" "unat (j :: 10 word) < 1024"
  using unsigned_less [of k] unsigned_less [of i] unsigned_less [of j] by simp_all

lemma ucast7_diff: "(ucast (x - y :: u16) :: 7 word) = ucast x - ucast y"
proof -
  have *: "take_bit 7 (m - n) = take_bit 7 (take_bit 16 m - take_bit 16 n)" for m n :: int
    using take_bit_diff [of 7 "take_bit 16 m" "take_bit 16 n"] take_bit_diff [of 7 m n] by simp
  show ?thesis by (transfer, simp, rule *)
qed

lemma ucast7_nat: "(ucast (of_nat n :: u16) :: 7 word) = of_nat n"
  by transfer (simp add: take_bit_of_nat)

lemma beq_back:
  fixes k :: "7 word"
  shows "ucast (of_nat ((unat k + at + 1) mod 128) - of_nat at - 1 :: u16) = k"
proof -
  have "(ucast (of_nat ((unat k + at + 1) mod 128) - of_nat at - 1 :: u16) :: 7 word)
      = of_nat ((unat k + at + 1) mod 128) - of_nat at - 1"
    by (simp only: ucast7_diff ucast7_nat unsigned_1)
  also have "(of_nat ((unat k + at + 1) mod 128) :: 7 word) = of_nat (unat k + at + 1)"
    by (intro word_eq_iff_unsigned [THEN iffD2]) (simp add: unsigned_of_nat take_bit_eq_mod del: of_nat_Suc)
  finally show ?thesis by (simp add: algebra_simps)
qed

lemma beq_target_back:
  fixes t :: u16
  shows "(unat (ucast (t - of_nat at - 1) :: 7 word) + at + 1) mod 128 = unat t mod 128"
proof -
  let ?k = "ucast (t - of_nat at - 1) :: 7 word"
  have "(of_nat (unat ?k + at + 1) :: 7 word) = ?k + of_nat at + 1" by simp
  also have "\<dots> = ucast t" by (simp only: ucast7_diff ucast7_nat unsigned_1) (simp add: algebra_simps)
  also have "\<dots> = of_nat (unat t)" using ucast7_nat [of "unat t"] by simp
  finally have "unat (of_nat (unat ?k + at + 1) :: 7 word) = unat (of_nat (unat t) :: 7 word)" by (rule arg_cong)
  then show ?thesis by (simp only: unsigned_of_nat take_bit_eq_mod) simp
qed

section \<open>Reading the lines of the disassembler\<close>

lemmas rule_names = rri_names_def io_names_def op3_names_def yopc_names_def op1_names_def vopc_names_def

lemmas read_simps = read_line_def rri_text_def read3 rule_names

lemma read_rri:
  "read_line (print_inst (Ldw a b k) at) (of_nat at) = Some (Ldw a b k)"
  "read_line (print_inst (Ldb a b k) at) (of_nat at) = Some (Ldb a b k)"
  "read_line (print_inst (Stw a b k) at) (of_nat at) = Some (Stw a b k)"
  "read_line (print_inst (Stb a b k) at) (of_nat at) = Some (Stb a b k)"
  "read_line (print_inst (Adi a b k) at) (of_nat at) = Some (Adi a b k)"
  "read_line (print_inst (Lui a u) at) (of_nat at) = Some (Lui a u)"
  "read_line (print_inst (Jlr a b j) at) (of_nat at) = None"
  using unat_small(1) [of k] unat_small(2) [of j] unat_small(3) [of u] by (simp_all add: read_simps)

lemma read_beq: "read_line (print_inst (Beq a b k) at) (of_nat at) = Some (Beq a b k)"
proof -
  have "(unat k + at + 1) mod 128 < 65536" by (rule less_trans [of _ 128]) simp_all
  then show ?thesis using beq_back [of k at] by (simp add: read_simps asm_beq_def)
qed

lemma read_xop: "read_line (print_inst (Xop x a b c) at) (of_nat at) = Some (Xop x a b c)"
  by (cases x) (simp_all add: read_simps)

lemma read_yop:
  "read_line (print_inst (Yop y a b) at) (of_nat at) = (case y of Y05 \<Rightarrow> Some (Yop Y06 a b) | Y06 \<Rightarrow> None | _ \<Rightarrow> Some (Yop y a b))"
  by (cases y) (simp_all add: read_simps)

lemma read_zop: "read_line (print_inst (Zop z a) at) (of_nat at) = Some (Zop z a)"
  by (cases z) (simp_all add: read_simps)

lemma read_vop: "read_line (print_inst (Vop v) at) (of_nat at) = Some (Vop v)"
  by (cases v) (simp_all add: read_simps, simp_all add: read_stmt_def mnemonic_def operand_texts_def vopc_names_def)

lemma read_print:
  "read_line (print_inst i at) (of_nat at) =
     (case i of Jlr a b k \<Rightarrow> None | Yop Y05 a b \<Rightarrow> Some (Yop Y06 a b) | Yop Y06 a b \<Rightarrow> None | _ \<Rightarrow> Some i)"
  by (cases i) (simp_all add: read_rri read_beq read_xop read_yop read_zop read_vop del: print_inst.simps split: yopc.split)

section \<open>Writing a statement\<close>

text \<open>The text of a statement in the syntax of its rule.\<close>

fun yopc_text :: "yopc \<Rightarrow> string" where
  "yopc_text Y05 = ''y05''" | "yopc_text y = yopc_name y"

fun stmt_text :: "stmt \<Rightarrow> string" where
  "stmt_text (Inst (Yop y a b)) = yopc_text y @ '' '' @ rn a @ '', '' @ rn b"
| "stmt_text (Inst i) = print_inst i 0"
| "stmt_text (BeqTo a b t) = ''beq '' @ rn a @ '', '' @ rn b @ '', '' @ fmt_d (unat t)"
| "stmt_text (Lli a k) = ''lli '' @ rn a @ '', '' @ hex 2 (unat k)"
| "stmt_text (Ldi a w) = ''ldi '' @ rn a @ '', '' @ hex 4 (unat w)"
| "stmt_text (Lsi a k) = ''lsi '' @ rn a @ '', '' @ hex 2 (unat k)"
| "stmt_text Nop = ''nop''"
| "stmt_text (SysCall k) = ''sys '' @ fmt_d (unat k)"
| "stmt_text (Jsr b w) = ''jsr '' @ rn b @ '', '' @ hex 4 (unat w)"
| "stmt_text (JsrReg b) = ''jsr '' @ rn b"
| "stmt_text (Jmp b w) = ''jmp '' @ rn b @ '', '' @ fmt_d (unat w)"
| "stmt_text (JmpReg b) = ''jmp '' @ rn b"
| "stmt_text (Ior a b k) = ''ior '' @ rn a @ '', '' @ rn b @ '', '' @ hex 2 (unat k)"
| "stmt_text (Iow a b k) = ''iow '' @ rn a @ '', '' @ rn b @ '', '' @ hex 2 (unat k)"
| "stmt_text (Srr a b k) = ''srr '' @ rn a @ '', '' @ rn b @ '', '' @ hex 2 (unat k)"
| "stmt_text (Srw a b k) = ''srw '' @ rn a @ '', '' @ rn b @ '', '' @ hex 2 (unat k)"

text \<open>Every statement that has code is read from its text.\<close>

lemma read_inst: "stmt_code (Inst i) here = Some is \<Longrightarrow> read_stmt (stmt_text (Inst i)) = Some (Inst i)"
proof (cases i)
  case (Xop x a b c) then show ?thesis by (cases x) (simp_all add: read_simps)
next
  case (Yop y a b) then show ?thesis by (cases y) (simp_all add: read_simps)
next
  case (Zop z a) then show ?thesis by (cases z) (simp_all add: read_simps)
next
  case (Vop v)
  then show ?thesis by (cases v) (simp_all add: read_simps, simp_all add: read_stmt_def mnemonic_def operand_texts_def vopc_names_def)
qed (simp_all add: read_simps unat_small)

lemma read_stmt_text: "stmt_code s here = Some is \<Longrightarrow> read_stmt (stmt_text s) = Some s"
proof (cases s)
  case (Inst i)
  moreover assume "stmt_code s here = Some is"
  ultimately show ?thesis using read_inst by blast
qed (simp_all add: read_simps unat_small unat_lt_u16)

lemma print_nonempty: "print_inst i at \<noteq> []"
proof (cases i)
  case (Xop x a b c) then show ?thesis by (cases x) (simp_all add: rri_text_def)
next
  case (Yop y a b) then show ?thesis by (cases y) simp_all
next
  case (Zop z a) then show ?thesis by (cases z) simp_all
next
  case (Vop v) then show ?thesis by (cases v) simp_all
qed (simp_all add: rri_text_def)

lemma text_nonempty: "stmt_text s \<noteq> []"
proof (cases s)
  case (Inst i)
  then show ?thesis using print_nonempty [of i 0] by (cases i) simp_all
qed simp_all

end
