(* ===== verification/Dsm_List.thy ===== *)
theory Dsm_List
  imports Asm_Rules
begin

text \<open>
  What the disassembler prints for a file: the specification of a listing, line by line, the proof that
  the three passes print it, and the listing of an assembled source.
\<close>

section \<open>Walking over the code of a file\<close>

text \<open>The instruction words that the passes see: up to the end of the file, a zero word or 65536 words.\<close>

fun code_words :: "u8 list \<Rightarrow> nat \<Rightarrow> u16 list" where
  "code_words (lo # hi # rest) at =
     (let w = ucast lo OR push_bit 8 (ucast hi)
      in if \<not> at < 64 * 1024 \<or> w = 0 then [] else w # code_words rest (at + 1))"
| "code_words _ at = []"

fun walk :: "(nat \<Rightarrow> u16 \<Rightarrow> u16 \<Rightarrow> 'a \<Rightarrow> panic + 'a) \<Rightarrow> u16 list \<Rightarrow> nat \<Rightarrow> u16 \<Rightarrow> 'a \<Rightarrow> panic + 'a" where
  "walk f [] at prev acc = Inr acc"
| "walk f (w # ws) at prev acc = bindE (f at prev w acc) (walk f ws (at + 1) w)"

lemma forEachInst_walk: "forEachInst f bs at prev acc = walk f (code_words bs at) at prev acc"
  by (induction f bs at prev acc rule: forEachInst.induct) (auto simp: Let_def intro!: bindE_cong)

lemma pass1_walk:
  "walk (\<lambda>at prev w acc. Inr (acc @ [dsm_decode w at])) ws at prev acc
     = Inr (acc @ map (\<lambda>i. dsm_decode (ws ! i) (at + i)) [0..<length ws])"
proof (induction ws arbitrary: at prev acc)
  case (Cons w ws)
  have "map (\<lambda>i. dsm_decode ((w # ws) ! i) (at + i)) [0..<length (w # ws)]
      = dsm_decode w at # map (\<lambda>i. dsm_decode (ws ! i) (at + 1 + i)) [0..<length ws]"
    by (simp add: upt_conv_Cons map_Suc_upt [symmetric] del: upt_Suc)
  with Cons show ?case by simp
qed simp

lemma pass1_eq: "pass1 f = Inr (map (\<lambda>i. dsm_decode (code_words f 0 ! i) i) [0..<length (code_words f 0)])"
  by (simp add: pass1_def forEachInst_walk pass1_walk)

section \<open>What pass 2 writes\<close>

text \<open>Whether an instruction swallows the \<open>lui\<close> before it, and the text it gets.\<close>

definition is_lli :: "u16 \<Rightarrow> bool" where
  "is_lli w \<longleftrightarrow> bits w 15 13 = 5 \<and> bits w 5 3 = bits w 2 0 \<and> bits w 2 0 \<noteq> 0 \<and> bits w 12 12 = 0"

definition is_jump :: "u16 \<Rightarrow> u16 \<Rightarrow> bool" where
  "is_jump prev w \<longleftrightarrow> bits w 15 12 = 0xE \<and> (bits w 2 0 = 1 \<or> bits w 2 0 = 2) \<and> bits w 5 3 = bits prev 2 0"

definition hides :: "u16 \<Rightarrow> u16 \<Rightarrow> bool" where
  "hides prev w \<longleftrightarrow> bits prev 15 13 = 6 \<and> (is_lli w \<or> is_jump prev w)"

definition new_text :: "u16 \<Rightarrow> u16 \<Rightarrow> string option" where
  "new_text prev w =
     (if bits w 15 13 = 5 \<and> bits w 5 3 = bits w 2 0 \<and> bits w 2 0 \<noteq> 0 then
        Some (if bits w 12 12 = 0 then
                (if bits prev 15 13 = 6 then ''ldi '' @ rname w 2 0 @ '', 0x'' @ fmt_X 4 (unat (wide_imm prev w))
                 else ''lli '' @ rname w 2 0 @ '', 0x'' @ fmt_X 2 (unat (bits w 12 6)))
              else ''adi '' @ rname w 2 0 @ '', '' @ rname w 5 3 @ '', 0x'' @ fmt_X 2 (unat (bits w 12 6)))
      else if bits w 15 12 = 0xE then
        (let j = bits w 2 0 in
         if j = 0 then Some (if bits w 5 3 \<noteq> 0 \<or> bits w 12 6 AND 1 \<noteq> 0 then illegal_text w else ''sys '' @ fmt_d (unat (bits w 12 6)))
         else if j = 1 \<or> j = 2 then
           (let mn = (if j = 1 then ''jsr'' else ''jmp'') in
            if bits prev 15 13 = 6 \<and> bits w 5 3 = bits prev 2 0
            then Some (mn @ '' '' @ rname w 5 3 @ '', '' @
                   (if j = 1 then ''0x'' @ fmt_X 4 (unat (wide_imm prev w)) else fmt_d (unat (wide_imm prev w))))
            else if bits w 12 6 = 0 \<and> bits w 5 3 \<noteq> 0 then Some (mn @ '' '' @ rname w 5 3) else None)
         else Some (illegal_text w))
      else if w = 0xFFC8 then Some ''nop'' else None)"

definition put_text :: "nat \<Rightarrow> string option \<Rightarrow> string list \<Rightarrow> string list" where
  "put_text at t is = (case t of None \<Rightarrow> is | Some x \<Rightarrow> is[at := x])"

lemma length_put_text [simp]: "length (put_text at t is) = length is"
  by (simp add: put_text_def split: option.splits)

lemma field_7: "bits w 15 12 = 0xE \<Longrightarrow> bits w 15 13 = 7"
  by (simp add: field_simps16)

lemma set_ops:
  "at < length is \<Longrightarrow> set_at at t is = Inr (put_text at (Some t) is)"
  "at < length is \<Longrightarrow> 0 < at \<Longrightarrow> set_hiding at t is = Inr (put_text at (Some t) (is[at - 1 := []]))"
  by (simp_all add: set_at_def set_hiding_def put_text_def)

lemma condense_adi_eq:
  assumes "at < length is" "hides prev w \<Longrightarrow> 0 < at" "bits w 15 13 = 5" "bits w 5 3 = bits w 2 0" "bits w 2 0 \<noteq> 0"
  shows "condense_adi at prev w is = Inr (put_text at (new_text prev w) (if hides prev w then is[at - 1 := []] else is))"
proof -
  have "bits w 15 12 \<noteq> 0xE" using assms(3) field_7 by fastforce
  then have h: "hides prev w \<longleftrightarrow> bits prev 15 13 = 6 \<and> bits w 12 12 = 0"
    using assms(3-5) by (simp add: hides_def is_lli_def is_jump_def)
  show ?thesis
    using assms unfolding h
    by (cases "bits w 12 12 = 0"; cases "bits prev 15 13 = 6")
       (simp_all add: condense_adi_def new_text_def set_ops)
qed

lemma condense_jump_eq:
  assumes "at < length is" "hides prev w \<Longrightarrow> 0 < at" "bits w 15 12 = 0xE" "\<not> is_lli w"
    and "bits w 2 0 = 1 \<and> mn = ''jsr'' \<and> fmt = (\<lambda>w. ''0x'' @ fmt_X 4 (unat w)) \<or> bits w 2 0 = 2 \<and> mn = ''jmp'' \<and> fmt = (\<lambda>w. fmt_d (unat w))"
  shows "condense_jump mn fmt at prev w is = Inr (put_text at (new_text prev w) (if hides prev w then is[at - 1 := []] else is))"
proof -
  have h: "hides prev w \<longleftrightarrow> bits prev 15 13 = 6 \<and> bits w 5 3 = bits prev 2 0"
    using assms(3-5) by (auto simp: hides_def is_jump_def)
  have n: "bits w 15 13 \<noteq> 5" using field_7 [OF assms(3)] by simp
  show ?thesis
  proof (cases "bits prev 15 13 = 6 \<and> bits w 5 3 = bits prev 2 0")
    case True
    with assms(1-3,5) n show ?thesis
      unfolding h by (elim disjE conjE) (simp_all add: condense_jump_def new_text_def set_ops Let_def)
  next
    case False
    with assms(1-3,5) n show ?thesis
      unfolding h
      by (cases "bits w 12 6 = 0 \<and> bits w 5 3 \<noteq> 0"; elim disjE conjE)
         (auto simp: condense_jump_def new_text_def set_ops Let_def put_text_def)
  qed
qed

lemma condense_jlr_eq:
  assumes "at < length is" "hides prev w \<Longrightarrow> 0 < at" "bits w 15 12 = 0xE"
  shows "condense_jlr at prev w is = Inr (put_text at (new_text prev w) (if hides prev w then is[at - 1 := []] else is))"
proof -
  have n: "bits w 15 13 = 7" by (rule field_7 [OF assms(3)])
  then have l: "\<not> is_lli w" by (simp add: is_lli_def)
  consider "bits w 2 0 = 1" | "bits w 2 0 = 2" | "bits w 2 0 \<noteq> 1" "bits w 2 0 \<noteq> 2" by blast
  then show ?thesis
  proof cases
    case 1
    with condense_jump_eq [OF assms l] show ?thesis by (simp add: condense_jlr_def)
  next
    case 2
    with condense_jump_eq [OF assms l] show ?thesis by (simp add: condense_jlr_def)
  next
    case 3
    then have "\<not> hides prev w" using l by (simp add: hides_def is_jump_def)
    with 3 n assms show ?thesis
      by (simp add: condense_jlr_def new_text_def set_ops Let_def)
  qed
qed

lemma condense_eq:
  assumes "at < length is" "hides prev w \<Longrightarrow> 0 < at"
  shows "condense at prev w is = Inr (put_text at (new_text prev w) (if hides prev w then is[at - 1 := []] else is))"
proof -
  consider "bits w 15 13 = 5" "bits w 5 3 = bits w 2 0" "bits w 2 0 \<noteq> 0" | "bits w 15 12 = 0xE"
    | "\<not> (bits w 15 13 = 5 \<and> bits w 5 3 = bits w 2 0 \<and> bits w 2 0 \<noteq> 0)" "bits w 15 12 \<noteq> 0xE" by blast
  then show ?thesis
  proof cases
    case 1
    then show ?thesis using condense_adi_eq [OF assms 1] by (simp add: condense_def)
  next
    case 2
    then show ?thesis using condense_jlr_eq [OF assms 2] field_7 [OF 2] by (simp add: condense_def)
  next
    case 3
    then have "\<not> hides prev w" by (auto simp: hides_def is_lli_def is_jump_def)
    then show ?thesis
      unfolding condense_def new_text_def dsm_bits_eq if_not_P [OF 3(1)] if_not_P [OF 3(2)]
      using assms(1) by (simp add: set_at_def put_text_def)
  qed
qed

section \<open>The finished listing\<close>

text \<open>Line \<open>i\<close> of the listing of the words \<open>ws\<close>: empty when the next instruction swallows it,
  otherwise what pass 2 writes over what pass 1 wrote.\<close>

definition prev_word :: "u16 list \<Rightarrow> nat \<Rightarrow> u16" where
  "prev_word ws i = (if i = 0 then 0 else ws ! (i - 1))"

definition line_text :: "u16 list \<Rightarrow> nat \<Rightarrow> string" where
  "line_text ws i = (case new_text (prev_word ws i) (ws ! i) of None \<Rightarrow> dsm_decode (ws ! i) i | Some t \<Rightarrow> t)"

definition listing :: "u16 list \<Rightarrow> nat \<Rightarrow> string" where
  "listing ws i = (if i + 1 < length ws \<and> hides (ws ! i) (ws ! (i + 1)) then [] else line_text ws i)"

text \<open>The list after pass 2 has come to position \<open>k\<close>.\<close>

definition pass2_state :: "u16 list \<Rightarrow> nat \<Rightarrow> string list" where
  "pass2_state ws k = map (\<lambda>i. if i + 1 < k then listing ws i else if i < k then line_text ws i else dsm_decode (ws ! i) i) [0..<length ws]"

lemma length_pass2_state [simp]: "length (pass2_state ws k) = length ws"
  by (simp add: pass2_state_def)

lemma pass2_state_nth: "i < length ws \<Longrightarrow> pass2_state ws k ! i =
    (if i + 1 < k then listing ws i else if i < k then line_text ws i else dsm_decode (ws ! i) i)"
  by (simp add: pass2_state_def)

lemma not_hides_0: "\<not> hides 0 w"
  by (simp add: hides_def bits_def)

lemma pass2_step:
  assumes "k < length ws"
  shows "condense k (prev_word ws k) (ws ! k) (pass2_state ws k) = Inr (pass2_state ws (k + 1))"
proof -
  have z: "hides (prev_word ws k) (ws ! k) \<Longrightarrow> 0 < k"
    using not_hides_0 by (cases "k = 0") (auto simp: prev_word_def)
  let ?h = "hides (prev_word ws k) (ws ! k)"
  have "put_text k (new_text (prev_word ws k) (ws ! k)) (if ?h then (pass2_state ws k)[k - 1 := []] else pass2_state ws k)
      = pass2_state ws (k + 1)" (is "?l = ?r")
  proof (rule nth_equalityI)
    fix i assume "i < length ?l"
    then have i: "i < length ws" by (simp split: if_splits)
    have l: "?l ! i = (if i = k then line_text ws k else if i + 1 = k \<and> ?h then [] else pass2_state ws k ! i)"
      using i assms z
      by (cases "new_text (prev_word ws k) (ws ! k)")
         (auto simp: put_text_def nth_list_update line_text_def pass2_state_nth)
    have p: "i + 1 = k \<Longrightarrow> prev_word ws k = ws ! i" by (auto simp: prev_word_def)
    consider "i = k" | "i + 1 = k" | "i + 1 < k" | "k < i" by linarith
    then show "?l ! i = ?r ! i"
      unfolding l pass2_state_nth [OF i] using assms p by cases (auto simp: listing_def)
  qed simp
  then show ?thesis using condense_eq [of k "pass2_state ws k" "prev_word ws k" "ws ! k"] assms z by simp
qed

lemma pass2_walk:
  "k \<le> length ws \<Longrightarrow> walk condense (drop k ws) k (prev_word ws k) (pass2_state ws k) = Inr (pass2_state ws (length ws))"
proof (induction "length ws - k" arbitrary: k)
  case (Suc n)
  then have k: "k < length ws" by simp
  then have d: "drop k ws = ws ! k # drop (k + 1) ws" by (simp add: Cons_nth_drop_Suc)
  have "prev_word ws (k + 1) = ws ! k" by (simp add: prev_word_def)
  with Suc(1) [of "k + 1"] Suc(2) k show ?case by (simp add: d pass2_step)
qed simp

lemma pass2_eq:
  "pass2 f (pass2_state (code_words f 0) 0) = Inr (map (listing (code_words f 0)) [0..<length (code_words f 0)])"
proof -
  let ?ws = "code_words f 0"
  have "pass2_state ?ws (length ?ws) = map (listing ?ws) [0..<length ?ws]"
    by (auto simp: pass2_state_def listing_def)
  with pass2_walk [of 0 ?ws] show ?thesis
    by (simp add: pass2_def forEachInst_walk prev_word_def)
qed

lemma pass3_walk:
  "at + length ws \<le> length is \<Longrightarrow>
   walk (\<lambda>at prev w out. bindE (idx is at) (\<lambda>t. Inr (out @ long_line at w t))) ws at prev acc
     = Inr (acc @ concat (map (\<lambda>i. long_line (at + i) (ws ! i) (is ! (at + i))) [0..<length ws]))"
proof (induction ws arbitrary: at prev acc)
  case (Cons w ws)
  have "map (\<lambda>i. long_line (at + i) ((w # ws) ! i) (is ! (at + i))) [0..<length (w # ws)]
      = long_line at w (is ! at) # map (\<lambda>i. long_line (at + 1 + i) (ws ! i) (is ! (at + 1 + i))) [0..<length ws]"
    by (simp add: upt_conv_Cons map_Suc_upt [symmetric] del: upt_Suc)
  with Cons show ?case by simp
qed simp

lemma disassemble_eq:
  "disassemble q f = (let ws = code_words f 0 in
     Inr (if q then concat (map (\<lambda>t. t @ newline) (filter (\<lambda>t. t \<noteq> []) (map (listing ws) [0..<length ws])))
          else concat (map (\<lambda>i. long_line i (ws ! i) (listing ws i)) [0..<length ws])))"
proof -
  let ?ws = "code_words f 0"
  have "pass1 f = Inr (pass2_state ?ws 0)" by (simp add: pass1_eq pass2_state_def)
  moreover have e: "map (\<lambda>i. long_line i (?ws ! i) (map (listing ?ws) [0..<length ?ws] ! i)) [0..<length ?ws]
      = map (\<lambda>i. long_line i (?ws ! i) (listing ?ws i)) [0..<length ?ws]" by (rule map_cong) auto
  ultimately show ?thesis
    using pass3_walk [of 0 ?ws "map (listing ?ws) [0..<length ?ws]" 0 "[]"]
    by (simp add: disassemble_def pass2_eq pass3_def forEachInst_walk Let_def e)
qed

section \<open>Listing a file from left to right\<close>

definition text_of :: "u16 \<Rightarrow> u16 \<Rightarrow> nat \<Rightarrow> string" where
  "text_of prev w at = (case new_text prev w of None \<Rightarrow> dsm_decode w at | Some t \<Rightarrow> t)"

fun listed :: "u16 \<Rightarrow> u16 list \<Rightarrow> nat \<Rightarrow> string list" where
  "listed prev [] at = []"
| "listed prev (w # ws) at = (if ws \<noteq> [] \<and> hides w (hd ws) then [] else text_of prev w at) # listed w ws (at + 1)"

lemma listed_nth:
  "i < length ws \<Longrightarrow> listed prev ws at ! i =
     (if i + 1 < length ws \<and> hides (ws ! i) (ws ! (i + 1)) then [] else text_of ((prev # ws) ! i) (ws ! i) (at + i))"
  by (induction prev ws at arbitrary: i rule: listed.induct) (auto simp: nth_Cons' hd_conv_nth)

lemma length_listed [simp]: "length (listed prev ws at) = length ws"
  by (induction prev ws at rule: listed.induct) auto

lemma listing_listed: "map (listing ws) [0..<length ws] = listed 0 ws 0"
  by (intro nth_equalityI) (auto simp: listed_nth listing_def line_text_def text_of_def prev_word_def nth_Cons')

section \<open>Canonical statements\<close>

text \<open>Statements that are written the way the listing writes them: no instruction that has an alias, not
  the zero word, which ends a listing, no alias on \<open>r0\<close> and none of those the listing does not use,
  not \<open>y05\<close> and \<open>y06\<close>, which it prints wrongly, and a branch only to a target below 128, since it prints
  targets modulo 128.\<close>

fun canonical :: "stmt \<Rightarrow> bool" where
  "canonical (Inst i) =
     (case i of Lui a u \<Rightarrow> False | Ldw a b k \<Rightarrow> a \<noteq> 0 \<or> b \<noteq> 0 \<or> k \<noteq> 0
      | Adi a b k \<Rightarrow> a \<noteq> b \<or> a = 0 \<or> bit k 6 | Yop y a b \<Rightarrow> y \<noteq> Y05 \<and> y \<noteq> Y06 | _ \<Rightarrow> i \<noteq> nop)"
| "canonical (BeqTo a b t) = (unat t < 128)"
| "canonical (Ldi a w) = (a \<noteq> 0)"
| "canonical (Lli a k) = (a \<noteq> 0)"
| "canonical (Lsi a k) = False"
| "canonical (Ior a b k) = False"
| "canonical (Iow a b k) = False"
| "canonical (Srr a b k) = False"
| "canonical (Srw a b k) = False"
| "canonical _ = True"

section \<open>What is listed for the code of a statement\<close>

lemma enc_op:
  "bits (encode i) 15 13 = (case i of Ldw _ _ _ \<Rightarrow> 0 | Ldb _ _ _ \<Rightarrow> 1 | Stw _ _ _ \<Rightarrow> 2 | Stb _ _ _ \<Rightarrow> 3
     | Beq _ _ _ \<Rightarrow> 4 | Adi _ _ _ \<Rightarrow> 5 | Lui _ _ \<Rightarrow> 6 | _ \<Rightarrow> 7)"
  by (cases i) (simp_all add: enc_rri_fields enc_lui_fields enc_jlr_fields enc_f_fields)

lemma enc_jump: "bits (encode i) 15 12 = 0xE \<longleftrightarrow> (\<exists>a b k. i = Jlr a b k)"
proof (cases i)
  case (Jlr a b k)
  then show ?thesis using jlr_top [of a b k] by (simp add: bits_top)
next
  case (Xop x a b c) then show ?thesis by (simp add: bits_top f_top)
next
  case (Yop y a b) then show ?thesis by (simp add: bits_top f_top)
next
  case (Zop z a) then show ?thesis by (simp add: bits_top f_top)
next
  case (Vop v) then show ?thesis by (simp add: bits_top f_top)
qed (use field_7 [of "encode i"] enc_op [of i] in auto)

lemma encode_nop: "encode nop = 0xFFC8"
  by (simp add: nop_def enc_f_def cat_def push_bit_eq_mult)

lemma nop_top: "bits (encode nop) 15 13 = 7"
  by (simp add: enc_f_fields nop_def)

lemma enc_nop_iff: "encode i = 0xFFC8 \<longleftrightarrow> i = nop"
  using bij_encode encode_nop by (metis bij_pointE)

lemma bits_66: "bits (ucast (k :: 7 word)) 6 6 = 0 \<longleftrightarrow> \<not> bit k 6"
  using bits66 [of k] by blast

lemma bits_6_short: "bits (ucast (ucast (k :: 6 word) :: 7 word)) 6 6 = 0"
  unfolding bits_66 by (auto simp: bit_ucast_iff dest: bit_imp_le_length)

lemma wide_back:
  "push_bit 6 (ucast (upper_imm w)) OR ucast (ucast (lower_imm w) :: 7 word) = (w :: u16)"
  "push_bit 6 (ucast (upper_imm w)) OR ucast (lower_imm w) = (w :: u16)"
proof -
  have m: "(0x3FF :: u16) = mask 10" "(0x3F :: u16) = mask 6" by (simp_all add: mask_eq_exp_minus_1)
  show "push_bit 6 (ucast (upper_imm w)) OR ucast (ucast (lower_imm w) :: 7 word) = (w :: u16)"
    "push_bit 6 (ucast (upper_imm w)) OR ucast (lower_imm w) = (w :: u16)"
    unfolding upper_imm_def lower_imm_def m
    by (intro bit_word_eqI; auto simp: bit_simps dest: bit_imp_le_length)+
qed

lemma ucast_inj_r3: "(ucast (a :: r3) :: u16) = ucast b \<longleftrightarrow> a = b"
  using unat_ucast16 [of a] unat_ucast16 [of b] by (auto simp: word_unat_eq_iff)

lemma new_text_adi:
  assumes "a \<noteq> b \<or> a = 0 \<or> bit k 6" "bits prev 15 13 \<noteq> 6"
  shows "new_text prev (encode (Adi a b k)) = (if a = b \<and> a \<noteq> 0 then Some (print_inst (Adi a b k) at) else None)"
proof -
  define w where "w = encode (Adi a b k)"
  have f: "bits w 15 13 = 5" "bits w 12 6 = ucast k" "bits w 5 3 = ucast b" "bits w 2 0 = ucast a"
    "bits w 12 12 = 0 \<longleftrightarrow> \<not> bit k 6" using bits_66 [of k] by (simp_all add: w_def enc_rri_fields)
  have g: "bits w 15 12 \<noteq> 0xE" "w \<noteq> 0xFFC8"
    unfolding w_def enc_jump enc_nop_iff by (auto simp: nop_def)
  have e: "(ucast b = (ucast a :: u16)) = (a = b)" "(ucast a = (0 :: u16)) = (a = 0)" by (auto simp: ucast_inj_r3 r3_eq)
  show ?thesis unfolding w_def [symmetric]
    using assms(1) by (auto simp: new_text_def f g e rn_def rri_text_def hex_def)
qed

text \<open>A single instruction that has no alias is listed as the reference printer prints it.\<close>

lemma text_printed:
  assumes "i \<noteq> nop" "\<forall>a b k. i \<noteq> Jlr a b k" "\<forall>a b k. i = Adi a b k \<longrightarrow> a \<noteq> b \<or> a = 0 \<or> bit k 6" "bits prev 15 13 \<noteq> 6"
  shows "text_of prev (encode i) at = print_inst i at"
proof (cases "\<exists>a b k. i = Adi a b k")
  case True
  then show ?thesis using assms new_text_adi [of _ _ _ prev at]
    by (auto simp: text_of_def decode_print inst_of_encode simp del: encode.simps print_inst.simps)
next
  case False
  then have "bits (encode i) 15 13 \<noteq> 5" by (auto simp: enc_op split: inst.split)
  moreover have "bits (encode i) 15 12 \<noteq> 0xE" using assms by (auto simp: enc_jump)
  ultimately show ?thesis using assms(1) by (simp add: text_of_def new_text_def enc_nop_iff decode_print inst_of_encode)
qed

lemma text_inst:
  assumes "canonical (Inst i)" "stmt_code (Inst i) here = Some is" "bits prev 15 13 \<noteq> 6"
  shows "is = [i]" "bits (encode i) 15 13 \<noteq> 6" "text_of prev (encode i) at = stmt_text (Inst i)"
proof -
  have i: "\<forall>a b k. i \<noteq> Jlr a b k" "\<forall>a b k. i \<noteq> Beq a b k" "is = [i]" using assms(2) by (cases i; simp)+
  then show "is = [i]" by blast
  show "bits (encode i) 15 13 \<noteq> 6" using assms(1) by (auto simp: enc_op simp del: encode.simps split: inst.splits)
  have "text_of prev (encode i) at = print_inst i at"
    by (rule text_printed) (use assms(1,3) i in \<open>auto simp: nop_def split: inst.splits\<close>)
  moreover have "print_inst i at = stmt_text (Inst i)"
  proof (cases i)
    case (Yop y a b)
    then show ?thesis using assms(1) by (cases y) simp_all
  qed (use i in simp_all)
  ultimately show "text_of prev (encode i) at = stmt_text (Inst i)" by simp
qed

lemma text_beq:
  assumes "unat t < 128" "bits prev 15 13 \<noteq> 6"
  shows "text_of prev (encode (asm_beq a b t (of_nat at))) at = stmt_text (BeqTo a b t)"
proof -
  have "text_of prev (encode (asm_beq a b t (of_nat at))) at = print_inst (asm_beq a b t (of_nat at)) at"
    by (rule text_printed) (use assms(2) in \<open>simp_all add: asm_beq_def nop_def\<close>)
  then show ?thesis using beq_target_back [of t at] assms(1) by (simp add: asm_beq_def rri_text_def)
qed


lemma lli_fields:
  "bits (encode (lli a k)) 15 13 = 5" "bits (encode (lli a k)) 12 6 = ucast (ucast k :: 7 word)"
  "bits (encode (lli a k)) 5 3 = ucast a" "bits (encode (lli a k)) 2 0 = ucast a" "bits (encode (lli a k)) 12 12 = 0"
  by (simp_all add: lli_def enc_rri_fields bits_6_short)

lemma jlr_word_fields:
  "bits (encode (Jlr a b k)) 15 13 = 7" "bits (encode (Jlr a b k)) 15 12 = 0xE" "bits (encode (Jlr a b k)) 12 6 = ucast k"
  "bits (encode (Jlr a b k)) 5 3 = ucast b" "bits (encode (Jlr a b k)) 2 0 = ucast a"
  by (simp_all add: enc_jlr_fields enc_jlr_imm) (simp add: jlr_top [simplified] bits_top)

lemma lui_word_fields:
  "bits (encode (Lui a u)) 15 13 = 6" "bits (encode (Lui a u)) 12 3 = ucast u" "bits (encode (Lui a u)) 2 0 = ucast a"
  by (simp_all add: enc_lui_fields)

lemmas word_fields = lli_fields jlr_word_fields lui_word_fields r3_eq ucast_inj_r3

lemma hides_pairs:
  "a \<noteq> 0 \<Longrightarrow> hides (encode (Lui a u)) (encode (lli a k))"
  "hides (encode (Lui b u)) (encode (Jlr 1 b k))"
  "hides (encode (Lui b u)) (encode (Jlr 2 b k))"
  by (simp_all add: hides_def is_lli_def is_jump_def word_fields del: encode.simps)

lemma text_pairs:
  "a \<noteq> 0 \<Longrightarrow> text_of (encode (Lui a (upper_imm w))) (encode (lli a (lower_imm w))) at = stmt_text (Ldi a w)"
  "text_of (encode (Lui b (upper_imm w))) (encode (Jlr 1 b (lower_imm w))) at = stmt_text (Jsr b w)"
  "text_of (encode (Lui b (upper_imm w))) (encode (Jlr 2 b (lower_imm w))) at = stmt_text (Jmp b w)"
  by (simp_all add: text_of_def new_text_def wide_imm_def word_fields wide_back rn_def hex_def del: encode.simps)

lemma text_single:
  assumes "bits prev 15 13 \<noteq> 6"
  shows "a \<noteq> 0 \<Longrightarrow> text_of prev (encode (lli a k)) at = stmt_text (Lli a k)"
    "a \<noteq> 0 \<Longrightarrow> text_of prev (encode (Jlr 1 a 0)) at = stmt_text (JsrReg a)"
    "a \<noteq> 0 \<Longrightarrow> text_of prev (encode (Jlr 2 a 0)) at = stmt_text (JmpReg a)"
    "k AND 1 \<noteq> 1 \<Longrightarrow> text_of prev (encode (Jlr 0 0 k)) at = stmt_text (SysCall k)"
    "text_of prev (encode nop) at = stmt_text Nop"
proof -
  have "\<not> bit k 0" if "k AND 1 \<noteq> 1" using that by (auto simp: and_one_eq mod2_eq_if bit_0 split: if_splits)
  then have e: "k AND 1 \<noteq> 1 \<Longrightarrow> (ucast k :: u16) AND 1 = 0"
    by (intro bit_word_eqI) (auto simp: bit_and_iff bit_1_iff bit_ucast_iff intro!: Nat.gr0I)
  then show "k AND 1 \<noteq> 1 \<Longrightarrow> text_of prev (encode (Jlr 0 0 k)) at = stmt_text (SysCall k)"
    by (simp add: text_of_def new_text_def word_fields Let_def del: encode.simps)
  show "text_of prev (encode nop) at = stmt_text Nop"
    unfolding encode_nop by (simp add: text_of_def new_text_def bits_def)
qed (use assms in \<open>simp_all add: text_of_def new_text_def word_fields rn_def hex_def unat_ucast_le del: encode.simps\<close>)


section \<open>The listing of an assembled source\<close>

lemma code_words_assemble:
  "\<forall>i \<in> set prg. encode i \<noteq> 0 \<Longrightarrow> at + length prg \<le> 65536 \<Longrightarrow> code_words (assemble prg) at = map encode prg"
  by (induction prg arbitrary: at) (simp_all add: assemble_def le_bytes_def le_word)

lemma listed_last:
  assumes "bits w 15 13 \<noteq> 6" shows "listed prev (w # ws) at = text_of prev w at # listed w ws (at + 1)"
  using assms by (simp add: hides_def)

text \<open>A statement's code is one instruction, or a \<open>lui\<close> and the instruction that swallows it.\<close>

lemma stmt_shape:
  assumes "canonical s" "stmt_code s (of_nat at) = Some is" "bits prev 15 13 \<noteq> 6"
  shows "(\<exists>i. is = [i] \<and> bits (encode i) 15 13 \<noteq> 6 \<and> text_of prev (encode i) at = stmt_text s)
    \<or> (\<exists>j i. is = [j, i] \<and> hides (encode j) (encode i) \<and> bits (encode i) 15 13 \<noteq> 6
          \<and> text_of (encode j) (encode i) (at + 1) = stmt_text s)"
proof (cases s)
  case (Inst i)
  show ?thesis unfolding Inst using text_inst [OF assms [unfolded Inst]] by blast
next
  case (BeqTo a b t)
  then show ?thesis using assms text_beq [of t prev a b at] by (auto simp: asm_beq_def enc_op simp del: encode.simps)
next
  case (Ldi a w)
  then show ?thesis using assms hides_pairs(1) [of a] text_pairs(1) [of a w]
    by (auto simp: ldi_def lli_def [symmetric] lli_fields simp del: encode.simps stmt_text.simps)
next
  case (Jsr b w)
  then show ?thesis using assms hides_pairs(2) [of b] text_pairs(2) [of b w]
    by (auto simp: jsr_def jlr_word_fields simp del: encode.simps stmt_text.simps split: if_splits)
next
  case (Jmp b w)
  then show ?thesis using assms hides_pairs(3) [of b] text_pairs(3) [of b w]
    by (auto simp: jmp_def jlr_word_fields simp del: encode.simps stmt_text.simps split: if_splits)
qed (use assms text_single [of prev] in
  \<open>auto simp: lli_fields jlr_word_fields jsr_reg_def jmp_reg_def sys_def nop_top simp del: encode.simps stmt_text.simps split: if_splits\<close>)

lemma listed_stmt:
  assumes "canonical s" "stmt_code s (of_nat at) = Some is" "bits prev 15 13 \<noteq> 6"
  shows "\<exists>last. bits last 15 13 \<noteq> 6 \<and>
    filter (\<lambda>t. t \<noteq> []) (listed prev (map encode is @ ws) at)
      = stmt_text s # filter (\<lambda>t. t \<noteq> []) (listed last ws (at + length is))"
  using stmt_shape [OF assms]
proof (elim disjE exE conjE)
  fix i assume "is = [i]" "bits (encode i) 15 13 \<noteq> 6" "text_of prev (encode i) at = stmt_text s"
  then show ?thesis using text_nonempty [of s]
    by (intro exI [of _ "encode i"]) (simp add: listed_last del: listed.simps)
next
  fix j i assume *: "is = [j, i]" "hides (encode j) (encode i)" "bits (encode i) 15 13 \<noteq> 6"
    "text_of (encode j) (encode i) (at + 1) = stmt_text s"
  then show ?thesis using text_nonempty [of s] listed_last [of "encode i" "encode j" ws "at + 1"]
    by (intro exI [of _ "encode i"]) simp
qed

lemma listed_source:
  "\<forall>s \<in> set src. canonical s \<Longrightarrow> source_code src at = Some prg \<Longrightarrow> bits prev 15 13 \<noteq> 6 \<Longrightarrow>
   filter (\<lambda>t. t \<noteq> []) (listed prev (map encode prg) at) = map stmt_text src"
proof (induction src arbitrary: prg prev at)
  case (Cons s src)
  then obtain "is" js where c: "stmt_code s (of_nat at) = Some is" "source_code src (at + length is) = Some js" "prg = is @ js"
    by (auto split: option.splits)
  then obtain last where "bits last 15 13 \<noteq> 6"
    "filter (\<lambda>t. t \<noteq> []) (listed prev (map encode is @ map encode js) at)
      = stmt_text s # filter (\<lambda>t. t \<noteq> []) (listed last (map encode js) (at + length is))"
    using listed_stmt [of s at "is" prev "map encode js"] Cons.prems by auto
  then show ?case using Cons.IH [OF _ c(2), of last] Cons.prems(1) c by simp
qed simp

lemma encode_0: "encode i = 0 \<longleftrightarrow> i = Ldw 0 0 0"
proof -
  have "encode (Ldw 0 0 0) = 0" by (simp add: enc_rri_0)
  then show ?thesis using bij_encode by (metis bij_pointE)
qed

lemma stmt_code_nonzero: "canonical s \<Longrightarrow> stmt_code s here = Some is \<Longrightarrow> Ldw 0 0 0 \<notin> set is"
  by (induction s here rule: stmt_code.induct)
     (auto simp: ldi_def lli_def jsr_def jmp_def jsr_reg_def jmp_reg_def sys_def nop_def asm_beq_def split: if_splits)

lemma source_code_nonzero:
  "\<forall>s \<in> set src. canonical s \<Longrightarrow> source_code src at = Some prg \<Longrightarrow> i \<in> set prg \<Longrightarrow> encode i \<noteq> 0"
proof (induction src arbitrary: prg at)
  case (Cons s src)
  then obtain "is" js where c: "stmt_code s (of_nat at) = Some is" "source_code src (at + length is) = Some js" "prg = is @ js"
    by (auto split: option.splits)
  then show ?case using Cons.IH [OF _ c(2)] Cons.prems stmt_code_nonzero [OF _ c(1)] encode_0 by auto
qed simp

lemma listing_of_source:
  assumes "\<forall>s \<in> set src. canonical s" "source_code src 0 = Some prg" "length prg \<le> 65536"
  shows "disassemble True (assemble prg) = Inr (concat (map (\<lambda>s. stmt_text s @ newline) src))"
proof -
  have "code_words (assemble prg) 0 = map encode prg"
    using source_code_nonzero [OF assms(1,2)] assms(3) by (intro code_words_assemble) auto
  moreover have "filter (\<lambda>t. t \<noteq> []) (listed 0 (map encode prg) 0) = map stmt_text src"
    using assms by (intro listed_source) (simp_all add: bits_def)
  moreover have "map (listing (map encode prg)) [0..<length (map encode prg)] = listed 0 (map encode prg) 0"
    by (rule listing_listed)
  ultimately show ?thesis by (simp add: disassemble_eq Let_def comp_def)
qed

lemma source_read:
  "source_code src at = Some prg \<Longrightarrow> map (\<lambda>s. read_stmt (stmt_text s)) src = map Some src"
proof (induction src arbitrary: prg at)
  case (Cons s src)
  then show ?case using read_stmt_text [of s "of_nat at"] by (auto split: option.splits)
qed simp

end
