(* ===== verification/Disassembler.thy ===== *)
theory Disassembler
  imports Dsm_List
begin

text \<open>
  The properties of the disassembler (\<open>dsm/dsm.go\<close>).
\<close>

text \<open>(C17) The disassembler's table search prints every one of the 65536 words as the reference
  printer prints the instruction that the assembler's rules encode to that word.\<close>

theorem dsm_prints_assembler_syntax:
  "dsm_decode w at = print_inst (inst_of w) at"
  by (rule decode_print)

text \<open>(C18) Reading a line of a listing back by the assembler's rules, at the address it was listed for, gives
  the instruction word again, branches included, although a branch target is printed modulo 128. There
  are three exceptions: no rule accepts the lines of \<open>jlr\<close> and of \<open>y06\<close>, which is printed without
  operands, and the line of \<open>y05\<close> is read as \<open>y06\<close>.\<close>

theorem dsm_line_reads_back:
  "map_option encode (read_line (dsm_decode w at) (of_nat at)) =
     (case inst_of w of Jlr a b k \<Rightarrow> None | Yop Y06 a b \<Rightarrow> None | Yop Y05 a b \<Rightarrow> Some (encode (Yop Y06 a b)) | _ \<Rightarrow> Some w)"
proof -
  have "map_option encode (read_line (dsm_decode w at) (of_nat at)) =
     (case inst_of w of Jlr a b k \<Rightarrow> None | Yop Y06 a b \<Rightarrow> None | Yop Y05 a b \<Rightarrow> Some (encode (Yop Y06 a b)) | i \<Rightarrow> Some (encode i))"
    by (simp add: decode_print read_print del: encode.simps split: inst.split yopc.split)
  then show ?thesis using encode_inst_of [of w] by (auto simp del: encode.simps split: inst.splits yopc.splits)
qed

lemma enc_witness: "inst_of 0x8FD1 = Beq 1 2 0x3F"
  using inst_of_encode [of "Beq 1 2 0x3F"] by (simp add: enc_rri_def cat_def push_bit_eq_mult)

text \<open>(C19) For every file, the three passes of the disassembler end without a panic, and print, line by
  line, what the specification \<open>listing\<close> says of a word and its two neighbours.\<close>

theorem disassemble_is_listing:
  "disassemble q f = (let ws = code_words f 0 in
     Inr (if q then concat (map (\<lambda>t. t @ newline) (filter (\<lambda>t. t \<noteq> []) (map (listing ws) [0..<length ws])))
          else concat (map (\<lambda>i. long_line i (ws ! i) (listing ws i)) [0..<length ws])))"
  by (rule disassemble_eq)

text \<open>(C20) A source in canonical form that is assembled and disassembled comes back line by line: the
  listing is the text of the source, whose lines the assembler's rules read as these statements. The
  aliases \<open>ldi\<close>, \<open>lli\<close>, \<open>jsr\<close>, \<open>jmp\<close>, \<open>sys\<close> and \<open>nop\<close>, some of two words, are all recovered.\<close>

theorem listing_is_source:
  assumes "\<forall>s \<in> set src. canonical s" "source_code src 0 = Some prg" "length prg \<le> 65536"
  shows "disassemble True (assemble prg) = Inr (concat (map (\<lambda>s. stmt_text s @ newline) src))
    \<and> map (\<lambda>s. read_stmt (stmt_text s)) src = map Some src"
  using listing_of_source [OF assms] source_read [OF assms(2)] by blast

theorem listing_is_source_witness:
  "disassemble True (assemble [Lui 1 72, Adi 1 1 52, Lui 3 4, Jlr 1 3 0, Xop Add 1 2 3, Beq 1 2 0x7B, Vop Hlt])
    = Inr (concat (map (\<lambda>s. stmt_text s @ newline) [Ldi 1 0x1234, Jsr 3 0x100, Inst (Xop Add 1 2 3), BeqTo 1 2 1, Inst (Vop Hlt)]))"
  using listing_is_source [of "[Ldi 1 0x1234, Jsr 3 0x100, Inst (Xop Add 1 2 3), BeqTo 1 2 1, Inst (Vop Hlt)]"
      "[Lui 1 72, Adi 1 1 52, Lui 3 4, Jlr 1 3 0, Xop Add 1 2 3, Beq 1 2 0x7B, Vop Hlt]"]
  by (simp add: nop_def ldi_def jsr_def upper_imm_def lower_imm_def asm_beq_def del: stmt_text.simps print_inst.simps)

text \<open>(C9) Every 16-bit word is the code of exactly one machine instruction, and the words that the
  assembler's rules can give are all but those of the \<open>jlr\<close> instructions that no alias stands for: with \<open>ra\<close>
  0 and an odd number or \<open>rb\<close> other than 0, with \<open>ra\<close> 1 or 2 and \<open>rb\<close> 0, and with \<open>ra\<close> above 2.\<close>

theorem instruction_words:
  "bij encode \<and> (\<forall>w. encode (inst_of w) = w) \<and>
   (\<forall>w. (\<exists>s here is. stmt_code s here = Some is \<and> w \<in> encode ` set is) \<longleftrightarrow> jlr_written (inst_of w))"
proof -
  have "(\<exists>s here is. stmt_code s here = Some is \<and> w \<in> encode ` set is) \<longleftrightarrow> jlr_written (inst_of w)" for w
  proof
    assume "\<exists>s here is. stmt_code s here = Some is \<and> w \<in> encode ` set is"
    then show "jlr_written (inst_of w)" using written_code by (auto simp: inst_of_encode simp del: encode.simps)
  next
    assume "jlr_written (inst_of w)"
    then obtain s here "is" where "stmt_code s here = Some is" "inst_of w \<in> set is" using code_written by blast
    then have "stmt_code s here = Some is \<and> w \<in> encode ` set is" using image_eqI [of w encode "inst_of w"] by (simp only: encode_inst_of)
    then show "\<exists>s here is. stmt_code s here = Some is \<and> w \<in> encode ` set is" by blast
  qed
  then show ?thesis using bij_encode encode_inst_of by blast
qed

text \<open>(C21) When the emulator's dump starts this disassembler on the current instruction, the
  argument it formats is parsed to that instruction and address, and the text shown is the reference
  printer's.\<close>

theorem emulator_shows_instruction:
  assumes "dsm_cmd s = dsm_process"
  shows "rundis s (''0x'' @ fmt_X 4 (unat w) @ ''@0x'' @ fmt_X 4 (unat (p :: u16))) = Inr (print_inst (inst_of w) (unat p))"
  using rundis_dsm [OF assms, of w p] by (simp add: decode_print)

theorem emulator_shows_instruction_witness:
  "rundis (init_emu False False False [] dsm_process) (''0x'' @ fmt_X 4 (unat (0x8FD1 :: u16)) @ ''@0x'' @ fmt_X 4 (unat (16 :: u16)))
    = Inr (print_inst (Beq 1 2 0x3F) 16)"
  using emulator_shows_instruction [of "init_emu False False False [] dsm_process" "0x8FD1" 16] by (simp add: enc_witness init_emu_def)

text \<open>(C22) A \<open>lui\<close> followed by an \<open>lli\<close> of another register is listed as one \<open>ldi\<close> of the second
  register: two different programs have the same listing.\<close>

theorem condense_ignores_register:
  assumes "a \<noteq> b" "b \<noteq> 0"
  shows "assemble [Lui a u, lli b k] \<noteq> assemble [Lui b u, lli b k]
    \<and> disassemble True (assemble [Lui a u, lli b k]) = disassemble True (assemble [Lui b u, lli b k])"
proof
  let ?t = "\<lambda>x. text_of (encode (Lui x u)) (encode (lli b k)) 1"
  have cw: "code_words (assemble [Lui x u, lli b k]) 0 = map encode [Lui x u, lli b k]" for x
    by (rule code_words_assemble) (auto simp: encode_0 lli_def simp del: encode.simps)
  have d: "disassemble True (assemble [Lui x u, lli b k]) = Inr (concat (map (\<lambda>t. t @ newline) (filter (\<lambda>t. t \<noteq> []) [?t x])))" for x
  proof -
    have "hides (encode (Lui x u)) (encode (lli b k))"
      using assms(2) by (simp add: hides_def is_lli_def word_fields del: encode.simps)
    then show ?thesis
      using listing_listed [of "map encode [Lui x u, lli b k]"] by (simp add: cw disassemble_eq Let_def del: encode.simps)
  qed
  have "?t a = ?t b"
    using assms(2) by (simp add: text_of_def new_text_def wide_imm_def word_fields del: encode.simps)
  then show "disassemble True (assemble [Lui a u, lli b k]) = disassemble True (assemble [Lui b u, lli b k])"
    by (simp only: d)
  show "assemble [Lui a u, lli b k] \<noteq> assemble [Lui b u, lli b k]"
  proof
    assume "assemble [Lui a u, lli b k] = assemble [Lui b u, lli b k]"
    then have "map encode [Lui a u, lli b k] = map encode [Lui b u, lli b k]" by (simp only: cw [symmetric])
    then have "inst_of (encode (Lui a u)) = inst_of (encode (Lui b u))" by (simp del: encode.simps)
    then show False using assms(1) by (simp add: inst_of_encode del: encode.simps)
  qed
qed

theorem condense_ignores_register_witness:
  "disassemble True (assemble [Lui 1 72, lli 2 52]) = disassemble True (assemble [Lui 2 72, lli 2 52])"
  using condense_ignores_register [of 1 2 72 52] by simp


end
