(* ===== verification/Yapl.thy ===== *)
theory Yapl
  imports Prelude
begin

text \<open>
  The YAPL-1 compiler (\<open>yapl-1/\<close>): its types and error codes (\<open>types.go\<close>, \<open>error.go\<close>) and its input
  and output (\<open>io.go\<close>). The package variables of all its files are the record \<open>yc\<close>; a Go
  array is a function with its bound checked on every access. What the operating system does is part of
  the state: the bytes that are still to be read on each descriptor and whether a read past them is an
  error, and the result of a write.
\<close>

section \<open>Types\<close>

type_synonym Token = u16
type_synonym SymIndex = u16
type_synonym StrIndex = u16
type_synonym AstIndex = u16

definition STDIN :: u16 where "STDIN = 0"
definition STDOUT :: u16 where "STDOUT = 1"

record Syment =
  Val :: u16
  Len :: u8
  Info :: u8

definition SYMTAB_MAX :: SymIndex where "SYMTAB_MAX = 4096"
definition SYMLEN_MAX :: u16 where "SYMLEN_MAX = 16"
definition STRTAB_MAX :: StrIndex where "STRTAB_MAX = 8192"

record AstNode =
  Sym :: SymIndex
  Size :: u16
  Kind :: u8
  Xtra :: u8

definition AstMaxNode :: AstIndex where "AstMaxNode = 2048"

definition AstKindNone :: u8 where "AstKindNone = 0"
definition AstKindError :: u8 where "AstKindError = 1"
definition AstKindUsr :: u8 where "AstKindUsr = 2"
definition AstXtraDecl :: u8 where "AstXtraDecl = 1"

text \<open>How a run stops early: a failed bounds check, a failed \<open>Assert\<close>, a failed type assertion, or \<open>Exit\<close>.\<close>

datatype stop = OutOfRange | Failed string | BadType | Exited u16

text \<open>The dynamic types of the values that are passed as \<open>any\<close>.\<close>

datatype any = AAst AstIndex | AStr StrIndex | ASym SymIndex | ATok Token | AWord u16 | AByte u8 | AText string | AInt int

definition Assert :: "bool \<Rightarrow> string \<Rightarrow> stop + unit" where
  "Assert c msg = (if \<not> c then Inl (Failed msg) else Inr ())"

fun AsWord :: "any \<Rightarrow> stop + u16" where
  "AsWord (AAst q) = Inr q"
| "AsWord (AStr q) = Inr q"
| "AsWord (ASym q) = Inr q"
| "AsWord (ATok q) = Inr q"
| "AsWord (AWord q) = Inr q"
| "AsWord _ = bindE (Assert False ''AsWord(): unknown type'') (\<lambda>_. Inr 0)"

section \<open>Error codes\<close>

definition ErrBase :: u16 where "ErrBase = 0xC000"

definition ERR_LEX :: u16 where "ERR_LEX = 0x100"
definition ERR_PARSE :: u16 where "ERR_PARSE = 0x200"
definition ERR_SYM :: u16 where "ERR_SYM = 0x600"
definition ERR_INT :: u16 where "ERR_INT = 0x700"

definition ERR_LEX_INVAL :: u16 where "ERR_LEX_INVAL = ErrBase OR ERR_LEX OR 1"
definition ERR_LEX_IO :: u16 where "ERR_LEX_IO = ErrBase OR ERR_LEX OR 2"
definition ERR_LEX_UNEXP :: u16 where "ERR_LEX_UNEXP = ErrBase OR ERR_LEX OR 3"
definition ERR_PARSE_ERR :: u16 where "ERR_PARSE_ERR = ErrBase OR ERR_PARSE OR 1"
definition ERR_SYM_REDEF :: u16 where "ERR_SYM_REDEF = ErrBase OR ERR_SYM OR 1"
definition ERR_SYM_NODEF :: u16 where "ERR_SYM_NODEF = ErrBase OR ERR_SYM OR 2"
definition ERR_INT_NOSTR :: u16 where "ERR_INT_NOSTR = ErrBase OR ERR_INT OR 1"
definition ERR_INT_NOSYM :: u16 where "ERR_INT_NOSYM = ErrBase OR ERR_INT OR 2"
definition ERR_INT_TOOBIG :: u16 where "ERR_INT_TOOBIG = ErrBase OR ERR_INT OR 3"
definition ERR_INT_BUG :: u16 where "ERR_INT_BUG = ErrBase OR ERR_INT OR 4"
definition ERR_INT_INIT :: u16 where "ERR_INT_INIT = ErrBase OR ERR_INT OR 5"
definition ERR_INT_CAST :: u16 where "ERR_INT_CAST = ErrBase OR ERR_INT OR 6"

lemmas err_defs = ErrBase_def ERR_LEX_def ERR_PARSE_def ERR_SYM_def ERR_INT_def ERR_LEX_INVAL_def ERR_LEX_IO_def
  ERR_LEX_UNEXP_def ERR_PARSE_ERR_def ERR_SYM_REDEF_def ERR_SYM_NODEF_def ERR_INT_NOSTR_def ERR_INT_NOSYM_def
  ERR_INT_TOOBIG_def ERR_INT_BUG_def ERR_INT_INIT_def ERR_INT_CAST_def

definition errorTable :: "u16 list" where
  "errorTable = [ERR_LEX_INVAL, ERR_LEX_IO, ERR_LEX_UNEXP, ERR_PARSE_ERR, ERR_SYM_REDEF, ERR_SYM_NODEF,
     ERR_INT_NOSTR, ERR_INT_NOSYM, ERR_INT_TOOBIG, ERR_INT_BUG, ERR_INT_INIT, ERR_INT_CAST]"

definition errorMessages :: "string list" where
  "errorMessages = [''invalid character'', ''i/o error on input'', ''unexpected char'', ''syntax error'',
     ''symbol redefined'', ''symbol undefined'', ''string table full'', ''symbol table full'',
     ''symbol or string too long'', ''unspecified internal error'', ''initialization error'', ''bad cast'']"

fun lookup_from :: "u16 list \<Rightarrow> nat \<Rightarrow> u16 \<Rightarrow> stop + string" where
  "lookup_from [] i code = Inr ''internal error: unknown error code''"
| "lookup_from (val # vals) i code =
     (if val = code then if i < length errorMessages then Inr (errorMessages ! i) else Inl OutOfRange
      else lookup_from vals (i + 1) code)"

definition LookupError :: "u16 \<Rightarrow> stop + string" where
  "LookupError code = lookup_from errorTable 0 code"

definition ERR_CONTINUE :: u16 where "ERR_CONTINUE = 1"
definition ERR_FATAL :: u16 where "ERR_FATAL = 2"

definition IsError :: "any \<Rightarrow> stop + bool" where
  "IsError q = bindE (AsWord q) (\<lambda>w. Inr (w \<ge> ErrBase))"

definition ErrorAsToken :: "any \<Rightarrow> stop + Token" where
  "ErrorAsToken q = bindE (AsWord q) (\<lambda>e. bindE (Assert (e \<ge> ErrBase) ''ErrorAsToken(): not an error'') (\<lambda>_. Inr e))"

definition ErrorAsSymIndex :: "any \<Rightarrow> stop + SymIndex" where
  "ErrorAsSymIndex q = bindE (AsWord q) (\<lambda>e. bindE (Assert (e \<ge> ErrBase) ''ErrorAsSymIndex(): not an error'') (\<lambda>_. Inr e))"

definition ErrorAsStrIndex :: "any \<Rightarrow> stop + StrIndex" where
  "ErrorAsStrIndex q = bindE (AsWord q) (\<lambda>e. bindE (Assert (e \<ge> ErrBase) ''ErrorAsStrIndex(): not an error'') (\<lambda>_. Inr e))"

definition ErrorAsAstIndex :: "any \<Rightarrow> stop + AstIndex" where
  "ErrorAsAstIndex q = bindE (AsWord q) (\<lambda>e. bindE (Assert (e \<ge> ErrBase) ''ErrorAsAstIndex(): not an error'') (\<lambda>_. Inr e))"

section \<open>State\<close>

record yc =
  symtab :: "nat \<Rightarrow> Syment"
  symtabNext :: SymIndex
  strtab :: "nat \<Rightarrow> u8"
  strtabNext :: StrIndex
  lastKeySymIndex :: SymIndex
  LexDebug :: bool
  inFD :: u16
  lineCount :: u16
  pbt :: Token
  AstNodes :: "nat \<Rightarrow> AstNode"
  astNodeNext :: AstIndex
  input :: "u16 \<Rightarrow> u8 list"
  read_error :: "u16 \<Rightarrow> bool"
  written :: "nat option"
  out :: "u8 list"

text \<open>The values that the package variables are initialised with, and a world that offers the input \<open>i\<close>.\<close>

definition yc_init :: "(u16 \<Rightarrow> u8 list) \<Rightarrow> (u16 \<Rightarrow> bool) \<Rightarrow> nat option \<Rightarrow> yc" where
  "yc_init i e w =
     \<lparr>symtab = \<lambda>_. \<lparr>Val = 0, Len = 0, Info = 0\<rparr>, symtabNext = 1, strtab = \<lambda>_. 0, strtabNext = 1,
      lastKeySymIndex = 0, LexDebug = True, inFD = 0, lineCount = 1, pbt = 0,
      AstNodes = \<lambda>_. \<lparr>Sym = 0, Size = 0, Kind = 0, Xtra = 0\<rparr>, astNodeNext = AstMaxNode - 1,
      input = i, read_error = e, written = w, out = []\<rparr>"

definition symtab_get :: "yc \<Rightarrow> u16 \<Rightarrow> stop + Syment" where
  "symtab_get s i = (if i < SYMTAB_MAX then Inr (symtab s (unat i)) else Inl OutOfRange)"

definition symtab_set :: "u16 \<Rightarrow> Syment \<Rightarrow> yc \<Rightarrow> stop + yc" where
  "symtab_set i e s = (if i < SYMTAB_MAX then Inr (s\<lparr>symtab := (symtab s)(unat i := e)\<rparr>) else Inl OutOfRange)"

definition strtab_get :: "yc \<Rightarrow> u16 \<Rightarrow> stop + u8" where
  "strtab_get s i = (if i < STRTAB_MAX then Inr (strtab s (unat i)) else Inl OutOfRange)"

definition strtab_set :: "u16 \<Rightarrow> u8 \<Rightarrow> yc \<Rightarrow> stop + yc" where
  "strtab_set i b s = (if i < STRTAB_MAX then Inr (s\<lparr>strtab := (strtab s)(unat i := b)\<rparr>) else Inl OutOfRange)"

definition ast_get :: "yc \<Rightarrow> u16 \<Rightarrow> stop + AstNode" where
  "ast_get s i = (if i < AstMaxNode then Inr (AstNodes s (unat i)) else Inl OutOfRange)"

definition ast_set :: "u16 \<Rightarrow> AstNode \<Rightarrow> yc \<Rightarrow> stop + yc" where
  "ast_set i n s = (if i < AstMaxNode then Inr (s\<lparr>AstNodes := (AstNodes s)(unat i := n)\<rparr>) else Inl OutOfRange)"

section \<open>Input and output\<close>

definition E_EOF :: u16 where "E_EOF = 0xFFFF"
definition E_IOERR :: u16 where "E_IOERR = 0xFFFE"
definition E_UNKNOWN :: u16 where "E_UNKNOWN = 0xFFFD"

definition TT_EOF :: Token where "TT_EOF = E_EOF"

definition Getb :: "u16 \<Rightarrow> yc \<Rightarrow> u16 \<times> yc" where
  "Getb fd s =
     (case input s fd of
        [] \<Rightarrow> if read_error s fd then (E_IOERR, s) else (E_EOF, s)
      | b # bs \<Rightarrow> (ucast b, s\<lparr>input := (input s)(fd := bs)\<rparr>))"

definition Putb :: "u16 \<Rightarrow> u8 \<Rightarrow> yc \<Rightarrow> u16 \<times> yc" where
  "Putb fd val s =
     (case written s of
        None \<Rightarrow> (E_IOERR, s)
      | Some n \<Rightarrow> if n \<noteq> 1 then (E_EOF, s) else (1, if fd = STDOUT then s\<lparr>out := out s @ [val]\<rparr> else s))"

text \<open>The printing functions drop the result of \<open>Putb\<close>.\<close>

definition put :: "u8 \<Rightarrow> yc \<Rightarrow> yc" where
  "put b s = snd (Putb STDOUT b s)"

definition printOops :: "any \<Rightarrow> yc \<Rightarrow> yc" where
  "printOops arg s = put 0x3F (put 0x3F (put 0x3F s))"

fun put_chars :: "string \<Rightarrow> yc \<Rightarrow> yc" where
  "put_chars [] s = s"
| "put_chars (c # cs) s = put_chars cs (put (of_char c) s)"

definition printS :: "any \<Rightarrow> yc \<Rightarrow> yc" where
  "printS arg s = (case arg of AText t \<Rightarrow> put_chars t s | _ \<Rightarrow> put 0x3F (put 0x73 s))"

definition hexChars :: string where "hexChars = ''0123456789ABCDEF''"

definition put_hex :: "u16 \<Rightarrow> yc \<Rightarrow> stop + yc" where
  "put_hex d s = (if unat d < length hexChars then Inr (put (of_char (hexChars ! unat d)) s) else Inl OutOfRange)"

definition printX :: "any \<Rightarrow> yc \<Rightarrow> stop + yc" where
  "printX arg s =
     (case arg of
        AWord w \<Rightarrow> bindE (put_hex (drop_bit 12 w) s) (\<lambda>s. bindE (put_hex (drop_bit 8 w AND 0xF) s)
                     (\<lambda>s. bindE (put_hex (drop_bit 4 w AND 0xF) s) (put_hex (w AND 0xF))))
      | AByte w \<Rightarrow> bindE (put_hex (ucast (drop_bit 4 w AND 0xF)) s) (put_hex (ucast (w AND 0xF)))
      | _ \<Rightarrow> Inr (put 0x3F (put 0x3F (put 0x3F (put 0x3F s)))))"

definition printC :: "any \<Rightarrow> yc \<Rightarrow> stop + yc" where
  "printC arg s = (case arg of AByte b \<Rightarrow> Inr (put b s) | _ \<Rightarrow> Inl BadType)"

text \<open>The loop of \<open>Printf\<close> over the characters of the format, with the flag \<open>fmt\<close> and the arguments
  that are left.\<close>

fun printf_loop :: "string \<Rightarrow> bool \<Rightarrow> any list \<Rightarrow> yc \<Rightarrow> stop + yc" where
  "printf_loop [] fmt args s = Inr s"
| "printf_loop (c # cs) fmt args s =
     (if fmt then
        (if c = CHR ''n'' then printf_loop cs False args (put 0x0A s)
         else case args of
           [] \<Rightarrow> printf_loop cs False args (printOops (AInt 0) s)
         | a # as \<Rightarrow>
             if c = CHR ''s'' then printf_loop cs False as (printS a s)
             else if c = CHR ''x'' then bindE (printX a s) (printf_loop cs False as)
             else if c = CHR ''c'' then bindE (printC a s) (printf_loop cs False as)
             else printf_loop cs False args (printOops (AInt 0) s))
      else if c = CHR 0x25 then printf_loop cs True args s
      else printf_loop cs False args (put (of_char c) s))"

definition Printf :: "string \<Rightarrow> any list \<Rightarrow> yc \<Rightarrow> stop + yc" where
  "Printf f args s = printf_loop f False args s"

definition PrintErr :: "string \<Rightarrow> u16 \<Rightarrow> u16 \<Rightarrow> u16 \<Rightarrow> yc \<Rightarrow> stop + yc" where
  "PrintErr fmt code sev val s =
     bindE (LookupError code) (\<lambda>m.
     bindE (Printf ''; Error: line %x: %s: '' [AWord (lineCount s), AText m] s) (\<lambda>s.
     bindE (Printf fmt [AWord val] s) (\<lambda>s.
     bindE (Printf ''%n'' [] s) (\<lambda>s.
       if sev = ERR_FATAL then Inl (Exited 2) else Inr s))))"

end
