(* ===== verification/Yapl_Sym.thy ===== *)
theory Yapl_Sym
  imports Yapl
begin

text \<open>
  The string table and the symbol table of the YAPL-1 compiler (\<open>yapl-1/sym.go\<close>). Strings are interned
  end to end in one byte array; a symbol table entry is a string, by its offset and length, or
  a number, with length 0.
\<close>

section \<open>Operations\<close>

definition StrtabAllocate :: "yc \<Rightarrow> stop + StrIndex" where
  "StrtabAllocate s =
     (if STRTAB_MAX - strtabNext s < SYMLEN_MAX then ErrorAsStrIndex (AWord ERR_INT_NOSTR) else Inr (strtabNext s))"

definition StrtabRemaining :: "yc \<Rightarrow> u16" where
  "StrtabRemaining s = (if STRTAB_MAX - strtabNext s < SYMLEN_MAX then 0 else STRTAB_MAX - strtabNext s)"

definition StrtabDiscard :: "yc \<Rightarrow> yc" where
  "StrtabDiscard s = s"

text \<open>The loop of \<open>NumLookup\<close> from index \<open>i\<close> on, with \<open>n\<close> entries left.\<close>

fun num_loop :: "yc \<Rightarrow> u16 \<Rightarrow> nat \<Rightarrow> SymIndex \<Rightarrow> stop + SymIndex" where
  "num_loop s val 0 i = ErrorAsSymIndex (AWord ERR_SYM_NODEF)"
| "num_loop s val (Suc n) i =
     bindE (symtab_get s i) (\<lambda>e.
       if Len e = 0 \<and> Val e = val then Inr i else num_loop s val n (i + 1))"

definition NumLookup :: "yc \<Rightarrow> u16 \<Rightarrow> stop + SymIndex" where
  "NumLookup s val = num_loop s val (unat (symtabNext s)) 0"

text \<open>The inner loop of \<open>SymLookup\<close>: whether the \<open>n\<close> bytes from offset \<open>j\<close> on are equal.\<close>

fun same_loop :: "yc \<Rightarrow> u16 \<Rightarrow> u16 \<Rightarrow> nat \<Rightarrow> u16 \<Rightarrow> stop + bool" where
  "same_loop s x y 0 j = Inr True"
| "same_loop s x y (Suc n) j =
     bindE (strtab_get s (x + j)) (\<lambda>a. bindE (strtab_get s (y + j)) (\<lambda>b.
       if a \<noteq> b then Inr False else same_loop s x y n (j + 1)))"

fun sym_loop :: "yc \<Rightarrow> StrIndex \<Rightarrow> u8 \<Rightarrow> nat \<Rightarrow> SymIndex \<Rightarrow> stop + SymIndex" where
  "sym_loop s val len 0 i = ErrorAsSymIndex (AWord ERR_SYM_NODEF)"
| "sym_loop s val len (Suc n) i =
     bindE (symtab_get s i) (\<lambda>e.
       if Len e = len
       then bindE (same_loop s (Val e) val (unat len) 0) (\<lambda>same. if same then Inr i else sym_loop s val len n (i + 1))
       else sym_loop s val len n (i + 1))"

definition SymLookup :: "yc \<Rightarrow> StrIndex \<Rightarrow> u8 \<Rightarrow> stop + SymIndex" where
  "SymLookup s val len =
     (if ucast len = (0 :: u16) then ErrorAsSymIndex (AWord ERR_INT_BUG)
      else if ucast len > SYMLEN_MAX then ErrorAsSymIndex (AWord ERR_INT_TOOBIG)
      else sym_loop s val len (unat (symtabNext s)) 0)"

definition SymEnter :: "u16 \<Rightarrow> u8 \<Rightarrow> yc \<Rightarrow> stop + (SymIndex \<times> yc)" where
  "SymEnter val len s =
     bindE (if len = 0 then NumLookup s val else SymLookup s val len) (\<lambda>symIndex.
       if symIndex < symtabNext s then Inr (symIndex, s)
       else if symtabNext s \<ge> SYMTAB_MAX then bindE (ErrorAsSymIndex (AWord ERR_INT_NOSYM)) (\<lambda>e. Inr (e, s))
       else let result = symtabNext s in
         bindE (symtab_set result \<lparr>Val = val, Len = len, Info = 0\<rparr>
                  (s\<lparr>symtabNext := symtabNext s + 1, strtabNext := strtabNext s + ucast len\<rparr>))
           (\<lambda>s. Inr (result, s)))"

definition TokenAsSymIndex :: "Token \<Rightarrow> SymIndex" where
  "TokenAsSymIndex t = t AND NOT ErrBase"

definition PrintSym :: "SymIndex \<Rightarrow> yc \<Rightarrow> stop + yc" where
  "PrintSym n s =
     bindE (IsError (ASym n)) (\<lambda>err.
       if err then Printf ''; SymIndex TT_ERR %x%n'' [ASym n] s
       else let n = n AND NOT ErrBase in
         bindE (Printf ''; SymIndex %x '' [ASym n] s) (\<lambda>s.
         bindE (symtab_get s n) (\<lambda>e.
           if Len e = 0 then Printf ''num %x%n'' [AWord (Val e)] s
           else bindE (strtab_get s (Val e)) (\<lambda>b. Printf ''sym %c%n'' [AByte b] s))))"

definition isKeySym :: "yc \<Rightarrow> SymIndex \<Rightarrow> bool" where
  "isKeySym s si = (si \<le> lastKeySymIndex s)"

definition AddLangSymbol :: "u8 \<Rightarrow> Token \<Rightarrow> yc \<Rightarrow> stop + (SymIndex \<times> yc)" where
  "AddLangSymbol symRaw t s =
     (let sy = symRaw AND 0xFF; constval = TokenAsSymIndex t
      in bindE (StrtabAllocate s) (\<lambda>pos.
         bindE (strtab_set pos sy s) (\<lambda>s.
         bindE (SymEnter pos 1 s) (\<lambda>(result, s).
         bindE (if result \<ge> ErrBase then PrintErr ''defining sym %x'' ERR_INT_INIT ERR_FATAL (ucast sy) s else Inr s) (\<lambda>s.
         bindE (if result \<noteq> constval then PrintErr ''defining sym %x'' ERR_INT_INIT ERR_FATAL (ucast sy) s else Inr s) (\<lambda>s.
           Inr (result, s\<lparr>lastKeySymIndex := result\<rparr>)))))))"

section \<open>The symbols of the language\<close>

definition TT_TYPE :: Token where "TT_TYPE = 0xC000"
definition TT_IDX :: Token where "TT_IDX = 0x3FFF"
definition TT_USR :: Token where "TT_USR = 0x0000"
definition TT_KEY :: Token where "TT_KEY = 0x4000"
definition TT_NUM :: Token where "TT_NUM = 0x8000"
definition TT_ERR :: Token where "TT_ERR = ErrBase"

definition tok_A :: Token where "tok_A = TT_KEY OR 1"
definition tok_B :: Token where "tok_B = TT_KEY OR 2"
definition tok_C :: Token where "tok_C = TT_KEY OR 3"
definition tok_D :: Token where "tok_D = TT_KEY OR 4"
definition tok_E :: Token where "tok_E = TT_KEY OR 5"
definition tok_F :: Token where "tok_F = TT_KEY OR 6"
definition tok_I :: Token where "tok_I = TT_KEY OR 7"
definition tok_P :: Token where "tok_P = TT_KEY OR 8"
definition tok_Q :: Token where "tok_Q = TT_KEY OR 9"
definition tok_V :: Token where "tok_V = TT_KEY OR 10"
definition HASH :: Token where "HASH = TT_KEY OR 11"
definition SEMI :: Token where "SEMI = TT_KEY OR 12"
definition EQU :: Token where "EQU = TT_KEY OR 13"
definition BOPEN :: Token where "BOPEN = TT_KEY OR 14"
definition BCLOSE :: Token where "BCLOSE = TT_KEY OR 15"
definition PLUS :: Token where "PLUS = TT_KEY OR 16"
definition tok_ERR :: Token where "tok_ERR = TT_KEY OR 17"

lemmas tok_defs = TT_TYPE_def TT_IDX_def TT_USR_def TT_KEY_def TT_NUM_def TT_ERR_def tok_A_def tok_B_def tok_C_def tok_D_def
  tok_E_def tok_F_def tok_I_def tok_P_def tok_Q_def tok_V_def HASH_def SEMI_def EQU_def BOPEN_def BCLOSE_def PLUS_def tok_ERR_def

definition lang_symbols :: "(u8 \<times> Token) list" where
  "lang_symbols =
     [(0x41, tok_A), (0x42, tok_B), (0x43, tok_C), (0x44, tok_D),
      (0x45, tok_E), (0x46, tok_F), (0x49, tok_I), (0x50, tok_P), (0x51, tok_Q), (0x56, tok_V),
      (0x23, HASH), (0x3B, SEMI), (0x3D, EQU), (0x7B, BOPEN), (0x7D, BCLOSE), (0x2B, PLUS),
      (0x3F, tok_ERR)]"

fun add_all :: "(u8 \<times> Token) list \<Rightarrow> yc \<Rightarrow> stop + yc" where
  "add_all [] s = Inr s"
| "add_all ((b, t) # ls) s = bindE (AddLangSymbol b t s) (\<lambda>(_, s). add_all ls s)"

definition SymInit :: "yc \<Rightarrow> stop + yc" where
  "SymInit s = add_all lang_symbols s"

end
