(* ===== verification/Yapl_Lex.thy ===== *)
theory Yapl_Lex
  imports Yapl_Sym
begin

text \<open>
  The lexer of the YAPL-1 compiler (\<open>yapl-1/lex.go\<close>). Every token is one character; comments run from
  \<open>#\<close> to the end of the line.
\<close>

section \<open>Tokens\<close>

definition LexInit :: "u16 \<Rightarrow> yc \<Rightarrow> yc" where
  "LexInit fd s = s\<lparr>inFD := fd\<rparr>"

definition IsUsrTok :: "Token \<Rightarrow> bool" where "IsUsrTok t \<longleftrightarrow> t AND TT_USR = TT_USR"
definition IsKeyTok :: "Token \<Rightarrow> bool" where "IsKeyTok t \<longleftrightarrow> t AND TT_KEY = TT_KEY"
definition IsNumTok :: "Token \<Rightarrow> bool" where "IsNumTok t \<longleftrightarrow> t AND TT_NUM = TT_NUM"
definition IsErrTok :: "Token \<Rightarrow> bool" where "IsErrTok t \<longleftrightarrow> t AND TT_ERR = TT_ERR"

definition IsMatch :: "Token \<Rightarrow> Token \<Rightarrow> stop + bool" where
  "IsMatch m t =
     (let ty = m AND TT_TYPE in
      if ty = TT_USR \<or> ty = TT_NUM then Inr (t AND TT_TYPE = m AND TT_TYPE)
      else if ty = TT_KEY then Inr (t = m)
      else if ty = TT_ERR then Inr False
      else bindE (Assert False ''invalid TT_TYPE'') (\<lambda>_. Inr False))"

definition isHash :: "u16 \<Rightarrow> bool" where "isHash b \<longleftrightarrow> b = 0x23"
definition isWhite :: "u16 \<Rightarrow> bool" where "isWhite b \<longleftrightarrow> b = 0x20 \<or> b = 0x09 \<or> b = 0x0A"
definition isDigit :: "u16 \<Rightarrow> bool" where "isDigit b \<longleftrightarrow> b \<ge> 0x30 \<and> b \<le> 0x39"
definition isLowerLetter :: "u16 \<Rightarrow> bool" where "isLowerLetter b \<longleftrightarrow> b \<ge> 0x61 \<and> b \<le> 0x7A"
definition isUpperLetter :: "u16 \<Rightarrow> bool" where "isUpperLetter b \<longleftrightarrow> b \<ge> 0x41 \<and> b \<le> 0x5A"
definition isPunctuation :: "u16 \<Rightarrow> bool" where
  "isPunctuation b \<longleftrightarrow> b = 0x3D \<or> b = 0x2B \<or> b = 0x7B \<or> b = 0x7D \<or> b = 0x3B"

definition convert :: "u8 \<Rightarrow> u16" where "convert b = ucast (b - 0x30)"

definition TokenToString :: "Token \<Rightarrow> string" where
  "TokenToString t = ''TODO TokenToString()''"

definition PrintTok :: "Token \<Rightarrow> yc \<Rightarrow> stop + yc" where
  "PrintTok t s =
     (if IsErrTok t then Printf ''; token: error %x%n'' [AWord t] s
      else bindE (symtab_get s (TokenAsSymIndex t)) (\<lambda>e.
        if Len e = 0 then Printf ''; token: number %x%n'' [AWord (Val e)] s
        else bindE (strtab_get s (Val e)) (\<lambda>b. Printf ''; token: string %c%n'' [AByte b] s)))"

definition LineNumber :: "yc \<Rightarrow> u16" where "LineNumber s = lineCount s"

definition PushbackToken :: "Token \<Rightarrow> yc \<Rightarrow> stop + yc" where
  "PushbackToken t s = bindE (Assert (pbt s = 0 \<and> t \<noteq> 0) ''PushbackToken()'') (\<lambda>_. Inr (s\<lparr>pbt := t\<rparr>))"

section \<open>Reading a token\<close>

text \<open>The body of the loop after the white space has been skipped: one character \<open>b\<close>.\<close>

definition lex_char :: "StrIndex \<Rightarrow> u16 \<Rightarrow> yc \<Rightarrow> stop + (Token \<times> yc)" where
  "lex_char pos b s =
     (if isDigit b then bindE (SymEnter (convert (ucast b)) 0 s) (\<lambda>(i, s). Inr (TT_NUM OR i, s))
      else bindE (strtab_set pos (ucast b) s) (\<lambda>s.
        if isLowerLetter b then bindE (SymEnter pos 1 s) (\<lambda>(n, s). Inr (TT_USR OR n, s))
        else if isUpperLetter b \<or> isPunctuation b then bindE (SymEnter pos 1 s) (\<lambda>(i, s). Inr (TT_KEY OR i, s))
        else bindE (ErrorAsToken (AWord ERR_LEX_INVAL)) (\<lambda>t. Inr (t, StrtabDiscard s))))"

text \<open>After the loop.\<close>

definition lex_end :: "u16 \<Rightarrow> yc \<Rightarrow> stop + (Token \<times> yc)" where
  "lex_end b s =
     (if b = E_EOF then Inr (TT_EOF, s)
      else if b > 0xFF then bindE (ErrorAsToken (AWord ERR_LEX_IO)) (\<lambda>t. Inr (t, s))
      else bindE (ErrorAsToken (AWord ERR_INT_NOSTR)) (\<lambda>t. Inr (t, s)))"

lemma Getb_shorter:
  "(b, s') = Getb (inFD s) s \<Longrightarrow> b \<le> 0xFF \<Longrightarrow> length (input s' (inFD s)) < length (input s (inFD s)) \<and> inFD s' = inFD s"
  by (auto simp: Getb_def E_EOF_def E_IOERR_def split: list.splits if_splits)

function lex_loop :: "StrIndex \<Rightarrow> u16 \<Rightarrow> bool \<Rightarrow> yc \<Rightarrow> stop + (Token \<times> yc)" where
  "lex_loop pos len inComment s =
     (case Getb (inFD s) s of (b, s1) \<Rightarrow>
        if b > 0xFF \<or> len = 0 then lex_end b s1
        else if b = 0x0A then lex_loop pos len False (s1\<lparr>lineCount := lineCount s1 + 1\<rparr>)
        else if inComment then lex_loop pos len inComment s1
        else if isHash b then lex_loop pos len True s1
        else if isWhite b then lex_loop pos len inComment s1
        else lex_char pos b s1)"
  by pat_completeness auto

termination
  by (relation "measure (\<lambda>(pos, len, inComment, s). length (input s (inFD s)))")
     (auto dest!: Getb_shorter simp: not_less)

declare lex_loop.simps [simp del]

definition internalGetToken :: "yc \<Rightarrow> stop + (Token \<times> yc)" where
  "internalGetToken s =
     (if pbt s \<noteq> 0 then Inr (pbt s, s\<lparr>pbt := 0\<rparr>)
      else bindE (StrtabAllocate s) (\<lambda>pos. lex_loop pos (StrtabRemaining s) False s))"

definition GetToken :: "yc \<Rightarrow> stop + (Token \<times> yc)" where
  "GetToken s =
     bindE (internalGetToken s) (\<lambda>(tk, s).
     bindE (if LexDebug s then PrintTok tk s else Inr s) (\<lambda>s. Inr (tk, s)))"

end
