(* ===== verification/Yapl_Parse.thy ===== *)
theory Yapl_Parse
  imports Yapl_Lex
begin

text \<open>
  The parser and the main program of the YAPL-1 compiler (\<open>yapl-1/parse.go\<close>, \<open>yapl-1/yc.go\<close>). A loop that
  reads tokens may not end when reading fails for ever; such a function returns \<open>None\<close> when it
  does not return.
\<close>

section \<open>Abstract syntax nodes\<close>

definition allocAstNode :: "yc \<Rightarrow> stop + (AstIndex \<times> yc)" where
  "allocAstNode s =
     (let result = astNodeNext s
      in bindE (Assert (result \<ge> 1) ''out of AST nodes'') (\<lambda>_. Inr (result, s\<lparr>astNodeNext := astNodeNext s - 1\<rparr>)))"

definition Snapshot :: "yc \<Rightarrow> AstIndex" where "Snapshot s = astNodeNext s"

definition AllocatedSince :: "AstIndex \<Rightarrow> yc \<Rightarrow> stop + u16" where
  "AllocatedSince snapshot s =
     (let result = snapshot - astNodeNext s
      in bindE (Assert (result < AstMaxNode) ''bad snapshot in AllocatedSince()'') (\<lambda>_. Inr result))"

definition MakeAstNode :: "SymIndex \<Rightarrow> u16 \<Rightarrow> u8 \<Rightarrow> u8 \<Rightarrow> yc \<Rightarrow> stop + (AstIndex \<times> yc)" where
  "MakeAstNode sy sz knd xtra s =
     bindE (allocAstNode s) (\<lambda>(result, s).
     bindE (ast_set result \<lparr>Sym = sy, Size = sz, Kind = knd, Xtra = xtra\<rparr> s) (\<lambda>s. Inr (result, s)))"

definition IsSyntaxErrorNode :: "AstIndex \<Rightarrow> yc \<Rightarrow> stop + bool" where
  "IsSyntaxErrorNode a s = bindE (ast_get s a) (\<lambda>n. Inr (Kind n = AstKindError))"

definition IsAstError :: "AstIndex \<Rightarrow> yc \<Rightarrow> stop + bool" where
  "IsAstError a s = bindE (IsError (AAst a)) (\<lambda>e. if e then Inr True else IsSyntaxErrorNode a s)"

section \<open>Parsing\<close>

partial_function (option) resync_loop :: "yc \<Rightarrow> (stop + (Token \<times> yc)) option" where
  "resync_loop s =
     (case GetToken s of
        Inl e \<Rightarrow> Some (Inl e)
      | Inr r \<Rightarrow>
          if fst r \<noteq> SEMI \<and> fst r \<noteq> BCLOSE \<and> fst r \<noteq> TT_EOF then resync_loop (snd r) else Some (Inr r))"

definition resync :: "yc \<Rightarrow> (stop + yc) option" where
  "resync s = bindO (resync_loop s) (\<lambda>(t, s). Some (if t = TT_EOF then PushbackToken t s else Inr s))"

definition syntaxError :: "string \<Rightarrow> Token \<Rightarrow> yc \<Rightarrow> (stop + (AstIndex \<times> yc)) option" where
  "syntaxError msg bad s =
     bindO (Some (Printf ''; syntax error: line %x: expected %s but got %s%n''
                    [AWord (LineNumber s), AText msg, AText (TokenToString bad)] s)) (\<lambda>s.
     bindO (Some (allocAstNode s)) (\<lambda>(result, s).
     bindO (Some (ErrorAsSymIndex (ATok TT_ERR))) (\<lambda>e.
     bindO (Some (bindE (ast_get s result) (\<lambda>n. ast_set result (n\<lparr>Sym := e, Size := 1, Kind := AstKindError\<rparr>) s))) (\<lambda>s.
     bindO (resync s) (\<lambda>s. Some (Inr (result, s)))))))"

definition function_decl :: "yc \<Rightarrow> stop + (AstIndex \<times> yc)" where "function_decl s = Inr (0, s)"
definition assign :: "yc \<Rightarrow> stop + (AstIndex \<times> yc)" where "assign s = Inr (0, s)"

definition variable :: "yc \<Rightarrow> (stop + (AstIndex \<times> yc)) option" where
  "variable s =
     bindO (Some (GetToken s)) (\<lambda>(v, s).
     bindO (Some (IsError (ATok v))) (\<lambda>err.
       if err then Some (bindE (ErrorAsAstIndex (ATok v)) (\<lambda>e. Inr (e, s)))
       else if \<not> IsUsrTok v then syntaxError ''variable'' v s
       else
         bindO (Some (MakeAstNode (TokenAsSymIndex v) 1 AstKindUsr AstXtraDecl s)) (\<lambda>(decl, s).
         bindO (Some (GetToken s)) (\<lambda>(t, s).
         bindO (Some (IsError (ATok t))) (\<lambda>err.
           if err then Some (bindE (ErrorAsAstIndex (ATok t)) (\<lambda>e. Inr (e, s)))
           else if t = SEMI then Some (Inr (decl, s))
           else if t = EQU then Some (assign s)
           else syntaxError ''semicolon or assignment'' t s)))))"

definition declaration_stmt :: "yc \<Rightarrow> (stop + (AstIndex \<times> yc)) option" where
  "declaration_stmt s =
     bindO (Some (GetToken s)) (\<lambda>(t, s).
     bindO (Some (IsError (ATok t))) (\<lambda>err.
       if err then Some (bindE (ErrorAsAstIndex (ATok t)) (\<lambda>e. Inr (e, s)))
       else if t = tok_V then variable s
       else if t = tok_F then Some (function_decl s)
       else syntaxError ''declaration'' t s))"

text \<open>The loop of \<open>program\<close> has its own variable \<open>result\<close>; the one that is tested after it is still 0.\<close>

partial_function (option) program_loop :: "yc \<Rightarrow> (stop + yc) option" where
  "program_loop s =
     Option.bind (declaration_stmt s) (\<lambda>r. case r of Inl e \<Rightarrow> Some (Inl e) | Inr p \<Rightarrow>
       (case IsError (AAst (fst p)) of Inl e \<Rightarrow> Some (Inl e) | Inr err \<Rightarrow>
          if err then Some (Inr (snd p)) else program_loop (snd p)))"

definition program :: "yc \<Rightarrow> (stop + (AstIndex \<times> yc)) option" where
  "program s =
     (let result = 0; pos = Snapshot s in
      bindO (program_loop s) (\<lambda>s.
      bindO (Some (IsError (AAst result))) (\<lambda>err.
        if err then Some (Inr (result, s))
        else bindO (Some (AllocatedSince pos s)) (\<lambda>n.
          Some (MakeAstNode (TokenAsSymIndex tok_P) (1 + n) 0 0 s)))))"

definition Parse :: "yc \<Rightarrow> (stop + (AstIndex \<times> yc)) option" where
  "Parse s = program s"

section \<open>The main program\<close>

definition Init :: "u16 \<Rightarrow> yc \<Rightarrow> stop + yc" where
  "Init fd s = SymInit (LexInit fd s)"

function main_loop :: "AstIndex \<Rightarrow> yc \<Rightarrow> stop + yc" where
  "main_loop a s =
     (if a < AstMaxNode then
        bindE (Printf ''AstNode %x Sym '' [AWord a] s) (\<lambda>s.
        bindE (ast_get s a) (\<lambda>n.
        bindE (PrintSym (Sym n) s) (main_loop (a + 1))))
      else Inr s)"
  by pat_completeness auto

termination
proof (relation "measure (\<lambda>(a, s). 2048 - unat a)", goal_cases)
  case (2 a s x xa xb)
  then have "unat a < 2048" by (simp add: AstMaxNode_def word_less_nat_alt)
  then have "unat (a + 1) = unat a + 1" by (simp add: unat_word_ariths)
  with \<open>unat a < 2048\<close> show ?case by simp
qed simp

declare main_loop.simps [simp del]

definition yc_main :: "yc \<Rightarrow> (stop + yc) option" where
  "yc_main s = bindO (Some (Init STDIN s)) (\<lambda>s. bindO (Parse s) (\<lambda>(a, s). Some (main_loop a s)))"

end
