(* ===== verification/Interner.thy ===== *)
theory Interner
  imports Prelude
begin

text \<open>
  The contract of a table that interns keys, in the form two programs of the repository provide it: the
  symbol table of the YAPL-1 compiler, which never runs out of room, and the one of the first assembler,
  which may.
\<close>

fun enter_all :: "('k \<Rightarrow> 's \<Rightarrow> 'e + ('i \<times> 's)) \<Rightarrow> 'k list \<Rightarrow> 's \<Rightarrow> 'e + ('i list \<times> 's)" where
  "enter_all f [] s = Inr ([], s)"
| "enter_all f (k # ks) s = bindE (f k s) (\<lambda>(i, s). bindE (enter_all f ks s) (\<lambda>(is, s). Inr (i # is, s)))"

text \<open>Entering a key gives an index for it, the indices of the other keys stay, and keys and indices
  determine each other.\<close>

locale interner =
  fixes enter :: "'k \<Rightarrow> 's \<Rightarrow> 'e + ('i \<times> 's)"
    and has :: "'s \<Rightarrow> 'i \<Rightarrow> 'k \<Rightarrow> bool"
    and inv :: "'s \<Rightarrow> bool"
    and ok :: "'k \<Rightarrow> bool"
  assumes enter_inv: "inv s \<Longrightarrow> ok k \<Longrightarrow> enter k s = Inr (i, s') \<Longrightarrow> inv s'"
    and enter_has: "inv s \<Longrightarrow> ok k \<Longrightarrow> enter k s = Inr (i, s') \<Longrightarrow> has s' i k"
    and enter_keeps: "inv s \<Longrightarrow> ok k \<Longrightarrow> enter k s = Inr (i, s') \<Longrightarrow> has s j x \<Longrightarrow> has s' j x"
    and index_unique: "inv s \<Longrightarrow> has s i k \<Longrightarrow> has s j k \<Longrightarrow> i = j"
    and key_unique: "inv s \<Longrightarrow> has s i k \<Longrightarrow> has s i x \<Longrightarrow> k = x"
begin

lemma enter_again: "inv s \<Longrightarrow> ok k \<Longrightarrow> has s i k \<Longrightarrow> enter k s = Inr (j, s') \<Longrightarrow> j = i"
  using enter_has enter_inv enter_keeps index_unique by metis

lemma enter_all_post:
  "inv s \<Longrightarrow> list_all ok ks \<Longrightarrow> enter_all enter ks s = Inr (is, s') \<Longrightarrow>
   inv s' \<and> list_all2 (has s') is ks \<and> (\<forall>j x. has s j x \<longrightarrow> has s' j x)"
proof (induction ks arbitrary: s "is")
  case (Cons k ks)
  then obtain i s1 js where 1: "enter k s = Inr (i, s1)" "enter_all enter ks s1 = Inr (js, s')" "is = i # js"
    by (auto simp: bindE_Inr_iff)
  have 2: "inv s1" "has s1 i k" "\<forall>j x. has s j x \<longrightarrow> has s1 j x"
    using enter_inv [OF _ _ 1(1)] enter_has [OF _ _ 1(1)] enter_keeps [OF _ _ 1(1)] Cons.prems by simp_all
  show ?case using Cons.IH [OF 2(1) _ 1(2)] Cons.prems 2(2,3) 1(3) by auto
qed simp

lemma enter_all_index:
  assumes "inv s" "list_all ok ks" "enter_all enter ks s = Inr (is, s')"
  shows "length is = length ks \<and> (\<forall>a < length ks. \<forall>b < length ks. is ! a = is ! b \<longleftrightarrow> ks ! a = ks ! b)"
proof -
  note p = enter_all_post [OF assms]
  then have "has s' (is ! a) (ks ! a)" if "a < length ks" for a using that by (auto simp: list_all2_conv_all_nth)
  then show ?thesis using p index_unique key_unique by (metis list_all2_lengthD)
qed

end

text \<open>A table with room for every key.\<close>

locale total_interner = interner +
  assumes enter_total: "inv s \<Longrightarrow> ok k \<Longrightarrow> \<exists>i s'. enter k s = Inr (i, s')"
begin

lemma enter_all_total: "inv s \<Longrightarrow> list_all ok ks \<Longrightarrow> \<exists>is s'. enter_all enter ks s = Inr (is, s')"
proof (induction ks arbitrary: s)
  case (Cons k ks)
  then obtain i s1 where 1: "enter k s = Inr (i, s1)" using enter_total [of s k] by auto
  then have "inv s1" using enter_inv [of s k i s1] Cons.prems by simp
  then show ?case using Cons 1 by fastforce
qed simp

end

end
