(* ===== verification/Yapl_Table.thy ===== *)
theory Yapl_Table
  imports Yapl_Parse Interner
begin

text \<open>
  The tables of the YAPL-1 compiler: the invariant of the symbol table and the string table, the bounds
  it gives, lookup and entering of symbols, the table as an interner,
  and the table after the initialisation.
\<close>

section \<open>Error values\<close>

lemma error_values [simp]:
  "ErrorAsSymIndex (AWord ERR_SYM_NODEF) = Inr 0xC602"
  "ErrorAsSymIndex (AWord ERR_INT_NOSYM) = Inr 0xC702"
  "ErrorAsStrIndex (AWord ERR_INT_NOSTR) = Inr 0xC701"
  "ErrorAsToken (AWord ERR_LEX_INVAL) = Inr 0xC101"
  "ErrorAsToken (AWord ERR_LEX_IO) = Inr 0xC102"
  "ErrorAsToken (AWord ERR_INT_NOSTR) = Inr 0xC701"
  "ErrorAsSymIndex (ATok TT_ERR) = Inr 0xC000"
  by (simp_all add: ErrorAsSymIndex_def ErrorAsStrIndex_def ErrorAsToken_def Assert_def err_defs tok_defs)

lemma IsError_simps [simp]:
  "IsError (ATok t) = Inr (t \<ge> 0xC000)" "IsError (AAst t) = Inr (t \<ge> 0xC000)" "IsError (ASym t) = Inr (t \<ge> 0xC000)"
  by (simp_all add: IsError_def ErrBase_def)

section \<open>What the tables hold\<close>

datatype key = Num u16 | Chr u8

definition key_at :: "yc \<Rightarrow> nat \<Rightarrow> key" where
  "key_at s i = (let e = symtab s i in if Len e = 0 then Num (Val e) else Chr (strtab s (unat (Val e))))"

definition nsym :: "yc \<Rightarrow> nat" where "nsym s = unat (symtabNext s)"
definition nstr :: "yc \<Rightarrow> nat" where "nstr s = unat (strtabNext s)"

definition sym_key :: "yc \<Rightarrow> SymIndex \<Rightarrow> key option" where
  "sym_key s i = (if i < symtabNext s then Some (key_at s (unat i)) else None)"

definition sym_inv :: "yc \<Rightarrow> bool" where
  "sym_inv s \<longleftrightarrow> 0 < nsym s \<and> 0 < nstr s
     \<and> (\<forall>i < nsym s. let e = symtab s i in Len e = 0 \<and> Val e \<le> 9 \<or> Len e = 1 \<and> unat (Val e) < nstr s)
     \<and> inj_on (key_at s) {..< nsym s}
     \<and> nstr s \<le> 1 + card {i. i < nsym s \<and> Len (symtab s i) \<noteq> 0}"

lemma sym_invD:
  assumes "sym_inv s" "i < nsym s"
  shows "Len (symtab s i) = 0 \<and> Val (symtab s i) \<le> 9 \<or> Len (symtab s i) = 1 \<and> unat (Val (symtab s i)) < nstr s"
  using assms by (simp add: sym_inv_def Let_def)

text \<open>Interning bounds the tables: there are ten numbers and 256 characters.\<close>

lemma card_Chr: "card (range Chr) = 256"
proof -
  have "card (range Chr) = card (UNIV :: u8 set)" by (rule card_image) (simp add: inj_def)
  then show ?thesis by (simp add: card_word)
qed

lemma card_digits: "card (Num ` {0..9}) \<le> 10"
proof -
  have "{0..9 :: u16} \<subseteq> of_nat ` {0..<10}"
  proof
    fix w :: u16 assume "w \<in> {0..9}"
    then have "unat w \<in> {0..<10}" by (simp add: word_le_nat_alt)
    then show "w \<in> of_nat ` {0..<10}" by (intro image_eqI [of _ _ "unat w"]) simp_all
  qed
  then have "card {0..9 :: u16} \<le> card (of_nat ` {0..<10} :: u16 set)" by (intro card_mono) simp_all
  also have "\<dots> \<le> card {0..<10 :: nat}" by (rule card_image_le) simp
  finally have "card {0..9 :: u16} \<le> 10" by simp
  then show ?thesis by (rule order_trans [OF card_image_le [OF finite]])
qed

lemma nstr_bound:
  assumes "sym_inv s" shows "nstr s \<le> 257"
proof -
  let ?I = "{i. i < nsym s \<and> Len (symtab s i) \<noteq> 0}"
  have "inj_on (key_at s) ?I" using assms unfolding sym_inv_def by (elim conjE inj_on_subset) auto
  then have "card ?I = card (key_at s ` ?I)" by (simp only: card_image)
  also have "\<dots> \<le> card (range Chr)" by (rule card_mono) (auto simp: key_at_def Let_def)
  finally have "card ?I \<le> 256" unfolding card_Chr .
  then show ?thesis using assms unfolding sym_inv_def by linarith
qed

lemma nsym_bound:
  assumes "sym_inv s" shows "nsym s \<le> 266"
proof -
  have "inj_on (key_at s) {..< nsym s}" using assms by (simp add: sym_inv_def)
  then have "nsym s = card (key_at s ` {..< nsym s})" by (simp add: card_image)
  also have "\<dots> \<le> card (Num ` {0..9} \<union> range Chr)"
    using sym_invD [OF assms] by (intro card_mono) (force simp: key_at_def Let_def)+
  also have "\<dots> \<le> card (Num ` {0..9}) + card (range Chr)" by (rule card_Un_le)
  also have "\<dots> \<le> 10 + 256" using card_digits card_Chr by simp
  finally show ?thesis by simp
qed

section \<open>Lookups\<close>

lemma sym_index: "i < 4096 \<Longrightarrow> unat (of_nat i :: u16) = i" "i < 4096 \<Longrightarrow> (of_nat i :: u16) < SYMTAB_MAX"
  by (simp_all add: unsigned_of_nat take_bit_nat_eq_self SYMTAB_MAX_def word_less_nat_alt)

lemma num_loop_spec:
  "i + n \<le> 4096 \<Longrightarrow>
   (\<exists>j. i \<le> j \<and> j < i + n \<and> key_at s j = Num v \<and> num_loop s v n (of_nat i) = Inr (of_nat j))
   \<or> (\<forall>j. i \<le> j \<and> j < i + n \<longrightarrow> key_at s j \<noteq> Num v) \<and> num_loop s v n (of_nat i) = Inr 0xC602"
proof (induction n arbitrary: i)
  case (Suc n)
  have g: "symtab_get s (of_nat i) = Inr (symtab s i)" using Suc.prems by (simp add: symtab_get_def sym_index)
  have k: "key_at s i = Num v \<longleftrightarrow> Len (symtab s i) = 0 \<and> Val (symtab s i) = v" by (simp add: key_at_def Let_def)
  have e: "of_nat i + 1 = (of_nat (i + 1) :: u16)" by simp
  show ?case
  proof (cases "key_at s i = Num v")
    case True
    then show ?thesis using g k by (intro disjI1 exI [of _ i]) simp
  next
    case False
    have "i \<le> j \<and> j < i + Suc n \<longleftrightarrow> j = i \<or> i + 1 \<le> j \<and> j < i + 1 + n" for j by auto
    then show ?thesis using Suc.IH [of "i + 1"] Suc.prems False g k unfolding num_loop.simps e by auto
  qed
qed auto

lemma same_loop_1: "x < STRTAB_MAX \<Longrightarrow> y < STRTAB_MAX \<Longrightarrow> same_loop s x y (Suc 0) 0 = Inr (strtab s (unat x) = strtab s (unat y))"
  by (simp add: strtab_get_def)

lemma sym_loop_spec:
  assumes "sym_inv s" "p < STRTAB_MAX"
  shows "i + n \<le> nsym s \<Longrightarrow>
   (\<exists>j. i \<le> j \<and> j < i + n \<and> key_at s j = Chr (strtab s (unat p)) \<and> sym_loop s p 1 n (of_nat i) = Inr (of_nat j))
   \<or> (\<forall>j. i \<le> j \<and> j < i + n \<longrightarrow> key_at s j \<noteq> Chr (strtab s (unat p))) \<and> sym_loop s p 1 n (of_nat i) = Inr 0xC602"
proof (induction n arbitrary: i)
  case (Suc n)
  let ?c = "Chr (strtab s (unat p))"
  have i: "i < nsym s" "i < 4096" using Suc.prems nsym_bound [OF assms(1)] by auto
  have g: "symtab_get s (of_nat i) = Inr (symtab s i)" using i by (simp add: symtab_get_def sym_index)
  have v: "Len (symtab s i) = 1 \<Longrightarrow> Val (symtab s i) < STRTAB_MAX"
    using sym_invD [OF assms(1) i(1)] nstr_bound [OF assms(1)] by (auto simp: STRTAB_MAX_def word_less_nat_alt)
  have k: "key_at s i = ?c \<longleftrightarrow> Len (symtab s i) = 1 \<and> strtab s (unat (Val (symtab s i))) = strtab s (unat p)"
    using sym_invD [OF assms(1) i(1)] by (auto simp: key_at_def Let_def)
  have e: "of_nat i + 1 = (of_nat (i + 1) :: u16)" by simp
  show ?case
  proof (cases "key_at s i = ?c")
    case True
    then have "sym_loop s p 1 (Suc n) (of_nat i) = Inr (of_nat i)"
      using g k v same_loop_1 [OF _ assms(2), of "Val (symtab s i)" s] by simp
    then show ?thesis using True by (intro disjI1 exI [of _ i]) simp
  next
    case False
    have "sym_loop s p 1 (Suc n) (of_nat i) = sym_loop s p 1 n (of_nat (i + 1))"
      using g k False v same_loop_1 [OF _ assms(2), of "Val (symtab s i)" s] by (simp add: add.commute)
    moreover have "i \<le> j \<and> j < i + Suc n \<longleftrightarrow> j = i \<or> i + 1 \<le> j \<and> j < i + 1 + n" for j by auto
    ultimately show ?thesis using Suc.IH [of "i + 1"] Suc.prems False by auto
  qed
qed auto

section \<open>Entering a symbol\<close>

definition rest_of :: "yc \<Rightarrow> _" where
  "rest_of s = ((LexDebug s, inFD s, lineCount s, pbt s), (AstNodes s, astNodeNext s), (input s, read_error s, written s, out s))"

text \<open>The table with the new entry \<open>e\<close>.\<close>

definition grown :: "Syment \<Rightarrow> yc \<Rightarrow> yc" where
  "grown e s = s\<lparr>symtabNext := symtabNext s + 1, strtabNext := strtabNext s + ucast (Len e), symtab := (symtab s)(nsym s := e)\<rparr>"

lemma rest_grown [simp]: "rest_of (grown e s) = rest_of s"
  by (simp add: rest_of_def grown_def)

lemma symtab_grown: "symtab (grown e s) i = (if i = nsym s then e else symtab s i)"
  by (simp add: grown_def)

definition fits :: "Syment \<Rightarrow> yc \<Rightarrow> bool" where
  "fits e s \<longleftrightarrow> Len e = 0 \<and> Val e \<le> 9 \<or> Len e = 1 \<and> unat (Val e) = nstr s"

definition entry_key :: "Syment \<Rightarrow> yc \<Rightarrow> key" where
  "entry_key e s = (if Len e = 0 then Num (Val e) else Chr (strtab s (unat (Val e))))"

lemma nsym_grown: "sym_inv s \<Longrightarrow> nsym (grown e s) = nsym s + 1"
  using nsym_bound [of s] by (simp add: nsym_def grown_def unat_word_ariths)

lemma nstr_grown: "sym_inv s \<Longrightarrow> fits e s \<Longrightarrow> nstr (grown e s) = nstr s + (if Len e = 0 then 0 else 1)"
  using nstr_bound [of s] by (auto simp: nstr_def grown_def fits_def unat_word_ariths)

lemma key_at_grown: "key_at (grown e s) i = (if i = nsym s then entry_key e s else key_at s i)"
  by (simp add: key_at_def grown_def entry_key_def Let_def)

lemma sym_inv_grown:
  assumes "sym_inv s" "fits e s" "\<forall>i < nsym s. key_at s i \<noteq> entry_key e s"
  shows "sym_inv (grown e s)"
proof -
  have n: "nsym (grown e s) = nsym s + 1" and m: "nstr (grown e s) = nstr s + (if Len e = 0 then 0 else 1)"
    using assms by (simp_all add: nsym_grown nstr_grown)
  have "inj_on (key_at (grown e s)) {..< nsym s + 1}"
    using assms(1,3) unfolding sym_inv_def by (force simp: inj_on_def key_at_grown less_Suc_eq)
  moreover have "\<forall>i < nsym s + 1. let d = symtab (grown e s) i in Len d = 0 \<and> Val d \<le> 9 \<or> Len d = 1 \<and> unat (Val d) < nstr (grown e s)"
    using sym_invD [OF assms(1)] assms(2) by (fastforce simp: m symtab_grown fits_def less_Suc_eq Let_def)
  moreover have "nstr (grown e s) \<le> 1 + card {i. i < nsym s + 1 \<and> Len (symtab (grown e s) i) \<noteq> 0}"
  proof -
    let ?I = "{i. i < nsym s \<and> Len (symtab s i) \<noteq> 0}"
    have "{i. i < nsym s + 1 \<and> Len (symtab (grown e s) i) \<noteq> 0} = (if Len e = 0 then ?I else insert (nsym s) ?I)"
      by (auto simp: symtab_grown less_Suc_eq)
    moreover have "card (insert (nsym s) ?I) = card ?I + 1" by (subst card_insert_disjoint) auto
    ultimately show ?thesis using assms(1) by (simp add: m sym_inv_def)
  qed
  ultimately show ?thesis unfolding sym_inv_def n m using assms(1) by (simp add: sym_inv_def)
qed

lemma sym_key_grown:
  assumes "sym_inv s"
  shows "sym_key (grown e s) (symtabNext s) = Some (entry_key e s)"
    "sym_key s j = Some x \<Longrightarrow> sym_key (grown e s) j = Some x"
  using nsym_bound [OF assms]
  by (auto simp: sym_key_def key_at_grown word_less_nat_alt nsym_grown [OF assms, unfolded nsym_def] nsym_def split: if_splits)

lemma SymEnter_new:
  assumes "sym_inv s" "(if len = 0 then NumLookup s val else SymLookup s val len) = Inr 0xC602"
  shows "SymEnter val len s = Inr (symtabNext s, grown \<lparr>Val = val, Len = len, Info = 0\<rparr> s)"
proof -
  have "\<not> 0xC602 < symtabNext s" "\<not> SYMTAB_MAX \<le> symtabNext s" "symtabNext s < SYMTAB_MAX"
    using nsym_bound [OF assms(1)] by (simp_all add: nsym_def SYMTAB_MAX_def word_less_nat_alt word_le_nat_alt)
  then show ?thesis using assms(2) by (simp add: SymEnter_def symtab_set_def grown_def nsym_def Let_def)
qed

lemma SymEnter_old:
  assumes "(if len = 0 then NumLookup s val else SymLookup s val len) = Inr i" "i < symtabNext s"
  shows "SymEnter val len s = Inr (i, s)"
  using assms by (simp add: SymEnter_def)

text \<open>What \<open>SymEnter\<close> promises when the lookup finds entries by the key \<open>k\<close>.\<close>

definition entered :: "key \<Rightarrow> yc \<Rightarrow> SymIndex \<Rightarrow> yc \<Rightarrow> bool" where
  "entered k s i s' \<longleftrightarrow> sym_inv s' \<and> sym_key s' i = Some k \<and> (\<forall>j x. sym_key s j = Some x \<longrightarrow> sym_key s' j = Some x)
     \<and> rest_of s' = rest_of s \<and> lastKeySymIndex s' = lastKeySymIndex s"

lemma SymEnter_entered:
  fixes len val s
  defines "e \<equiv> \<lparr>Val = val, Len = len, Info = 0\<rparr>"
  assumes s: "sym_inv s" "fits e s"
    and l: "(\<exists>j < nsym s. key_at s j = entry_key e s \<and> (if len = 0 then NumLookup s val else SymLookup s val len) = Inr (of_nat j))
      \<or> (\<forall>j < nsym s. key_at s j \<noteq> entry_key e s) \<and> (if len = 0 then NumLookup s val else SymLookup s val len) = Inr 0xC602"
  shows "\<exists>i s'. SymEnter val len s = Inr (i, s') \<and> entered (entry_key e s) s i s'"
  using l
proof (elim disjE exE conjE)
  fix j assume j: "j < nsym s" "key_at s j = entry_key e s"
    "(if len = 0 then NumLookup s val else SymLookup s val len) = Inr (of_nat j)"
  have u: "unat (of_nat j :: u16) = j" using nsym_bound [OF s(1)] j(1) by (simp add: sym_index)
  then have "(of_nat j :: u16) < symtabNext s" using j(1) by (simp add: nsym_def word_less_nat_alt)
  then have "SymEnter val len s = Inr (of_nat j, s)" "sym_key s (of_nat j) = Some (entry_key e s)"
    using j u by (simp_all add: SymEnter_old sym_key_def)
  then show ?thesis using s by (auto simp: entered_def)
next
  assume "\<forall>j < nsym s. key_at s j \<noteq> entry_key e s" "(if len = 0 then NumLookup s val else SymLookup s val len) = Inr 0xC602"
  then have "SymEnter val len s = Inr (symtabNext s, grown e s)" "sym_inv (grown e s)"
    using s by (simp_all add: SymEnter_new sym_inv_grown e_def)
  then show ?thesis using sym_key_grown [OF s(1), where e = e] by (auto simp: entered_def) (auto simp: grown_def)
qed

section \<open>Interning\<close>

text \<open>What the lexer does to enter a number, or a character that it has put behind the strings.\<close>

fun intern :: "key \<Rightarrow> yc \<Rightarrow> stop + (SymIndex \<times> yc)" where
  "intern (Num d) s = SymEnter d 0 s"
| "intern (Chr c) s = bindE (StrtabAllocate s) (\<lambda>pos. bindE (strtab_set pos c s) (SymEnter pos 1))"

fun small :: "key \<Rightarrow> bool" where
  "small (Num d) = (d \<le> 9)" | "small (Chr c) = True"

lemma intern_num: "sym_inv s \<Longrightarrow> d \<le> 9 \<Longrightarrow> \<exists>i s'. SymEnter d 0 s = Inr (i, s') \<and> entered (Num d) s i s'"
  using SymEnter_entered [of s d 0] num_loop_spec [of 0 "nsym s" s d] nsym_bound [of s]
  by (auto simp: fits_def entry_key_def NumLookup_def nsym_def)

lemma strtab_room:
  assumes "sym_inv s"
  shows "StrtabAllocate s = Inr (strtabNext s)" "StrtabRemaining s \<noteq> 0" "strtabNext s < STRTAB_MAX"
    "strtab_set (strtabNext s) c s = Inr (s\<lparr>strtab := (strtab s)(nstr s := c)\<rparr>)"
proof -
  have "unat (strtabNext s) \<le> 257" using nstr_bound [OF assms] by (simp add: nstr_def)
  then have "unat (8192 - strtabNext s) = 8192 - unat (strtabNext s)" by (simp add: unat_sub word_le_nat_alt)
  with \<open>unat (strtabNext s) \<le> 257\<close> show "StrtabAllocate s = Inr (strtabNext s)" "StrtabRemaining s \<noteq> 0" "strtabNext s < STRTAB_MAX"
    "strtab_set (strtabNext s) c s = Inr (s\<lparr>strtab := (strtab s)(nstr s := c)\<rparr>)"
    by (auto simp: StrtabAllocate_def StrtabRemaining_def STRTAB_MAX_def SYMLEN_MAX_def word_less_nat_alt strtab_set_def nstr_def)
qed

text \<open>A byte behind the last string is not seen by the entries.\<close>

lemma sym_inv_scratch:
  fixes s c
  defines "s' \<equiv> s\<lparr>strtab := (strtab s)(nstr s := c)\<rparr>"
  assumes "sym_inv s"
  shows "sym_inv s'" "sym_key s' = sym_key s" "nsym s' = nsym s" "nstr s' = nstr s" "rest_of s' = rest_of s"
    "lastKeySymIndex s' = lastKeySymIndex s"
proof -
  show n: "nsym s' = nsym s" "nstr s' = nstr s" by (simp_all add: nsym_def nstr_def s'_def)
  have k: "key_at s' i = key_at s i" if "i < nsym s" for i
    using sym_invD [OF assms(2) that] by (auto simp: key_at_def s'_def Let_def)
  then show "sym_key s' = sym_key s" by (auto simp: sym_key_def fun_eq_iff nsym_def word_less_nat_alt s'_def)
  have "inj_on (key_at s') {..< nsym s} = inj_on (key_at s) {..< nsym s}" by (rule inj_on_cong) (simp add: k)
  then show "sym_inv s'" using assms(2) unfolding sym_inv_def n by (simp add: s'_def)
  show "rest_of s' = rest_of s" "lastKeySymIndex s' = lastKeySymIndex s" by (simp_all add: rest_of_def s'_def)
qed

lemma intern_chr:
  assumes "sym_inv s"
  shows "\<exists>i s'. SymEnter (strtabNext s) 1 (s\<lparr>strtab := (strtab s)(nstr s := c)\<rparr>) = Inr (i, s') \<and> entered (Chr c) s i s'"
proof -
  define s1 where "s1 = s\<lparr>strtab := (strtab s)(nstr s := c)\<rparr>"
  note i1 = sym_inv_scratch [OF assms, of c, folded s1_def]
  have p: "strtabNext s < STRTAB_MAX" by (rule strtab_room(3) [OF assms])
  have k: "entry_key \<lparr>Val = strtabNext s, Len = 1, Info = 0\<rparr> s1 = Chr c" "strtab s1 (unat (strtabNext s)) = c"
    by (simp_all add: entry_key_def s1_def nstr_def)
  have "SymLookup s1 (strtabNext s) 1 = sym_loop s1 (strtabNext s) 1 (nsym s1) 0"
    by (simp add: SymLookup_def SYMLEN_MAX_def nsym_def)
  then have "\<exists>i s'. SymEnter (strtabNext s) 1 s1 = Inr (i, s') \<and> entered (Chr c) s1 i s'"
    using SymEnter_entered [OF i1(1), of "strtabNext s" 1] sym_loop_spec [OF i1(1) p, of 0 "nsym s1"] k
    by (auto simp: fits_def i1(4)) (simp_all add: nstr_def)
  then show ?thesis unfolding s1_def [symmetric] by (simp add: entered_def i1)
qed

lemma intern_entered:
  "sym_inv s \<Longrightarrow> small k \<Longrightarrow> \<exists>i s'. intern k s = Inr (i, s') \<and> entered k s i s'"
  using intern_num [of s] intern_chr [of s] strtab_room [of s] by (cases k) auto

section \<open>The table as an interner\<close>

lemma sym_key_unique:
  assumes "sym_inv s" "sym_key s i = Some k" "sym_key s j = Some k" shows "i = j"
proof -
  have "unat i < nsym s" "unat j < nsym s" "key_at s (unat i) = key_at s (unat j)"
    using assms(2,3) by (auto simp: sym_key_def nsym_def word_less_nat_alt split: if_splits)
  then have "unat i = unat j" using assms(1) by (auto simp: sym_inv_def inj_on_def)
  then show ?thesis by (simp add: word_unat_eq_iff)
qed

lemma intern_spec:
  assumes "sym_inv s" "small k" "intern k s = Inr (i, s')" shows "entered k s i s'"
proof -
  obtain j t where "intern k s = Inr (j, t)" "entered k s j t" using intern_entered [OF assms(1,2)] by blast
  then show ?thesis using assms(3) by simp
qed

interpretation symbols: total_interner intern "\<lambda>s i k. sym_key s i = Some k" sym_inv small
proof (unfold_locales, goal_cases)
  case (1 s k i s')
  then show ?case using intern_spec [OF 1] by (simp add: entered_def)
next
  case (2 s k i s')
  then show ?case using intern_spec [OF 2] by (simp add: entered_def)
next
  case (3 s k i s' j x)
  then show ?case using intern_spec [OF 3(1-3)] by (simp add: entered_def)
next
  case (4 s i k j)
  then show ?case by (rule sym_key_unique)
next
  case (5 s i k x)
  then show ?case by simp
next
  case (6 s k)
  then show ?case using intern_entered by blast
qed

section \<open>The symbols of the language\<close>

lemma sym_key_bound: "sym_inv s \<Longrightarrow> sym_key s i = Some k \<Longrightarrow> unat i < 266"
  using nsym_bound [of s] by (auto simp: sym_key_def nsym_def word_less_nat_alt split: if_splits)

lemma SymEnter_fresh:
  assumes "sym_inv s" "\<forall>i < nsym s. key_at s i \<noteq> Chr c"
  shows "SymEnter (strtabNext s) 1 (s\<lparr>strtab := (strtab s)(nstr s := c)\<rparr>)
    = Inr (symtabNext s, grown \<lparr>Val = strtabNext s, Len = 1, Info = 0\<rparr> (s\<lparr>strtab := (strtab s)(nstr s := c)\<rparr>))"
proof -
  define s1 where "s1 = s\<lparr>strtab := (strtab s)(nstr s := c)\<rparr>"
  note i1 = sym_inv_scratch [OF assms(1), of c, folded s1_def]
  have p: "strtabNext s < STRTAB_MAX" by (rule strtab_room(3) [OF assms(1)])
  have k: "key_at s1 i = key_at s i" if "i < nsym s" for i
    using sym_invD [OF assms(1) that] by (auto simp: key_at_def s1_def Let_def)
  have c: "strtab s1 (unat (strtabNext s)) = c" by (simp add: s1_def nstr_def)
  have "sym_loop s1 (strtabNext s) 1 (nsym s1) 0 = Inr 0xC602"
    using sym_loop_spec [OF i1(1) p, of 0 "nsym s1"] assms(2) by (auto simp: c i1(3) k)
  then have "SymLookup s1 (strtabNext s) 1 = Inr 0xC602" by (simp add: SymLookup_def SYMLEN_MAX_def nsym_def)
  then show ?thesis using SymEnter_new [OF i1(1), of 1 "strtabNext s"] by (simp add: s1_def)
qed

lemma AddLangSymbol_fresh:
  assumes "sym_inv s" "\<forall>i < nsym s. key_at s i \<noteq> Chr c" "TokenAsSymIndex t = symtabNext s"
  shows "\<exists>s'. AddLangSymbol c t s = Inr (symtabNext s, s') \<and> sym_inv s' \<and> nsym s' = nsym s + 1
    \<and> rest_of s' = rest_of s \<and> (\<forall>i < nsym s. key_at s' i = key_at s i) \<and> key_at s' (nsym s) = Chr c
    \<and> lastKeySymIndex s' = symtabNext s"
proof -
  define s1 where "s1 = s\<lparr>strtab := (strtab s)(nstr s := c)\<rparr>"
  define e where "e = \<lparr>Val = strtabNext s, Len = 1, Info = 0\<rparr>"
  define s2 where "s2 = (grown e s1)\<lparr>lastKeySymIndex := symtabNext s\<rparr>"
  note i1 = sym_inv_scratch [OF assms(1), of c, folded s1_def]
  have k: "key_at s1 i = key_at s i" if "i < nsym s" for i
    using sym_invD [OF assms(1) that] by (auto simp: key_at_def s1_def Let_def)
  have c: "entry_key e s1 = Chr c" "fits e s1" by (simp_all add: entry_key_def e_def s1_def nstr_def fits_def)
  have "c AND 0xFF = take_bit 8 c" by (simp add: take_bit_eq_mask mask_eq_exp_minus_1)
  then have "c AND 0xFF = c" by (simp add: take_bit_word_eq_self)
  moreover have "\<not> ErrBase \<le> symtabNext s"
    using nsym_bound [OF assms(1)] by (simp add: nsym_def ErrBase_def word_le_nat_alt)
  ultimately have a: "AddLangSymbol c t s = Inr (symtabNext s, s2)"
    using strtab_room [OF assms(1)] SymEnter_fresh [OF assms(1,2)] assms(3)
    by (simp add: AddLangSymbol_def s1_def s2_def e_def Let_def)
  have g: "sym_inv (grown e s1)" "nsym (grown e s1) = nsym s + 1"
    using sym_inv_grown [OF i1(1) c(2)] assms(2) nsym_grown [OF i1(1)] i1(3) c k by auto
  have "key_at s2 = key_at (grown e s1)" "nsym s2 = nsym (grown e s1)" "nstr s2 = nstr (grown e s1)" "symtab s2 = symtab (grown e s1)"
    "rest_of s2 = rest_of (grown e s1)" "lastKeySymIndex s2 = symtabNext s"
    by (simp_all add: key_at_def s2_def nsym_def nstr_def rest_of_def fun_eq_iff Let_def)
  then show ?thesis using a g i1(3,5) c k by (auto simp: sym_inv_def key_at_grown)
qed

lemma add_all_fresh:
  assumes "sym_inv s" "distinct (map fst ls)" "\<forall>i < nsym s. \<forall>b \<in> fst ` set ls. key_at s i \<noteq> Chr b"
    "\<forall>i < length ls. TokenAsSymIndex (snd (ls ! i)) = of_nat (nsym s + i)"
  shows "\<exists>s'. add_all ls s = Inr s' \<and> sym_inv s' \<and> nsym s' = nsym s + length ls \<and> rest_of s' = rest_of s
    \<and> (\<forall>i < nsym s. key_at s' i = key_at s i) \<and> (\<forall>i < length ls. key_at s' (nsym s + i) = Chr (fst (ls ! i)))"
  using assms
proof (induction ls arbitrary: s)
  case (Cons l ls)
  obtain b t where l: "l = (b, t)" by (cases l)
  have "TokenAsSymIndex t = symtabNext s" using Cons.prems(4) [rule_format, of 0] l by (simp add: nsym_def)
  then obtain s1 where 1: "AddLangSymbol b t s = Inr (symtabNext s, s1)" "sym_inv s1" "nsym s1 = nsym s + 1"
    "rest_of s1 = rest_of s" "\<forall>i < nsym s. key_at s1 i = key_at s i" "key_at s1 (nsym s) = Chr b"
    using AddLangSymbol_fresh [of s b t] Cons.prems l by force
  have "\<forall>i < nsym s1. \<forall>c \<in> fst ` set ls. key_at s1 i \<noteq> Chr c"
    using 1 Cons.prems(2,3) l by (auto simp: less_Suc_eq image_iff)
  moreover have "\<forall>i < length ls. TokenAsSymIndex (snd (ls ! i)) = of_nat (nsym s1 + i)"
    using Cons.prems(4) 1(3) by (metis (no_types, opaque_lifting) add.assoc add.commute length_Cons less_Suc_eq_0_disj nth_Cons_Suc plus_1_eq_Suc Suc_less_eq)
  ultimately obtain s2 where 2: "add_all ls s1 = Inr s2" "sym_inv s2" "nsym s2 = nsym s1 + length ls" "rest_of s2 = rest_of s1"
    "\<forall>i < nsym s1. key_at s2 i = key_at s1 i" "\<forall>i < length ls. key_at s2 (nsym s1 + i) = Chr (fst (ls ! i))"
    using Cons.IH [OF 1(2)] Cons.prems(2) by auto
  have "key_at s2 (nsym s + i) = Chr (fst ((l # ls) ! i))" if "i < length (l # ls)" for i
    using that 1(3,6) 2(5,6) l by (cases i) auto
  then show ?case using 1 2 l by auto
qed simp

lemma fresh_inv:
  assumes "symtab s = (\<lambda>_. \<lparr>Val = 0, Len = 0, Info = 0\<rparr>)" "symtabNext s = 1" "strtabNext s = 1"
  shows "sym_inv s" "nsym s = 1" "key_at s 0 = Num 0"
proof -
  show "nsym s = 1" "key_at s 0 = Num 0" using assms by (simp_all add: nsym_def key_at_def)
  then show "sym_inv s" using assms by (simp add: sym_inv_def nstr_def inj_on_def)
qed

text \<open>The tokens of the language are in the table.\<close>

definition keyed :: "yc \<Rightarrow> bool" where
  "keyed s \<longleftrightarrow> (\<forall>(b, t) \<in> set lang_symbols. sym_key s (TokenAsSymIndex t) = Some (Chr b))"

lemma token_index:
  assumes "unat i < 0x4000" "tag = 0 \<or> tag = 0x4000 \<or> tag = 0x8000"
  shows "TokenAsSymIndex (tag OR i) = i"
proof -
  have m: "NOT ErrBase = mask 14" by (simp add: ErrBase_def mask_eq_exp_minus_1)
  have i: "take_bit 14 i = i"
    using assms(1) by (simp add: word_unat_eq_iff unsigned_take_bit_eq take_bit_nat_eq_self)
  have t: "take_bit 14 tag = 0" using assms(2) by auto
  have "TokenAsSymIndex (tag OR i) = take_bit 14 tag OR take_bit 14 i"
    unfolding TokenAsSymIndex_def m take_bit_eq_mask [symmetric] by (rule take_bit_or)
  then show ?thesis by (simp only: i t or.left_neutral)
qed

lemma lang_tokens: "map (\<lambda>(b, t). TokenAsSymIndex t) lang_symbols = map of_nat [1..<18]"
  by (simp add: lang_symbols_def TokenAsSymIndex_def tok_defs ErrBase_def upt_rec [of 1] upt_rec)

lemma SymInit_fresh:
  assumes "symtab s = (\<lambda>_. \<lparr>Val = 0, Len = 0, Info = 0\<rparr>)" "symtabNext s = 1" "strtabNext s = 1"
  shows "\<exists>s'. SymInit s = Inr s' \<and> sym_inv s' \<and> keyed s' \<and> rest_of s' = rest_of s"
proof -
  note f = fresh_inv [OF assms]
  have l: "length lang_symbols = 17" by (simp add: lang_symbols_def)
  have t: "TokenAsSymIndex (snd (lang_symbols ! i)) = of_nat (1 + i)" if "i < 17" for i
  proof -
    have "map (\<lambda>(b, t). TokenAsSymIndex t) lang_symbols ! i = map of_nat [1..<18] ! i" by (simp only: lang_tokens)
    then show ?thesis using that l by (simp add: case_prod_beta del: upt_Suc)
  qed
  have "distinct (map fst lang_symbols)" by (simp add: lang_symbols_def)
  moreover have "\<forall>i < nsym s. \<forall>b \<in> fst ` set lang_symbols. key_at s i \<noteq> Chr b" using f by simp
  ultimately obtain s' where s': "add_all lang_symbols s = Inr s'" "sym_inv s'" "nsym s' = 18" "rest_of s' = rest_of s"
    "\<forall>i < 17. key_at s' (1 + i) = Chr (fst (lang_symbols ! i))"
    using add_all_fresh [of s lang_symbols] f t l by auto
  have "sym_key s' (TokenAsSymIndex (snd (lang_symbols ! i))) = Some (Chr (fst (lang_symbols ! i)))" if "i < 17" for i
  proof -
    have "unat (of_nat (1 + i) :: u16) = 1 + i" using that by (intro sym_index) simp
    then show ?thesis using s'(3,5) that unfolding t [OF that] sym_key_def
      by (simp add: word_less_nat_alt nsym_def)
  qed
  then have "keyed s'" using l by (auto simp: keyed_def in_set_conv_nth) (metis fst_conv snd_conv)
  then show ?thesis using s' by (auto simp: SymInit_def)
qed


end
