(* ===== verification/Yapl_Scan.thy ===== *)
theory Yapl_Scan
  imports Yapl_Table
begin

text \<open>
  The lexer of the YAPL-1 compiler against a specification on characters: which characters are
  significant, which token stands for a character, and what reading one token does.
\<close>

section \<open>Printing changes only the output\<close>

definition quiet :: "yc \<Rightarrow> yc" where "quiet s = s\<lparr>out := []\<rparr>"

lemma quiet_put [simp]: "quiet (put b s) = quiet s"
  by (simp add: quiet_def put_def Putb_def split: option.splits)

lemma quiet_put_chars [simp]: "quiet (put_chars cs s) = quiet s"
  by (induction cs s rule: put_chars.induct) simp_all

lemma quiet_printOops [simp]: "quiet (printOops a s) = quiet s"
  by (simp add: printOops_def)

lemma quiet_printS [simp]: "quiet (printS a s) = quiet s"
  by (simp add: printS_def split: any.splits)

lemma put_hex_ok: "unat d < 16 \<Longrightarrow> put_hex d s = Inr (put (of_char (hexChars ! unat d)) s)"
  by (simp add: put_hex_def hexChars_def)

lemma nibble: "unat (w AND 0xF :: u16) < 16" "unat (drop_bit 12 w :: u16) < 16" "unat (ucast (v AND 0xF :: u8) :: u16) < 16"
proof -
  have a: "(x AND 0xF) = take_bit 4 x" for x :: "'a::len word"
    by (simp add: take_bit_eq_mask mask_eq_exp_minus_1)
  have t: "unat (take_bit 4 x) < 16" for x :: "'a::len word"
    using take_bit_nat_less_exp [of 4 "unat x"] by (simp add: unsigned_take_bit_eq)
  show "unat (w AND 0xF) < 16" unfolding a by (rule t)
  show "unat (ucast (v AND 0xF) :: u16) < 16" unfolding a using t [of v] by (simp add: unat_ucast_le)
  have "unat (drop_bit 12 w) = unat w div 4096" by (simp only: unat_drop_bit_eq) (simp add: drop_bit_eq_div)
  then show "unat (drop_bit 12 w) < 16" using unat_lt_u16 [of w] by linarith
qed

lemma printX_total: "\<exists>s'. printX a s = Inr s' \<and> quiet s' = quiet s"
  by (cases a) (simp_all add: printX_def put_hex_ok nibble)

fun wants_char :: "string \<Rightarrow> bool \<Rightarrow> bool" where
  "wants_char [] fmt = False"
| "wants_char (c # cs) fmt = (if fmt then c = CHR ''c'' \<or> wants_char cs False else wants_char cs (c = CHR 0x25))"

lemma printf_total:
  "\<not> wants_char cs fmt \<or> (\<forall>a \<in> set args. \<exists>b. a = AByte b) \<Longrightarrow>
   \<exists>s'. printf_loop cs fmt args s = Inr s' \<and> quiet s' = quiet s"
proof (induction cs fmt args s rule: printf_loop.induct)
  case (2 c cs fmt args s)
  show ?case
  proof (cases fmt)
    case False
    then show ?thesis using 2 by (cases "c = CHR 0x25") (force simp: quiet_put)+
  next
    case True
    show ?thesis
    proof (cases "c = CHR ''n''")
      case n: True
      then show ?thesis using 2(1) [OF True n] 2(9) True by simp
    next
      case n: False
      show ?thesis
      proof (cases args)
        case Nil
        then show ?thesis using 2(2) [OF True n Nil] 2(9) True n by simp
      next
        case (Cons a as)
        consider "c = CHR ''s''" | "c = CHR ''x''" | "c = CHR ''c''" | "c \<noteq> CHR ''s''" "c \<noteq> CHR ''x''" "c \<noteq> CHR ''c''" by blast
        then show ?thesis
        proof cases
          case 1
          then show ?thesis using 2(3) [OF True n Cons 1] 2(9) True n Cons by auto
        next
          case x: 2
          obtain s1 where "printX a s = Inr s1" "quiet s1 = quiet s" using printX_total by blast
          then show ?thesis using 2(4) [OF True n Cons _ x, of s1] 2(9) True n Cons x by auto
        next
          case c: 3
          then obtain b where "a = AByte b" using 2(9) True Cons by auto
          then show ?thesis using 2(5) [OF True n Cons _ _ c, of "put b s"] 2(9) True n Cons c by (auto simp: printC_def)
        next
          case 4
          then show ?thesis using 2(6) [OF True n Cons 4] 2(9) True n Cons by auto
        qed
      qed
    qed
  qed
qed simp

section \<open>What the lexer reads\<close>

text \<open>The characters of an input that are not white space and not in a comment.\<close>

fun sig_chars :: "bool \<Rightarrow> u8 list \<Rightarrow> u8 list" where
  "sig_chars c [] = []"
| "sig_chars c (b # bs) =
     (if b = 0x0A then sig_chars False bs
      else if c then sig_chars c bs
      else if b = 0x23 then sig_chars True bs
      else if b = 0x20 \<or> b = 0x09 then sig_chars c bs
      else b # sig_chars False bs)"

text \<open>A character is a digit, a user symbol, a language symbol, or not valid.\<close>

definition is_digit :: "u8 \<Rightarrow> bool" where "is_digit c \<longleftrightarrow> isDigit (ucast c)"
definition is_user :: "u8 \<Rightarrow> bool" where "is_user c \<longleftrightarrow> isLowerLetter (ucast c)"
definition is_lang :: "u8 \<Rightarrow> bool" where "is_lang c \<longleftrightarrow> isUpperLetter (ucast c) \<or> isPunctuation (ucast c)"
definition valid_char :: "u8 \<Rightarrow> bool" where "valid_char c \<longleftrightarrow> is_digit c \<or> is_user c \<or> is_lang c"

definition char_tag :: "u8 \<Rightarrow> Token" where
  "char_tag c = (if is_digit c then 0x8000 else if is_user c then 0 else 0x4000)"

definition char_key :: "u8 \<Rightarrow> key" where
  "char_key c = (if is_digit c then Num (ucast (c - 0x30)) else Chr c)"

text \<open>\<open>t\<close> is the token of the character \<open>c\<close> in the tables of \<open>s\<close>.\<close>

definition token_for :: "yc \<Rightarrow> u8 \<Rightarrow> Token \<Rightarrow> bool" where
  "token_for s c t \<longleftrightarrow> (if valid_char c then \<exists>i. t = char_tag c OR i \<and> sym_key s i = Some (char_key c) else t = 0xC101)"

definition extends :: "yc \<Rightarrow> yc \<Rightarrow> bool" where
  "extends s s' \<longleftrightarrow> (\<forall>j x. sym_key s j = Some x \<longrightarrow> sym_key s' j = Some x)"

lemma extends_trans: "extends s s' \<Longrightarrow> extends s' s'' \<Longrightarrow> extends s s''"
  by (simp add: extends_def)

lemma token_for_extends: "token_for s c t \<Longrightarrow> extends s s' \<Longrightarrow> token_for s' c t"
  by (fastforce simp: token_for_def extends_def split: if_splits)

lemma keyed_extends: "keyed s \<Longrightarrow> extends s s' \<Longrightarrow> keyed s'"
  by (auto simp: keyed_def extends_def)

lemma ucast_back: "ucast (ucast (c :: u8) :: u16) = c"
  by (rule bit_word_eqI) (auto simp: bit_ucast_iff dest: bit_imp_le_length)

lemma ucast_byte_eq: "ucast (c :: u8) = (ucast d :: u16) \<longleftrightarrow> c = d"
  by (metis ucast_back)

lemma byte_tests:
  "isHash (ucast c) \<longleftrightarrow> c = 0x23" "isWhite (ucast c) \<longleftrightarrow> c = 0x20 \<or> c = 0x09 \<or> c = 0x0A"
  "(ucast c :: u16) = 0x0A \<longleftrightarrow> c = 0x0A" "\<not> 0xFF < (ucast (c :: u8) :: u16)"
proof -
  have n: "(0x23 :: u16) = ucast (0x23 :: u8)" "(0x20 :: u16) = ucast (0x20 :: u8)" "(0x09 :: u16) = ucast (0x09 :: u8)"
    "(0x0A :: u16) = ucast (0x0A :: u8)" by simp_all
  show "isHash (ucast c) \<longleftrightarrow> c = 0x23" "isWhite (ucast c) \<longleftrightarrow> c = 0x20 \<or> c = 0x09 \<or> c = 0x0A"
    "(ucast c :: u16) = 0x0A \<longleftrightarrow> c = 0x0A"
    unfolding isHash_def isWhite_def n ucast_byte_eq by simp_all
  have "unat c < 2 ^ LENGTH(8)" by (rule unsigned_less)
  then show "\<not> 0xFF < (ucast c :: u16)" by (simp add: word_less_nat_alt unat_ucast_le)
qed

lemma digit_small: "is_digit c \<Longrightarrow> ucast (c - 0x30) \<le> (9 :: u16)"
  by (simp add: is_digit_def isDigit_def word_le_nat_alt unat_ucast_le unat_sub) linarith

lemma entered_extends: "entered k s i s' \<Longrightarrow> extends s s' \<and> sym_inv s' \<and> sym_key s' i = Some k \<and> rest_of s' = rest_of s"
  by (simp add: entered_def extends_def)

lemma lex_char_spec:
  assumes "sym_inv s"
  shows "\<exists>t s'. lex_char (strtabNext s) (ucast c) s = Inr (t, s') \<and> token_for s' c t \<and> sym_inv s' \<and> extends s s' \<and> rest_of s' = rest_of s"
proof (cases "is_digit c")
  case True
  obtain i s' where "SymEnter (ucast (c - 0x30)) 0 s = Inr (i, s')" "entered (Num (ucast (c - 0x30))) s i s'"
    using intern_num [OF assms digit_small [OF True]] by blast
  moreover have "isDigit (ucast c)" using True by (simp add: is_digit_def)
  ultimately show ?thesis using True entered_extends
    by (auto simp: lex_char_def convert_def ucast_back token_for_def valid_char_def char_tag_def char_key_def TT_NUM_def)
next
  case False
  define s1 where "s1 = s\<lparr>strtab := (strtab s)(nstr s := c)\<rparr>"
  have d: "\<not> isDigit (ucast c)" using False by (simp add: is_digit_def)
  have a: "strtab_set (strtabNext s) (ucast (ucast c :: u16)) s = Inr s1"
    using strtab_room(4) [OF assms, of c] by (simp add: ucast_back s1_def)
  obtain i s' where e: "SymEnter (strtabNext s) 1 s1 = Inr (i, s')" "entered (Chr c) s i s'"
    using intern_chr [OF assms, of c] s1_def by blast
  consider "is_user c" | "\<not> is_user c" "is_lang c" | "\<not> valid_char c" using False by (auto simp: valid_char_def)
  then show ?thesis
  proof cases
    case 1
    then have "lex_char (strtabNext s) (ucast c) s = Inr (TT_USR OR i, s')" using e(1) by (simp add: lex_char_def d a is_user_def)
    moreover have "token_for s' c (TT_USR OR i)" using 1 False entered_extends [OF e(2)]
      by (auto simp: token_for_def valid_char_def char_tag_def char_key_def TT_USR_def)
    ultimately show ?thesis using entered_extends [OF e(2)] by blast
  next
    case 2
    then have "lex_char (strtabNext s) (ucast c) s = Inr (TT_KEY OR i, s')" using e(1) by (auto simp: lex_char_def d a is_user_def is_lang_def)
    moreover have "token_for s' c (TT_KEY OR i)" using 2 False entered_extends [OF e(2)]
      by (auto simp: token_for_def valid_char_def char_tag_def char_key_def TT_KEY_def)
    ultimately show ?thesis using entered_extends [OF e(2)] by blast
  next
    case 3
    then have "lex_char (strtabNext s) (ucast c) s = Inr (0xC101, s1)"
      by (simp add: lex_char_def d a valid_char_def is_user_def is_lang_def StrtabDiscard_def)
    moreover have "token_for s1 c 0xC101" using 3 by (simp add: token_for_def)
    ultimately show ?thesis using sym_inv_scratch [OF assms, of c, folded s1_def] by (auto simp: extends_def)
  qed
qed

text \<open>What stays the same when a token is read, the line counter and the output apart.\<close>

definition core_of :: "yc \<Rightarrow> _" where
  "core_of s = (LexDebug s, inFD s, AstNodes s, astNodeNext s, read_error s, written s)"

lemma rest_core: "rest_of s' = rest_of s \<Longrightarrow> core_of s' = core_of s \<and> pbt s' = pbt s \<and> input s' = input s \<and> lineCount s' = lineCount s"
  by (simp add: rest_of_def core_of_def)

abbreviation (input) inp :: "yc \<Rightarrow> u8 list" where "inp s \<equiv> input s (inFD s)"

definition end_token :: "yc \<Rightarrow> Token" where
  "end_token s = (if read_error s (inFD s) then 0xC102 else 0xFFFF)"

text \<open>What reading a token gives: the characters \<open>pre\<close> are consumed, of which the last one is the
  token's, unless the input has ended.\<close>

definition lexed :: "bool \<Rightarrow> yc \<Rightarrow> Token \<Rightarrow> yc \<Rightarrow> bool" where
  "lexed c s t s' \<longleftrightarrow> sym_inv s' \<and> extends s s' \<and> core_of s' = core_of s \<and> pbt s' = 0
     \<and> (case sig_chars c (inp s) of
          [] \<Rightarrow> t = end_token s \<and> inp s' = []
        | b # bs \<Rightarrow> token_for s' b t \<and> sig_chars False (inp s') = bs \<and> length (inp s') < length (inp s))
     \<and> (\<exists>pre. inp s = pre @ inp s' \<and> lineCount s' = lineCount s + of_nat (count_list pre 0x0A))"

lemma sym_inv_cong:
  "symtab s = symtab t \<Longrightarrow> symtabNext s = symtabNext t \<Longrightarrow> strtab s = strtab t \<Longrightarrow> strtabNext s = strtabNext t \<Longrightarrow>
   sym_inv s = sym_inv t \<and> sym_key s = sym_key t"
  by (simp add: sym_inv_def sym_key_def key_at_def nsym_def nstr_def fun_eq_iff Let_def inj_on_def)

lemma lex_loop_spec:
  "sym_inv s \<Longrightarrow> pbt s = 0 \<Longrightarrow> len \<noteq> 0 \<Longrightarrow> \<exists>t s'. lex_loop (strtabNext s) len c s = Inr (t, s') \<and> lexed c s t s'"
proof (induction "inp s" arbitrary: s c)
  case Nil
  have "lex_loop (strtabNext s) len c s = Inr (end_token s, s)"
    using Nil(1) by (simp add: lex_loop.simps [of _ _ _ s] Getb_def lex_end_def end_token_def E_EOF_def E_IOERR_def TT_EOF_def)
  moreover have "lexed c s (end_token s) s" using Nil by (auto simp: lexed_def extends_def)
  ultimately show ?case by blast
next
  case (Cons b bs)
  define s1 where "s1 = s\<lparr>input := (input s)(inFD s := bs)\<rparr>"
  have g: "Getb (inFD s) s = (ucast b, s1)" using Cons(2) [symmetric] by (simp add: Getb_def s1_def)
  have step: "lex_loop (strtabNext s) len c s =
     (if b = 0x0A then lex_loop (strtabNext s) len False (s1\<lparr>lineCount := lineCount s1 + 1\<rparr>)
      else if c then lex_loop (strtabNext s) len c s1
      else if b = 0x23 then lex_loop (strtabNext s) len True s1
      else if b = 0x20 \<or> b = 0x09 then lex_loop (strtabNext s) len c s1
      else lex_char (strtabNext s) (ucast b) s1)"
    using Cons.prems byte_tests [of b] by (subst lex_loop.simps) (simp add: g)
  have i1: "sym_inv (s1\<lparr>lineCount := n\<rparr>)" "sym_key (s1\<lparr>lineCount := n\<rparr>) = sym_key s" "sym_inv s1" "sym_key s1 = sym_key s" for n
    using sym_inv_cong [of "s1\<lparr>lineCount := n\<rparr>" s] sym_inv_cong [of s1 s] Cons.prems by (simp_all add: s1_def)
  have skip: "\<exists>t s'. lex_loop (strtabNext s) len d (s1\<lparr>lineCount := lineCount s1 + n\<rparr>) = Inr (t, s') \<and> lexed c s t s'"
    if "sig_chars c (b # bs) = sig_chars d bs" "n = (if b = 0x0A then 1 else 0)" for d n
  proof -
    let ?s = "s1\<lparr>lineCount := lineCount s1 + n\<rparr>"
    have "inp ?s = bs" "strtabNext ?s = strtabNext s" "pbt ?s = 0" using Cons.prems by (simp_all add: s1_def)
    then obtain t s' where t: "lex_loop (strtabNext s) len d ?s = Inr (t, s')" "lexed d ?s t s'"
      using Cons(1) [of ?s d] i1 Cons.prems by auto
    obtain pre where p: "bs = pre @ inp s'" "lineCount s' = lineCount ?s + of_nat (count_list pre 0x0A)"
      using t(2) \<open>inp ?s = bs\<close> by (auto simp: lexed_def)
    have "inp s = (b # pre) @ inp s'" "lineCount s' = lineCount s + of_nat (count_list (b # pre) 0x0A)"
      using p Cons(2) that(2) by (simp_all add: s1_def)
    then have "lexed c s t s'" using t(2) that(1) \<open>inp ?s = bs\<close> Cons(2) [symmetric] i1
      unfolding lexed_def
      by (intro conjI exI [of _ "b # pre"]) (auto simp: extends_def core_of_def end_token_def s1_def split: list.splits)
    then show ?thesis using t(1) by blast
  qed
  show ?case
  proof (cases "b = 0x0A \<or> c \<or> b = 0x23 \<or> b = 0x20 \<or> b = 0x09")
    case True
    then show ?thesis unfolding step using skip [of False 1] skip [of c 0] skip [of True 0] by (auto simp: s1_def)
  next
    case False
    obtain t s' where t: "lex_char (strtabNext s) (ucast b) s1 = Inr (t, s')" "token_for s' b t" "sym_inv s'" "extends s1 s'" "rest_of s' = rest_of s1"
      using lex_char_spec [OF i1(3), of b] by (auto simp: s1_def)
    have "lexed c s t s'" using t(2-4) rest_core [OF t(5)] False Cons(2) [symmetric] Cons.prems i1(4)
      unfolding lexed_def by (intro conjI exI [of _ "[b]"]) (auto simp: extends_def core_of_def s1_def)
    then show ?thesis unfolding step using t(1) False by auto
  qed
qed

section \<open>Tokens stand for characters\<close>

lemma IsErrTok_ge: "IsErrTok t \<Longrightarrow> 0xC000 \<le> t"
proof -
  assume "IsErrTok t"
  then have "t AND 0xC000 = 0xC000" by (simp add: IsErrTok_def TT_ERR_def ErrBase_def)
  then show ?thesis using word_and_le2 [of t "0xC000"] by simp
qed

lemma tagged_small:
  assumes "unat i < 0x4000" "tag = 0 \<or> tag = 0x4000 \<or> tag = (0x8000 :: u16)"
  shows "tag OR i < 0xC000"
proof -
  have "unat (drop_bit 14 i) = 0" using assms(1) by (simp only: unat_drop_bit_eq) (simp add: drop_bit_eq_div)
  then have "drop_bit 14 i = 0" by (simp only: unsigned_eq_0_iff)
  then have "drop_bit 14 (tag OR i) = drop_bit 14 tag" by (simp only: drop_bit_or or.right_neutral)
  then have "unat (drop_bit 14 (tag OR i)) \<le> 2" using assms(2) by auto
  then have "drop_bit 14 (unat (tag OR i)) \<le> 2" by (simp only: unat_drop_bit_eq)
  then have "unat (tag OR i) div 2 ^ 14 \<le> 2" by (simp only: drop_bit_eq_div)
  then show ?thesis by (simp add: word_less_nat_alt)
qed

lemma token_forD:
  assumes "sym_inv s" "token_for s c t" "valid_char c"
  shows "sym_key s (TokenAsSymIndex t) = Some (char_key c)" "t = char_tag c OR TokenAsSymIndex t" "t < 0xC000" "\<not> IsErrTok t"
proof -
  obtain i where i: "t = char_tag c OR i" "sym_key s i = Some (char_key c)" using assms by (auto simp: token_for_def)
  have tag: "char_tag c = 0 \<or> char_tag c = 0x4000 \<or> char_tag c = 0x8000" by (simp add: char_tag_def)
  have l: "unat i < 0x4000" using sym_key_bound [OF assms(1) i(2)] by simp
  then show "sym_key s (TokenAsSymIndex t) = Some (char_key c)" "t = char_tag c OR TokenAsSymIndex t"
    using token_index [OF l tag] i by simp_all
  show "t < 0xC000" unfolding i(1) by (rule tagged_small [OF l tag])
  then show "\<not> IsErrTok t" using IsErrTok_ge [of t] by auto
qed

lemma char_key_inj: "char_key c = char_key d \<Longrightarrow> c = d"
  by (auto simp: char_key_def ucast_byte_eq split: if_splits)

text \<open>Two characters of a run have the same token exactly when they are equal.\<close>

lemma token_unique:
  assumes "sym_inv s" "token_for s c t" "token_for s d u" "valid_char c"
  shows "t = u \<longleftrightarrow> c = d"
proof
  assume "t = u"
  then have "valid_char d" using token_forD(3) [OF assms(1,2,4)] assms(3) by (auto simp: token_for_def split: if_splits)
  then show "c = d"
    using token_forD(1) [OF assms(1,2,4)] token_forD(1) [OF assms(1,3)] \<open>t = u\<close> char_key_inj by simp
next
  assume "c = d"
  then have "sym_key s (TokenAsSymIndex t) = sym_key s (TokenAsSymIndex u)"
    using token_forD(1) [OF assms(1,2,4)] token_forD(1) [OF assms(1,3)] assms(4) by simp
  then have "TokenAsSymIndex t = TokenAsSymIndex u"
    using sym_key_unique [OF assms(1)] token_forD(1) [OF assms(1,2,4)] by metis
  then show "t = u"
    using token_forD(2) [OF assms(1,2,4)] token_forD(2) [OF assms(1,3)] assms(4) \<open>c = d\<close> by metis
qed

text \<open>The constants of the language symbols are the tokens of their characters.\<close>

lemma keyed_token:
  assumes "keyed s" "(b, t) \<in> set lang_symbols" "is_lang b" "\<not> is_digit b" "\<not> is_user b"
  shows "token_for s b t"
proof -
  have "t = 0x4000 OR TokenAsSymIndex t"
    using assms(2) by (auto simp: lang_symbols_def TokenAsSymIndex_def ErrBase_def tok_defs)
  moreover have "sym_key s (TokenAsSymIndex t) = Some (Chr b)" using assms(1,2) by (auto simp: keyed_def)
  ultimately show ?thesis using assms(3-5) by (auto simp: token_for_def valid_char_def char_tag_def char_key_def)
qed

lemma char_classes:
  "is_lang 0x56" "is_lang 0x46" "is_lang 0x3B" "is_lang 0x3D" "is_lang 0x7D"
  "\<not> is_digit 0x56" "\<not> is_digit 0x46" "\<not> is_digit 0x3B" "\<not> is_digit 0x3D" "\<not> is_digit 0x7D"
  "\<not> is_user 0x56" "\<not> is_user 0x46" "\<not> is_user 0x3B" "\<not> is_user 0x3D" "\<not> is_user 0x7D"
  by (simp_all add: is_lang_def is_digit_def is_user_def isUpperLetter_def isPunctuation_def isDigit_def isLowerLetter_def)

lemma key_tokens:
  assumes "sym_inv s" "keyed s" "token_for s c t"
  shows "t = tok_V \<longleftrightarrow> c = 0x56" "t = tok_F \<longleftrightarrow> c = 0x46" "t = SEMI \<longleftrightarrow> c = 0x3B" "t = EQU \<longleftrightarrow> c = 0x3D" "t = BCLOSE \<longleftrightarrow> c = 0x7D"
proof -
  have k: "t = u \<longleftrightarrow> c = b" if "(b, u) \<in> set lang_symbols" "is_lang b" "\<not> is_digit b" "\<not> is_user b" for b u
    using token_unique [OF assms(1) keyed_token [OF assms(2) that] assms(3)] that(2) by (auto simp: valid_char_def)
  show "t = tok_V \<longleftrightarrow> c = 0x56" "t = tok_F \<longleftrightarrow> c = 0x46" "t = SEMI \<longleftrightarrow> c = 0x3B" "t = EQU \<longleftrightarrow> c = 0x3D" "t = BCLOSE \<longleftrightarrow> c = 0x7D"
    by (rule k; simp add: lang_symbols_def char_classes)+
qed

section \<open>Reading a token\<close>

lemma quietD:
  "quiet s' = quiet s \<Longrightarrow> symtab s' = symtab s \<and> symtabNext s' = symtabNext s \<and> strtab s' = strtab s \<and> strtabNext s' = strtabNext s
    \<and> core_of s' = core_of s \<and> pbt s' = pbt s \<and> input s' = input s \<and> lineCount s' = lineCount s"
  by (cases s; cases s') (simp add: quiet_def core_of_def)

lemma quiet_tables: "quiet s' = quiet s \<Longrightarrow> sym_inv s' = sym_inv s \<and> sym_key s' = sym_key s"
  by (drule quietD) (rule sym_inv_cong; simp)

lemma entry_total:
  assumes "sym_inv s" "sym_key s i = Some k"
  shows "\<exists>e. symtab_get s i = Inr e \<and> (Len e \<noteq> 0 \<longrightarrow> strtab_get s (Val e) = Inr (strtab s (unat (Val e))))"
proof -
  have i: "unat i < nsym s" using assms(2) by (auto simp: sym_key_def nsym_def word_less_nat_alt split: if_splits)
  then have "symtab_get s i = Inr (symtab s (unat i))"
    using nsym_bound [OF assms(1)] by (simp add: symtab_get_def SYMTAB_MAX_def word_less_nat_alt)
  moreover have "Len (symtab s (unat i)) \<noteq> 0 \<longrightarrow> Val (symtab s (unat i)) < STRTAB_MAX"
    using sym_invD [OF assms(1) i] nstr_bound [OF assms(1)] by (auto simp: STRTAB_MAX_def word_less_nat_alt)
  ultimately show ?thesis by (auto simp: strtab_get_def)
qed

lemma Printf_total:
  "\<not> wants_char f False \<or> (\<forall>a \<in> set args. \<exists>b. a = AByte b) \<Longrightarrow> \<exists>s'. Printf f args s = Inr s' \<and> quiet s' = quiet s"
  unfolding Printf_def by (rule printf_total)

lemma PrintTok_total:
  assumes "sym_inv s" "IsErrTok t \<or> sym_key s (TokenAsSymIndex t) \<noteq> None"
  shows "\<exists>s'. PrintTok t s = Inr s' \<and> quiet s' = quiet s"
proof (cases "IsErrTok t")
  case True
  then show ?thesis by (simp add: PrintTok_def) (rule Printf_total; simp)
next
  case False
  then obtain e where "symtab_get s (TokenAsSymIndex t) = Inr e" "Len e \<noteq> 0 \<longrightarrow> strtab_get s (Val e) = Inr (strtab s (unat (Val e)))"
    using assms entry_total [OF assms(1), of "TokenAsSymIndex t"] by auto
  then show ?thesis using False by (cases "Len e = 0") (simp_all add: PrintTok_def, (rule Printf_total; simp)+)
qed

definition ready :: "yc \<Rightarrow> bool" where
  "ready s \<longleftrightarrow> sym_inv s \<and> keyed s \<and> (pbt s = 0 \<or> pbt s = end_token s \<and> inp s = [])"

definition got :: "yc \<Rightarrow> Token \<Rightarrow> yc \<Rightarrow> bool" where
  "got s t s' \<longleftrightarrow> sym_inv s' \<and> extends s s' \<and> core_of s' = core_of s \<and> pbt s' = 0
     \<and> (case sig_chars False (inp s) of
          [] \<Rightarrow> t = end_token s \<and> inp s' = []
        | b # bs \<Rightarrow> token_for s' b t \<and> sig_chars False (inp s') = bs \<and> length (inp s') < length (inp s))"

lemma got_quiet: "got s t s1 \<Longrightarrow> quiet s2 = quiet s1 \<Longrightarrow> got s t s2"
  using quietD [of s2 s1] quiet_tables [of s2 s1]
  by (auto simp: got_def extends_def token_for_def core_of_def split: list.splits)

lemma end_token_err: "IsErrTok (end_token s)" "IsErrTok 0xC101"
  by (simp_all add: end_token_def IsErrTok_def TT_ERR_def ErrBase_def)

lemma GetToken_spec:
  assumes "ready s"
  shows "\<exists>t s'. GetToken s = Inr (t, s') \<and> got s t s'"
proof -
  have "\<exists>t s1. internalGetToken s = Inr (t, s1) \<and> got s t s1"
  proof (cases "pbt s = 0")
    case True
    obtain t s1 where "lex_loop (strtabNext s) (StrtabRemaining s) False s = Inr (t, s1)" "lexed False s t s1"
      using lex_loop_spec [of s "StrtabRemaining s", where c = False] strtab_room(2) [of s] assms True by (auto simp: ready_def)
    then show ?thesis using True strtab_room(1) [of s] assms
      by (auto simp: internalGetToken_def ready_def got_def lexed_def split: list.splits)
  next
    case False
    then show ?thesis using assms sym_inv_cong [of "s\<lparr>pbt := 0\<rparr>" s]
      by (auto simp: internalGetToken_def ready_def got_def extends_def core_of_def)
  qed
  then obtain t s1 where 1: "internalGetToken s = Inr (t, s1)" "got s t s1" by blast
  have "IsErrTok t \<or> sym_key s1 (TokenAsSymIndex t) \<noteq> None"
    using 1(2) token_forD(1) [of s1 _ t] end_token_err(1) [of s] end_token_err(2) unfolding got_def
    by (auto simp: token_for_def split: list.splits if_splits)
  then obtain s2 where "PrintTok t s1 = Inr s2" "quiet s2 = quiet s1"
    using PrintTok_total [of s1 t] 1(2) by (auto simp: got_def)
  then show ?thesis using 1 got_quiet [OF 1(2)] by (auto simp: GetToken_def)
qed

end
