(* ===== verification/Yapl_Tree.thy ===== *)
theory Yapl_Tree
  imports Yapl_Scan
begin

text \<open>
  The parser of the YAPL-1 compiler against a reference parser on characters, and the whole compiler.
\<close>

section \<open>The language the parser accepts\<close>

text \<open>A reference parser on the significant characters. A node is the declaration of a character, or
  the place of a syntax error; after an error it goes on behind the next semicolon or closing brace.\<close>

datatype unode = Decl u8 | Bad

fun skip_stmt :: "u8 list \<Rightarrow> u8 list" where
  "skip_stmt [] = []"
| "skip_stmt (c # cs) = (if c = 0x3B \<or> c = 0x7D then cs else skip_stmt cs)"

text \<open>One declaration: its nodes, and what is left, or \<open>None\<close> when the parse ends.\<close>

fun var_decl :: "u8 list \<Rightarrow> unode list \<times> u8 list option" where
  "var_decl [] = ([], None)"
| "var_decl [v] = (if \<not> valid_char v then ([], None) else ([Decl v], None))"
| "var_decl (v # t # cs) =
     (if \<not> valid_char v then ([], None)
      else if \<not> valid_char t then ([Decl v], None)
      else if t = 0x3B \<or> t = 0x3D then ([Decl v], Some cs)
      else ([Decl v, Bad], Some (skip_stmt cs)))"

fun one_decl :: "u8 list \<Rightarrow> unode list \<times> u8 list option" where
  "one_decl [] = ([], None)"
| "one_decl (c # cs) =
     (if \<not> valid_char c then ([], None)
      else if c = 0x56 then var_decl cs
      else if c = 0x46 then ([], Some cs)
      else ([Bad], Some (skip_stmt cs)))"

lemma skip_shorter: "length (skip_stmt cs) \<le> length cs"
  by (induction cs) auto

lemma var_decl_shorter: "var_decl cs = (ns, Some r) \<Longrightarrow> length r < length cs"
proof (induction cs rule: var_decl.induct)
  case (3 v t cs)
  then show ?case using skip_shorter [of cs] by (auto split: if_splits)
qed (auto split: if_splits)

lemma one_decl_shorter: "one_decl cs = (ns, Some r) \<Longrightarrow> length r < length cs"
proof (cases cs)
  case (Cons c cs')
  assume "one_decl cs = (ns, Some r)"
  then have "var_decl cs' = (ns, Some r) \<or> r = cs' \<or> r = skip_stmt cs'" using Cons by (simp split: if_splits)
  then show ?thesis using Cons skip_shorter [of cs'] var_decl_shorter [of cs' ns r] by auto
qed simp

function decls :: "u8 list \<Rightarrow> unode list" where
  "decls cs = (case one_decl cs of (ns, None) \<Rightarrow> ns | (ns, Some r) \<Rightarrow> ns @ decls r)"
  by pat_completeness auto

termination
  by (relation "measure length") (simp_all add: one_decl_shorter [OF sym])

declare decls.simps [simp del]

text \<open>The rest of the input behind the token where a declaration has a syntax error, and whether no
  semicolon and no brace follows there; a program in which a declaration is left like this.\<close>

fun var_bad :: "u8 list \<Rightarrow> u8 list option" where
  "var_bad (v # t # cs) = (if valid_char v \<and> valid_char t \<and> t \<noteq> 0x3B \<and> t \<noteq> 0x3D then Some cs else None)"
| "var_bad _ = None"

fun bad_rest :: "u8 list \<Rightarrow> u8 list option" where
  "bad_rest [] = None"
| "bad_rest (c # cs) =
     (if \<not> valid_char c then None else if c = 0x56 then var_bad cs else if c = 0x46 then None else Some cs)"

definition unended :: "u8 list \<Rightarrow> bool" where
  "unended cs \<longleftrightarrow> 0x3B \<notin> set cs \<and> 0x7D \<notin> set cs"

definition left_open :: "u8 list option \<Rightarrow> bool" where
  "left_open r \<longleftrightarrow> (case r of None \<Rightarrow> False | Some cs \<Rightarrow> unended cs)"

function endless :: "u8 list \<Rightarrow> bool" where
  "endless cs = (left_open (bad_rest cs) \<or> (case one_decl cs of (ns, None) \<Rightarrow> False | (ns, Some r) \<Rightarrow> endless r))"
  by pat_completeness auto

termination
  by (relation "measure length") (simp_all add: one_decl_shorter [OF sym])

declare endless.simps [simp del]

lemma skip_unended: "unended cs \<Longrightarrow> skip_stmt cs = []"
  by (induction cs) (auto simp: unended_def)

lemma bad_rest_next: "bad_rest cs = Some r \<Longrightarrow> snd (one_decl cs) = Some (skip_stmt r)"
proof (cases cs)
  case (Cons c cs')
  moreover have "var_bad cs' = Some r \<Longrightarrow> snd (var_decl cs') = Some (skip_stmt r)" by (cases cs' rule: var_bad.cases) (auto split: if_splits)
  moreover assume "bad_rest cs = Some r"
  ultimately show ?thesis by (auto split: if_splits)
qed simp

lemma left_open_next: "left_open (bad_rest cs) \<Longrightarrow> snd (one_decl cs) = Some []"
  using bad_rest_next [of cs] skip_unended by (auto simp: left_open_def split: option.splits)

section \<open>Nodes in the array\<close>

definition node_for :: "yc \<Rightarrow> unode \<Rightarrow> AstNode \<Rightarrow> bool" where
  "node_for s n e \<longleftrightarrow> (case n of
       Decl c \<Rightarrow> sym_key s (Sym e) = Some (char_key c) \<and> Size e = 1 \<and> Kind e = AstKindUsr \<and> Xtra e = AstXtraDecl
     | Bad \<Rightarrow> Sym e = 0xC000 \<and> Size e = 1 \<and> Kind e = AstKindError)"

definition ast_ok :: "yc \<Rightarrow> unode list \<Rightarrow> bool" where
  "ast_ok s ns \<longleftrightarrow> length ns \<le> 2047 \<and> astNodeNext s = of_nat (2047 - length ns)
     \<and> (\<forall>j < length ns. node_for s (ns ! j) (AstNodes s (2047 - j)))"

text \<open>The flag says whether reading fails at the end of the input.\<close>

definition good :: "bool \<Rightarrow> yc \<Rightarrow> unode list \<Rightarrow> bool" where
  "good x s ns \<longleftrightarrow> ready s \<and> read_error s (inFD s) = x \<and> ast_ok s ns"

abbreviation (input) todo :: "yc \<Rightarrow> u8 list" where "todo s \<equiv> sig_chars False (inp s)"

lemma node_for_extends: "node_for s n e \<Longrightarrow> extends s s' \<Longrightarrow> node_for s' n e"
  by (auto simp: node_for_def extends_def split: unode.splits)

lemma ast_ok_extends:
  "ast_ok s ns \<Longrightarrow> extends s s' \<Longrightarrow> AstNodes s' = AstNodes s \<Longrightarrow> astNodeNext s' = astNodeNext s \<Longrightarrow> ast_ok s' ns"
  by (auto simp: ast_ok_def intro: node_for_extends)

lemma ready_cong:
  "sym_inv s' = sym_inv s \<Longrightarrow> sym_key s' = sym_key s \<Longrightarrow> pbt s' = pbt s \<Longrightarrow> input s' = input s \<Longrightarrow> inFD s' = inFD s \<Longrightarrow>
   read_error s' = read_error s \<Longrightarrow> ready s' = ready s"
  by (simp only: ready_def keyed_def end_token_def)

lemma good_quiet:
  assumes "good x s ns" "quiet s' = quiet s"
  shows "good x s' ns" "inp s' = inp s" "pbt s' = pbt s"
proof -
  have q: "inFD s' = inFD s" "read_error s' = read_error s" "AstNodes s' = AstNodes s" "astNodeNext s' = astNodeNext s"
    "pbt s' = pbt s" "input s' = input s"
    using quietD [OF assms(2)] by (simp_all add: core_of_def)
  have t: "sym_inv s' = sym_inv s" "sym_key s' = sym_key s" using quiet_tables [OF assms(2)] by simp_all
  show "inp s' = inp s" "pbt s' = pbt s" using q by simp_all
  have e: "extends s s'" by (simp add: extends_def t)
  have a: "ast_ok s ns" "ready s" "read_error s (inFD s) = x" using assms(1) by (simp_all add: good_def)
  have "ast_ok s' ns" by (rule ast_ok_extends [OF a(1) e q(3,4)])
  moreover have "ready s' = ready s" by (intro ready_cong q t)
  ultimately show "good x s' ns" using a(2,3) by (simp add: good_def q(1,2))
qed

lemma good_get:
  assumes "good x s ns"
  shows "\<exists>t s'. GetToken s = Inr (t, s') \<and> good x s' ns \<and> pbt s' = 0 \<and>
    (case todo s of [] \<Rightarrow> t = (if x then 0xC102 else TT_EOF) \<and> inp s' = []
     | b # bs \<Rightarrow> token_for s' b t \<and> todo s' = bs \<and> length (inp s') < length (inp s))"
proof -
  have r: "ready s" "read_error s (inFD s) = x" "ast_ok s ns" using assms by (simp_all add: good_def)
  then obtain t s' where t: "GetToken s = Inr (t, s')" "got s t s'" using GetToken_spec by blast
  have "ast_ok s' ns" using t(2) by (intro ast_ok_extends [OF r(3)]) (auto simp: got_def core_of_def)
  moreover have "ready s'" "read_error s' (inFD s') = x" "pbt s' = 0"
    using t(2) r by (auto simp: got_def ready_def core_of_def intro: keyed_extends)
  ultimately show ?thesis using t r(2) by (auto simp: good_def got_def end_token_def TT_EOF_def E_EOF_def split: list.splits)
qed

lemma unat_slot: "n \<le> 2047 \<Longrightarrow> unat (of_nat n :: u16) = n"
  by (simp add: unsigned_of_nat take_bit_nat_eq_self)

lemma good_alloc:
  assumes "good x s ns"
  shows "allocAstNode s = (if length ns \<le> 2046 then Inr (of_nat (2047 - length ns), s\<lparr>astNodeNext := of_nat (2046 - length ns)\<rparr>)
    else Inl (Failed ''out of AST nodes''))"
proof -
  have n: "length ns \<le> 2047" "astNodeNext s = of_nat (2047 - length ns)" using assms by (simp_all add: good_def ast_ok_def)
  have "unat (astNodeNext s) = 2047 - length ns" unfolding n(2) by (rule unat_slot) simp
  then have "1 \<le> astNodeNext s \<longleftrightarrow> length ns \<le> 2046" using n(1) by (auto simp: word_le_nat_alt)
  moreover have "of_nat (2047 - length ns) - 1 = (of_nat (2046 - length ns) :: u16)" if "length ns \<le> 2046"
    using that by (simp add: of_nat_diff)
  ultimately show ?thesis using n(2) by (simp add: allocAstNode_def Assert_def)
qed

lemma good_node:
  assumes "good x s ns" "length ns \<le> 2046" "node_for s n e"
  shows "\<exists>s'. ast_set (of_nat (2047 - length ns)) e (s\<lparr>astNodeNext := of_nat (2046 - length ns)\<rparr>) = Inr s'
    \<and> good x s' (ns @ [n]) \<and> inp s' = inp s \<and> pbt s' = pbt s"
proof -
  let ?i = "2047 - length ns"
  define s' where "s' = s\<lparr>astNodeNext := of_nat (2046 - length ns), AstNodes := (AstNodes s)(?i := e)\<rparr>"
  have a: "ast_set (of_nat ?i) e (s\<lparr>astNodeNext := of_nat (2046 - length ns)\<rparr>) = Inr s'"
    using assms(2) unat_slot [of ?i] by (simp add: ast_set_def AstMaxNode_def word_less_nat_alt s'_def)
  have k: "sym_inv s' = sym_inv s" "sym_key s' = sym_key s" using sym_inv_cong [of s' s] by (simp_all add: s'_def)
  have nf: "node_for s' m x = node_for s m x" for m x by (simp add: node_for_def k split: unode.split)
  have "ast_ok s' (ns @ [n])"
    using assms unfolding good_def ast_ok_def by (auto simp: nf nth_append less_Suc_eq) (auto simp: s'_def)
  moreover have r: "read_error s' = read_error s" "inFD s' = inFD s" "input s' = input s" "pbt s' = pbt s"
    by (simp_all add: s'_def)
  moreover have "ready s' = ready s" by (intro ready_cong k r)
  ultimately show ?thesis using a assms(1) by (auto simp: good_def)
qed

lemma good_make:
  assumes "good x s ns" "node_for s n \<lparr>Sym = sy, Size = sz, Kind = k, Xtra = xt\<rparr>"
  shows "if length ns \<le> 2046
    then \<exists>s'. MakeAstNode sy sz k xt s = Inr (of_nat (2047 - length ns), s') \<and> good x s' (ns @ [n]) \<and> inp s' = inp s \<and> pbt s' = pbt s
    else MakeAstNode sy sz k xt s = Inl (Failed ''out of AST nodes'')"
  using good_alloc [OF assms(1)] good_node [OF assms(1) _ assms(2)] by (auto simp: MakeAstNode_def)

section \<open>Resynchronisation\<close>

declare bindO_simps [simp]

lemma good_pushback:
  "good False s ns \<Longrightarrow> pbt s = 0 \<Longrightarrow> inp s = [] \<Longrightarrow>
   \<exists>s'. PushbackToken TT_EOF s = Inr s' \<and> good False s' ns \<and> inp s' = []"
  using sym_inv_cong [of "s\<lparr>pbt := 0xFFFF\<rparr>" s]
  by (auto simp: PushbackToken_def Assert_def TT_EOF_def E_EOF_def good_def ready_def keyed_def end_token_def ast_ok_def node_for_def
      split: unode.splits)

lemma token_ne_eof: "sym_inv s \<Longrightarrow> token_for s c t \<Longrightarrow> t \<noteq> TT_EOF"
  using token_forD(3) [of s c t] by (cases "valid_char c") (auto simp: TT_EOF_def E_EOF_def token_for_def)

text \<open>When reading fails and no semicolon or brace is left, \<open>resync\<close> goes on for ever.\<close>

definition stuck :: "yc \<Rightarrow> bool" where
  "stuck s \<longleftrightarrow> ready s \<and> read_error s (inFD s) \<and> unended (todo s)"

lemma stuck_step:
  assumes "stuck s"
  shows "\<exists>t s'. GetToken s = Inr (t, s') \<and> stuck s' \<and> t \<noteq> SEMI \<and> t \<noteq> BCLOSE \<and> t \<noteq> TT_EOF"
proof -
  obtain t s' where t: "GetToken s = Inr (t, s')" "got s t s'" using GetToken_spec [of s] assms by (auto simp: stuck_def)
  have r: "ready s'" "read_error s' (inFD s')" "inFD s' = inFD s"
    using t(2) assms by (auto simp: got_def ready_def stuck_def core_of_def intro: keyed_extends)
  show ?thesis
  proof (cases "todo s")
    case Nil
    then have "t = 0xC102" "inp s' = []" using t(2) assms by (auto simp: got_def end_token_def stuck_def)
    then show ?thesis using t(1) r by (auto simp: stuck_def unended_def TT_EOF_def E_EOF_def tok_defs)
  next
    case (Cons b bs)
    then have b: "token_for s' b t" "todo s' = bs" using t(2) by (auto simp: got_def)
    have "sym_inv s'" "keyed s'" using r(1) by (simp_all add: ready_def)
    then show ?thesis
      using key_tokens [OF _ _ b(1)] token_ne_eof [OF _ b(1)] assms t(1) r b(2) Cons by (auto simp: stuck_def unended_def)
  qed
qed

lemma stuck_resync: "stuck s \<Longrightarrow> resync_loop s = None"
proof (rule ccontr)
  assume "stuck s" "resync_loop s \<noteq> None"
  then obtain y where "resync_loop s = Some y" by auto
  then have "\<not> stuck s"
  proof (rule resync_loop.raw_induct [rotated])
    fix f :: "yc \<Rightarrow> (stop + (Token \<times> yc)) option" and s y
    assume h: "\<And>s y. f s = Some y \<Longrightarrow> \<not> stuck s"
      and b: "(case GetToken s of Inl e \<Rightarrow> Some (Inl e) | Inr r \<Rightarrow>
          if fst r \<noteq> SEMI \<and> fst r \<noteq> BCLOSE \<and> fst r \<noteq> TT_EOF then f (snd r) else Some (Inr r)) = Some y"
    show "\<not> stuck s"
    proof
      assume "stuck s"
      then obtain t s' where "GetToken s = Inr (t, s')" "stuck s'" "t \<noteq> SEMI" "t \<noteq> BCLOSE" "t \<noteq> TT_EOF" using stuck_step by blast
      then show False using h [of s' y] b by simp
    qed
  qed
  with \<open>stuck s\<close> show False by simp
qed

lemma good_stuck: "good True s ns \<Longrightarrow> unended (todo s) \<Longrightarrow> resync_loop s = None"
  by (rule stuck_resync) (simp add: stuck_def good_def)

lemma good_resync_loop:
  "good x s ns \<Longrightarrow> \<not> (x \<and> unended (todo s)) \<Longrightarrow>
   \<exists>t s'. resync_loop s = Some (Inr (t, s')) \<and> good x s' ns \<and> pbt s' = 0 \<and> todo s' = skip_stmt (todo s)
    \<and> (t = TT_EOF \<longrightarrow> inp s' = [] \<and> \<not> x)"
proof (induction "length (inp s)" arbitrary: s rule: less_induct)
  case less
  obtain t s1 where t: "GetToken s = Inr (t, s1)" "good x s1 ns" "pbt s1 = 0"
    "case todo s of [] \<Rightarrow> t = (if x then 0xC102 else TT_EOF) \<and> inp s1 = []
     | b # bs \<Rightarrow> token_for s1 b t \<and> todo s1 = bs \<and> length (inp s1) < length (inp s)"
    using good_get [OF less.prems(1)] by blast
  show ?case
  proof (cases "todo s")
    case Nil
    then have "\<not> x" using less.prems(2) by (simp add: unended_def)
    then show ?thesis using t Nil by (subst resync_loop.simps) auto
  next
    case (Cons b bs)
    then have b: "token_for s1 b t" "todo s1 = bs" "length (inp s1) < length (inp s)" using t(4) by simp_all
    have k: "sym_inv s1" "keyed s1" using t(2) by (simp_all add: good_def ready_def)
    have c: "t = SEMI \<longleftrightarrow> b = 0x3B" "t = BCLOSE \<longleftrightarrow> b = 0x7D" "t \<noteq> TT_EOF"
      using key_tokens [OF k b(1)] token_ne_eof [OF k(1) b(1)] by auto
    show ?thesis
    proof (cases "b = 0x3B \<or> b = 0x7D")
      case True
      then show ?thesis using t(1-3) b(2) c Cons by (subst resync_loop.simps) auto
    next
      case False
      then have "resync_loop s = resync_loop s1" using t(1) c by (subst resync_loop.simps) simp
      moreover have "\<not> (x \<and> unended (todo s1))" using less.prems(2) Cons b(2) False by (auto simp: unended_def)
      ultimately show ?thesis using less.hyps [OF b(3) t(2)] False Cons b(2) by auto
    qed
  qed
qed

lemma good_resync:
  assumes "good x s ns"
  shows "if x \<and> unended (todo s) then resync s = None
    else \<exists>s'. resync s = Some (Inr s') \<and> good x s' ns \<and> todo s' = skip_stmt (todo s)"
proof (cases "x \<and> unended (todo s)")
  case True
  then show ?thesis using good_stuck [of s ns] assms by (simp add: resync_def)
next
  case False
  obtain t s1 where 1: "resync_loop s = Some (Inr (t, s1))" "good x s1 ns" "pbt s1 = 0" "todo s1 = skip_stmt (todo s)"
    "t = TT_EOF \<longrightarrow> inp s1 = [] \<and> \<not> x" using good_resync_loop [OF assms False] by blast
  show ?thesis
  proof (cases "t = TT_EOF")
    case True
    then have x: "x = False" using 1(5) by simp
    then obtain s2 where 2: "PushbackToken TT_EOF s1 = Inr s2" "good x s2 ns" "inp s2 = []"
      using good_pushback [OF 1(2) [unfolded x] 1(3)] 1(5) True by auto
    then have "todo s2 = todo s1" using 1(5) True by simp
    then show ?thesis using 1 2 True False by (simp add: resync_def)
  qed (use 1 False in \<open>simp add: resync_def\<close>)
qed

lemma good_syntaxError:
  assumes "good x s ns"
  shows "if length ns \<le> 2046
    then if x \<and> unended (todo s) then syntaxError msg bad s = None
      else \<exists>s'. syntaxError msg bad s = Some (Inr (of_nat (2047 - length ns), s')) \<and> good x s' (ns @ [Bad]) \<and> todo s' = skip_stmt (todo s)
    else syntaxError msg bad s = Some (Inl (Failed ''out of AST nodes''))"
proof -
  obtain s1 where 1: "Printf ''; syntax error: line %x: expected %s but got %s%n''
      [AWord (LineNumber s), AText msg, AText (TokenToString bad)] s = Inr s1" "quiet s1 = quiet s"
    using Printf_total [of "''; syntax error: line %x: expected %s but got %s%n''"] by fastforce
  note g1 = good_quiet [OF assms 1(2)]
  let ?i = "of_nat (2047 - length ns) :: u16"
  show ?thesis
  proof (cases "length ns \<le> 2046")
    case True
    define s2 where "s2 = s1\<lparr>astNodeNext := of_nat (2046 - length ns)\<rparr>"
    have "?i < AstMaxNode" using unat_slot [of "2047 - length ns"] by (simp add: AstMaxNode_def word_less_nat_alt)
    then obtain e where e: "ast_get s2 ?i = Inr e" by (simp add: ast_get_def)
    have "node_for s1 Bad (e\<lparr>Sym := 0xC000, Size := 1, Kind := AstKindError\<rparr>)" by (simp add: node_for_def)
    from good_node [OF g1(1) True this] obtain s3 where
      3: "ast_set ?i (e\<lparr>Sym := 0xC000, Size := 1, Kind := AstKindError\<rparr>) s2 = Inr s3" "good x s3 (ns @ [Bad])" "inp s3 = inp s1"
      by (auto simp: s2_def)
    have "syntaxError msg bad s = bindO (resync s3) (\<lambda>s. Some (Inr (?i, s)))"
      using True 1(1) good_alloc [OF g1(1)] e 3(1) by (simp add: syntaxError_def s2_def)
    then show ?thesis using good_resync [OF 3(2)] True 3(3) g1(2) by (auto split: if_splits)
  next
    case False
    then show ?thesis using 1(1) good_alloc [OF g1(1)] by (simp add: syntaxError_def)
  qed
qed

section \<open>Declarations\<close>

abbreviation (input) no_room :: "stop" where "no_room \<equiv> Failed ''out of AST nodes''"

lemma slot_small: "(of_nat (2047 - n) :: u16) < 0xC000"
  using unat_slot [of "2047 - n"] by (simp add: word_less_nat_alt)

text \<open>What a parsing function does with the nodes \<open>ns\<close> in the array, when the reference parser gives \<open>d\<close>, the
  nodes it makes and the input it leaves, and the input behind a syntax error is \<open>b\<close>.\<close>

definition parses :: "bool \<Rightarrow> unode list \<Rightarrow> unode list \<times> u8 list option \<Rightarrow> u8 list option \<Rightarrow> (stop + (AstIndex \<times> yc)) option \<Rightarrow> bool" where
  "parses x ns d b res \<longleftrightarrow>
     (if length ns + length (fst d) \<le> 2047
      then if x \<and> left_open b then res = None
        else \<exists>r s'. res = Some (Inr (r, s')) \<and> good x s' (ns @ fst d) \<and>
             (case snd d of None \<Rightarrow> r \<ge> 0xC000 | Some cs \<Rightarrow> r < 0xC000 \<and> todo s' = cs)
      else res = Some (Inl no_room))"

lemma parses_error:
  "good x s ns \<Longrightarrow> t \<ge> 0xC000 \<Longrightarrow> parses x ns ([], None) None (Some (bindE (ErrorAsAstIndex (ATok t)) (\<lambda>e. Inr (e, s))))"
  by (auto simp: parses_def left_open_def ErrorAsAstIndex_def Assert_def ErrBase_def good_def ast_ok_def)

lemma parses_syntaxError:
  assumes "good x s ns" shows "parses x ns ([Bad], Some (skip_stmt (todo s))) (Some (todo s)) (syntaxError msg t s)"
  using good_syntaxError [OF assms, of msg t] slot_small [of "length ns"]
  by (cases "length ns \<le> 2046") (auto simp: parses_def left_open_def)

lemma parses_more:
  assumes "parses x (ns @ ms) d b res" shows "parses x ns (ms @ fst d, snd d) b res"
  using assms by (simp add: parses_def add.assoc cong: if_cong)

lemma no_tokens:
  assumes "good x s ns" "todo s = []"
  shows "\<exists>t s'. GetToken s = Inr (t, s') \<and> t \<ge> 0xC000 \<and> good x s' ns"
  using good_get [OF assms(1)] assms(2) by (auto simp: TT_EOF_def E_EOF_def)

lemma next_token:
  assumes "good x s ns" "todo s = b # bs"
  shows "\<exists>t s'. GetToken s = Inr (t, s') \<and> good x s' ns \<and> todo s' = bs \<and> (t \<ge> 0xC000 \<longleftrightarrow> \<not> valid_char b) \<and>
     (valid_char b \<longrightarrow> sym_key s' (TokenAsSymIndex t) = Some (char_key b)) \<and>
     (t = tok_V \<longleftrightarrow> b = 0x56) \<and> (t = tok_F \<longleftrightarrow> b = 0x46) \<and> (t = SEMI \<longleftrightarrow> b = 0x3B) \<and> (t = EQU \<longleftrightarrow> b = 0x3D)"
proof -
  obtain t s' where t: "GetToken s = Inr (t, s')" "good x s' ns" "token_for s' b t" "todo s' = bs" using good_get [OF assms(1)] assms(2) by auto
  then have k: "sym_inv s'" "keyed s'" by (simp_all add: good_def ready_def)
  have "t \<ge> 0xC000 \<longleftrightarrow> \<not> valid_char b"
    using token_forD(3) [OF k(1) t(3)] t(3) by (auto simp: token_for_def not_le [symmetric])
  then show ?thesis using t key_tokens [OF k t(3)] token_forD(1) [OF k(1) t(3)] by blast
qed

text \<open>The test \<open>IsUsrTok\<close> never fails.\<close>

lemma IsUsrTok_all: "IsUsrTok t"
  by (simp add: IsUsrTok_def TT_USR_def)

lemma parses_after_var:
  assumes "good x s ns" "todo s = t # cs" "r < 0xC000"
  shows "parses x ns (if \<not> valid_char t then ([], None) else if t = 0x3B \<or> t = 0x3D then ([], Some cs) else ([Bad], Some (skip_stmt cs)))
    (if valid_char t \<and> t \<noteq> 0x3B \<and> t \<noteq> 0x3D then Some cs else None) (bindO (Some (GetToken s)) (\<lambda>(t, s). bindO (Some (IsError (ATok t))) (\<lambda>err.
       if err then Some (bindE (ErrorAsAstIndex (ATok t)) (\<lambda>e. Inr (e, s)))
       else if t = SEMI then Some (Inr (r, s)) else if t = EQU then Some (assign s)
       else syntaxError ''semicolon or assignment'' t s)))"
proof -
  obtain u s' where u: "GetToken s = Inr (u, s')" "good x s' ns" "todo s' = cs" "u \<ge> 0xC000 \<longleftrightarrow> \<not> valid_char t"
    "u = SEMI \<longleftrightarrow> t = 0x3B" "u = EQU \<longleftrightarrow> t = 0x3D" using next_token [OF assms(1,2)] by blast
  have n: "length ns \<le> 2047" using assms(1) by (simp add: good_def ast_ok_def)
  show ?thesis
  proof (cases "valid_char t")
    case False
    then show ?thesis using u parses_error [OF u(2)] by simp
  next
    case True
    then show ?thesis using u parses_syntaxError [OF u(2)] n assms(3) by (auto simp: parses_def assign_def left_open_def)
  qed
qed

lemma parses_variable:
  assumes "good x s ns" shows "parses x ns (var_decl (todo s)) (var_bad (todo s)) (variable s)"
proof (cases "todo s")
  case Nil
  obtain t s' where t: "GetToken s = Inr (t, s')" "t \<ge> 0xC000" "good x s' ns" using no_tokens [OF assms Nil] by blast
  then show ?thesis using Nil parses_error [OF t(3,2)] by (simp add: variable_def)
next
  case (Cons v cs)
  obtain t s1 where t: "GetToken s = Inr (t, s1)" "good x s1 ns" "todo s1 = cs" "t \<ge> 0xC000 \<longleftrightarrow> \<not> valid_char v"
    "valid_char v \<longrightarrow> sym_key s1 (TokenAsSymIndex t) = Some (char_key v)" using next_token [OF assms Cons] by blast
  show ?thesis
  proof (cases "valid_char v")
    case False
    then show ?thesis using t parses_error [OF t(2)] Cons by (cases cs) (simp_all add: variable_def)
  next
    case True
    define make where "make = MakeAstNode (TokenAsSymIndex t) 1 AstKindUsr AstXtraDecl s1"
    define after where "after = (\<lambda>(decl, s). bindO (Some (GetToken s)) (\<lambda>(t, s). bindO (Some (IsError (ATok t))) (\<lambda>err.
       if err then Some (bindE (ErrorAsAstIndex (ATok t)) (\<lambda>e. Inr (e, s)))
       else if t = SEMI then Some (Inr (decl, s)) else if t = EQU then Some (assign s)
       else syntaxError ''semicolon or assignment'' t s)))"
    have v: "variable s = bindO (Some make) after"
      using t True by (simp add: variable_def IsUsrTok_all make_def after_def)
    have "node_for s1 (Decl v) \<lparr>Sym = TokenAsSymIndex t, Size = 1, Kind = AstKindUsr, Xtra = AstXtraDecl\<rparr>"
      using t(5) True by (simp add: node_for_def)
    note m = good_make [OF t(2) this, folded make_def]
    show ?thesis
    proof (cases "length ns \<le> 2046")
      case False
      then have "variable s = Some (Inl no_room)" using m v by simp
      moreover have "fst (var_decl (v # cs)) \<noteq> []" using True by (cases cs) auto
      ultimately show ?thesis using False t(2) Cons by (cases "fst (var_decl (v # cs))") (auto simp: parses_def)
    next
      case room: True
      then obtain s2 where s2: "make = Inr (of_nat (2047 - length ns), s2)" "good x s2 (ns @ [Decl v])" "inp s2 = inp s1" using m by auto
      show ?thesis
      proof (cases cs)
        case Nil
        then obtain u s3 where u: "GetToken s2 = Inr (u, s3)" "u \<ge> 0xC000" "good x s3 (ns @ [Decl v])" using no_tokens [OF s2(2)] s2(3) t(3) by auto
        then have "parses x (ns @ [Decl v]) ([], None) None (variable s)"
          using v s2 parses_error [OF u(3,2)] by (simp add: after_def)
        then show ?thesis using parses_more Cons Nil True by fastforce
      next
        case (Cons c cs')
        then have "todo s2 = c # cs'" using s2(3) t(3) by simp
        from parses_after_var [OF s2(2) this slot_small] have
          "parses x (ns @ [Decl v]) (if \<not> valid_char c then ([], None) else if c = 0x3B \<or> c = 0x3D then ([], Some cs') else ([Bad], Some (skip_stmt cs')))
             (if valid_char c \<and> c \<noteq> 0x3B \<and> c \<noteq> 0x3D then Some cs' else None) (variable s)"
          using v s2(1) by (simp add: after_def)
        then show ?thesis using parses_more \<open>todo s = v # cs\<close> Cons True by (fastforce split: if_splits)
      qed
    qed
  qed
qed

lemma parses_declaration:
  assumes "good x s ns" shows "parses x ns (one_decl (todo s)) (bad_rest (todo s)) (declaration_stmt s)"
proof (cases "todo s")
  case Nil
  obtain t s' where t: "GetToken s = Inr (t, s')" "t \<ge> 0xC000" "good x s' ns" using no_tokens [OF assms Nil] by blast
  then show ?thesis using Nil parses_error [OF t(3,2)] by (simp add: declaration_stmt_def)
next
  case (Cons c cs)
  obtain t s1 where t: "GetToken s = Inr (t, s1)" "good x s1 ns" "todo s1 = cs" "t \<ge> 0xC000 \<longleftrightarrow> \<not> valid_char c"
    "t = tok_V \<longleftrightarrow> c = 0x56" "t = tok_F \<longleftrightarrow> c = 0x46" using next_token [OF assms Cons] by blast
  have n: "length ns \<le> 2047" using assms by (simp add: good_def ast_ok_def)
  consider "\<not> valid_char c" | "valid_char c" "c = 0x56" | "valid_char c" "c \<noteq> 0x56" "c = 0x46" | "valid_char c" "c \<noteq> 0x56" "c \<noteq> 0x46" by blast
  then show ?thesis
  proof cases
    case 1
    then show ?thesis using t Cons parses_error [OF t(2)] by (simp add: declaration_stmt_def)
  next
    case 2
    then show ?thesis using t Cons parses_variable [OF t(2)] by (simp add: declaration_stmt_def)
  next
    case 3
    then show ?thesis using t Cons n by (simp add: declaration_stmt_def function_decl_def parses_def left_open_def)
  next
    case 4
    then show ?thesis using t Cons parses_syntaxError [OF t(2)] by (simp add: declaration_stmt_def)
  qed
qed

section \<open>Programs\<close>

lemma program_loop_spec:
  "good x s ns \<Longrightarrow>
   (if length ns + length (decls (todo s)) \<le> 2047
    then if x \<and> endless (todo s) then program_loop s = None
      else \<exists>s'. program_loop s = Some (Inr s') \<and> good x s' (ns @ decls (todo s))
    else program_loop s = Some (Inl no_room))"
proof (induction "length (todo s)" arbitrary: s ns rule: less_induct)
  case less
  obtain ms nx where o: "one_decl (todo s) = (ms, nx)" by (cases "one_decl (todo s)")
  let ?h = "x \<and> left_open (bad_rest (todo s))"
  have p: "parses x ns (ms, nx) (bad_rest (todo s)) (declaration_stmt s)" using parses_declaration [OF less.prems] o by simp
  consider (full) "\<not> length ns + length ms \<le> 2047" | (hang) "length ns + length ms \<le> 2047" ?h
    | (go) r s' where "length ns + length ms \<le> 2047" "\<not> ?h" "declaration_stmt s = Some (Inr (r, s'))" "good x s' (ns @ ms)"
        "case nx of None \<Rightarrow> r \<ge> 0xC000 | Some cs \<Rightarrow> r < 0xC000 \<and> todo s' = cs"
    using p by (auto simp: parses_def split: if_splits)
  then show ?case
  proof cases
    case full
    have "length ms \<le> length (decls (todo s))" by (subst decls.simps) (simp add: o split: option.split)
    then show ?thesis using full p by (subst program_loop.simps) (auto simp: parses_def program_loop.simps [of s])
  next
    case hang
    then have "nx = Some []" using left_open_next [of "todo s"] o by simp
    moreover have "decls [] = []" by (simp add: decls.simps [of "[]"])
    ultimately have "decls (todo s) = ms" by (subst decls.simps) (simp add: o)
    moreover have "endless (todo s)" using hang by (simp add: endless.simps [of "todo s"])
    moreover have "declaration_stmt s = None" using p hang by (auto simp: parses_def)
    ultimately show ?thesis using hang by (simp add: program_loop.simps [of s])
  next
    case go
    show ?thesis
    proof (cases nx)
      case None
      then have "decls (todo s) = ms" by (subst decls.simps) (simp add: o)
      moreover have "\<not> (x \<and> endless (todo s))" using go(2) None by (auto simp: endless.simps [of "todo s"] o)
      ultimately show ?thesis using go None by (simp add: program_loop.simps [of s])
    next
      case (Some cs)
      then have d: "decls (todo s) = ms @ decls cs" by (subst decls.simps) (simp add: o)
      have e: "x \<and> endless (todo s) \<longleftrightarrow> x \<and> endless cs" using go(2) Some by (auto simp: endless.simps [of "todo s"] o)
      have "length cs < length (todo s)" using one_decl_shorter o Some by blast
      then have i: "if length (ns @ ms) + length (decls (todo s')) \<le> 2047
        then if x \<and> endless (todo s') then program_loop s' = None
          else \<exists>s''. program_loop s' = Some (Inr s'') \<and> good x s'' ((ns @ ms) @ decls (todo s'))
        else program_loop s' = Some (Inl no_room)"
        using less.hyps [OF _ go(4)] go(5) Some by simp
      have "\<not> r \<ge> 0xC000" using go(5) Some by auto
      then have "program_loop s = program_loop s'" using go(3) by (simp add: program_loop.simps [of s])
      then show ?thesis using i go(5) Some d e by (simp add: add.assoc cong: if_cong)
    qed
  qed
qed

section \<open>The whole compiler\<close>

text \<open>The tree at \<open>a\<close>: the root for the nodes \<open>ns\<close>, which are stored downwards from the end of the array.\<close>

definition tree_at :: "yc \<Rightarrow> AstIndex \<Rightarrow> unode list \<Rightarrow> bool" where
  "tree_at s a ns \<longleftrightarrow> length ns \<le> 2046 \<and> unat a = 2047 - length ns
     \<and> AstNodes s (unat a) = \<lparr>Sym = 8, Size = of_nat (1 + length ns), Kind = 0, Xtra = 0\<rparr>
     \<and> (\<forall>j < length ns. node_for s (ns ! j) (AstNodes s (2047 - j)))"

lemma AllocatedSince_good:
  assumes "good x s ns" shows "AllocatedSince 2047 s = Inr (of_nat (length ns))"
proof -
  have n: "length ns \<le> 2047" "astNodeNext s = of_nat (2047 - length ns)" using assms by (simp_all add: good_def ast_ok_def)
  have "2047 - astNodeNext s = of_nat (length ns)" unfolding n(2) using n(1) by (simp add: of_nat_diff)
  moreover have "of_nat (length ns) < AstMaxNode" using unat_slot [OF n(1)] n(1) by (simp add: AstMaxNode_def word_less_nat_alt)
  ultimately show ?thesis by (simp add: AllocatedSince_def Assert_def)
qed

lemma root_node:
  assumes "good x s ns"
  shows "if length ns \<le> 2046
    then \<exists>a s'. MakeAstNode 8 (1 + of_nat (length ns)) 0 0 s = Inr (a, s') \<and> tree_at s' a ns \<and> sym_inv s' \<and> keyed s'
    else MakeAstNode 8 (1 + of_nat (length ns)) 0 0 s = Inl no_room"
proof (cases "length ns \<le> 2046")
  case True
  let ?a = "of_nat (2047 - length ns) :: u16" and ?e = "\<lparr>Sym = 8, Size = 1 + of_nat (length ns), Kind = 0, Xtra = 0\<rparr>"
  have u: "unat ?a = 2047 - length ns" by (rule unat_slot) simp
  define s' where "s' = s\<lparr>astNodeNext := of_nat (2046 - length ns), AstNodes := (AstNodes s)(2047 - length ns := ?e)\<rparr>"
  have m: "MakeAstNode 8 (1 + of_nat (length ns)) 0 0 s = Inr (?a, s')"
    using good_alloc [OF assms] True u by (simp add: MakeAstNode_def ast_set_def AstMaxNode_def word_less_nat_alt s'_def)
  have k: "sym_inv s' = sym_inv s" "sym_key s' = sym_key s" using sym_inv_cong [of s' s] by (simp_all add: s'_def)
  have "AstNodes s' (unat ?a) = ?e" unfolding u by (simp add: s'_def)
  moreover have "node_for s' (ns ! j) (AstNodes s' (2047 - j))" if "j < length ns" for j
  proof -
    have "2047 - j \<noteq> 2047 - length ns" using that True by linarith
    then have "AstNodes s' (2047 - j) = AstNodes s (2047 - j)" by (simp add: s'_def)
    moreover have "node_for s (ns ! j) (AstNodes s (2047 - j))" using assms that by (simp add: good_def ast_ok_def)
    ultimately show ?thesis by (simp only: node_for_def k)
  qed
  ultimately have "tree_at s' ?a ns" using True u by (simp add: tree_at_def)
  moreover have "sym_inv s'" "keyed s'" using assms by (simp_all add: good_def ready_def k keyed_def)
  ultimately show ?thesis using m True by auto
next
  case False
  then show ?thesis using good_alloc [OF assms] by (simp add: MakeAstNode_def)
qed

lemma Parse_spec:
  assumes "good x s []"
  shows "if x \<and> endless (todo s) \<and> length (decls (todo s)) \<le> 2047 then Parse s = None
    else if length (decls (todo s)) \<le> 2046
    then \<exists>a s'. Parse s = Some (Inr (a, s')) \<and> tree_at s' a (decls (todo s)) \<and> sym_inv s' \<and> keyed s'
    else Parse s = Some (Inl no_room)"
proof -
  have p: "Snapshot s = 2047" using assms by (simp add: Snapshot_def good_def ast_ok_def)
  have P: "TokenAsSymIndex tok_P = 8" by (simp add: TokenAsSymIndex_def tok_defs ErrBase_def)
  have "Parse s = bindO (program_loop s) (\<lambda>s. bindO (Some (AllocatedSince 2047 s)) (\<lambda>n. Some (MakeAstNode 8 (1 + n) 0 0 s)))"
    by (simp add: Parse_def program_def p P)
  then show ?thesis
    using program_loop_spec [OF assms] AllocatedSince_good root_node
    by (cases "length (decls (todo s)) \<le> 2047") (fastforce split: if_splits)+
qed

section \<open>Printing the tree\<close>

lemma PrintSym_total:
  assumes "sym_inv s" "n \<ge> 0xC000 \<or> sym_key s n \<noteq> None"
  shows "\<exists>s'. PrintSym n s = Inr s' \<and> quiet s' = quiet s"
proof (cases "n \<ge> 0xC000")
  case True
  then show ?thesis by (simp add: PrintSym_def) (rule Printf_total; simp)
next
  case False
  then obtain k where k: "sym_key s n = Some k" using assms(2) by auto
  then have i: "n AND NOT ErrBase = n"
    using token_index [of n 0] sym_key_bound [OF assms(1) k] by (simp add: TokenAsSymIndex_def)
  obtain s1 where 1: "Printf ''; SymIndex %x '' [ASym n] s = Inr s1" "quiet s1 = quiet s"
    using Printf_total [of "''; SymIndex %x ''"] by fastforce
  then obtain e where e: "symtab_get s1 n = Inr e" "Len e \<noteq> 0 \<longrightarrow> strtab_get s1 (Val e) = Inr (strtab s1 (unat (Val e)))"
    using entry_total [of s1 n] quiet_tables [OF 1(2)] assms(1) k by auto
  have "\<exists>s'. Printf ''num %x%n'' [AWord v] s1 = Inr s' \<and> quiet s' = quiet s1" for v by (rule Printf_total) simp
  moreover have "\<exists>s'. Printf ''sym %c%n'' [AByte b] s1 = Inr s' \<and> quiet s' = quiet s1" for b by (rule Printf_total) simp
  ultimately show ?thesis using False i 1 e by (auto simp: PrintSym_def)
qed

lemma main_loop_total:
  "sym_inv s \<Longrightarrow> \<forall>k. unat a \<le> k \<and> k < 2048 \<longrightarrow> Sym (AstNodes s k) \<ge> 0xC000 \<or> sym_key s (Sym (AstNodes s k)) \<noteq> None \<Longrightarrow>
   \<exists>s'. main_loop a s = Inr s' \<and> quiet s' = quiet s"
proof (induction "2048 - unat a" arbitrary: a s rule: less_induct)
  case less
  show ?case
  proof (cases "a < AstMaxNode")
    case False
    then show ?thesis by (simp add: main_loop.simps [of a])
  next
    case True
    then have a: "unat a < 2048" by (simp add: AstMaxNode_def word_less_nat_alt)
    obtain s1 where 1: "Printf ''AstNode %x Sym '' [AWord a] s = Inr s1" "quiet s1 = quiet s"
      using Printf_total [of "''AstNode %x Sym ''" "[AWord a]" s] by auto
    have n1: "AstNodes s1 = AstNodes s" using quietD [OF 1(2)] by (simp add: core_of_def)
    obtain s2 where 2: "PrintSym (Sym (AstNodes s1 (unat a))) s1 = Inr s2" "quiet s2 = quiet s1"
      using PrintSym_total [of s1 "Sym (AstNodes s1 (unat a))"] less.prems(1) less.prems(2) [rule_format, of "unat a"]
        quiet_tables [OF 1(2)] a n1 by auto
    have q: "quiet s2 = quiet s" using 1(2) 2(2) by simp
    have n2: "AstNodes s2 = AstNodes s" using quietD [OF q] by (simp add: core_of_def)
    have t2: "sym_inv s2 = sym_inv s" "sym_key s2 = sym_key s" using quiet_tables [OF q] by simp_all
    have u: "unat (a + 1) = unat a + 1" using a by (simp add: unat_word_ariths)
    have "\<exists>s'. main_loop (a + 1) s2 = Inr s' \<and> quiet s' = quiet s2"
      using a less.prems by (intro less.hyps) (simp_all add: u n2 t2)
    then show ?thesis using True 1(1) 2(1) q by (auto simp: main_loop.simps [of a] ast_get_def)
  qed
qed

lemma tree_printable:
  assumes "tree_at s a ns" "keyed s" "unat a \<le> k" "k < 2048"
  shows "Sym (AstNodes s k) \<ge> 0xC000 \<or> sym_key s (Sym (AstNodes s k)) \<noteq> None"
proof (cases "k = unat a")
  case True
  have "(0x50, tok_P) \<in> set lang_symbols" by (simp add: lang_symbols_def)
  moreover have "TokenAsSymIndex tok_P = 8" by (simp add: TokenAsSymIndex_def tok_defs ErrBase_def)
  ultimately have "sym_key s 8 = Some (Chr 0x50)" using assms(2) by (auto simp: keyed_def)
  moreover have "AstNodes s k = \<lparr>Sym = 8, Size = of_nat (1 + length ns), Kind = 0, Xtra = 0\<rparr>"
    using assms(1) unfolding True tree_at_def by blast
  ultimately show ?thesis by simp
next
  case False
  have "2047 - k < length ns" "2047 - (2047 - k) = k" using assms False by (auto simp: tree_at_def)
  then have "node_for s (ns ! (2047 - k)) (AstNodes s k)" using assms(1) by (auto simp: tree_at_def dest!: spec [of _ "2047 - k"])
  then show ?thesis by (auto simp: node_for_def split: unode.splits)
qed

lemma tree_quiet: "tree_at s a ns \<Longrightarrow> quiet s' = quiet s \<Longrightarrow> tree_at s' a ns"
proof -
  assume t: "tree_at s a ns" and q: "quiet s' = quiet s"
  have "AstNodes s' = AstNodes s" using quietD [OF q] by (simp add: core_of_def)
  moreover have "sym_key s' = sym_key s" using quiet_tables [OF q] by simp
  ultimately have "tree_at s' a ns = tree_at s a ns" by (simp only: tree_at_def node_for_def)
  with t show ?thesis by simp
qed

section \<open>From the start\<close>

lemma Init_ok:
  "\<exists>s. Init STDIN (yc_init i e w) = Inr s \<and> sym_inv s \<and> keyed s \<and> rest_of s = rest_of (yc_init i e w)"
  using SymInit_fresh [of "LexInit STDIN (yc_init i e w)"] by (auto simp: Init_def LexInit_def yc_init_def rest_of_def STDIN_def)

lemma Init_good:
  assumes "Init STDIN (yc_init i e w) = Inr s" "sym_inv s" "keyed s" "rest_of s = rest_of (yc_init i e w)"
  shows "good (e 0) s []" "todo s = sig_chars False (i 0)"
  using assms by (auto simp: good_def ready_def ast_ok_def rest_of_def yc_init_def AstMaxNode_def)

lemma compile_spec:
  fixes i e w
  defines "cs \<equiv> sig_chars False (i 0)"
  defines "ns \<equiv> decls cs"
  shows "if e 0 \<and> endless cs \<and> length ns \<le> 2047 then yc_main (yc_init i e w) = None
    else if length ns \<le> 2046
    then \<exists>s' a. yc_main (yc_init i e w) = Some (Inr s') \<and> tree_at s' a ns
    else yc_main (yc_init i e w) = Some (Inl no_room)"
proof -
  obtain s where s: "Init STDIN (yc_init i e w) = Inr s" "sym_inv s" "keyed s" "rest_of s = rest_of (yc_init i e w)" using Init_ok by blast
  note g = Init_good [OF s]
  have p: "if e 0 \<and> endless cs \<and> length ns \<le> 2047 then Parse s = None
    else if length ns \<le> 2046 then \<exists>a s'. Parse s = Some (Inr (a, s')) \<and> tree_at s' a ns \<and> sym_inv s' \<and> keyed s'
    else Parse s = Some (Inl no_room)" using Parse_spec [OF g(1)] unfolding g(2) ns_def cs_def .
  consider "e 0 \<and> endless cs \<and> length ns \<le> 2047" | "\<not> (e 0 \<and> endless cs \<and> length ns \<le> 2047)" "length ns \<le> 2046"
    | "\<not> (e 0 \<and> endless cs \<and> length ns \<le> 2047)" "\<not> length ns \<le> 2046" by blast
  then show ?thesis
  proof cases
    case 2
    then obtain a s1 where 1: "Parse s = Some (Inr (a, s1))" "tree_at s1 a ns" "sym_inv s1" "keyed s1" using p by (auto split: if_splits)
    then obtain s2 where "main_loop a s1 = Inr s2" "quiet s2 = quiet s1"
      using main_loop_total [OF 1(3)] tree_printable [OF 1(2,4)] by blast
    then show ?thesis using 2 s(1) 1 tree_quiet [OF 1(2)] by (auto simp: yc_main_def)
  qed (use p s(1) in \<open>simp_all add: yc_main_def split: if_splits\<close>)
qed

end
