(* ===== verification/Compiler.thy ===== *)
theory Compiler
  imports Yapl_Tree
begin

text \<open>
  The properties of the YAPL-1 compiler (\<open>yapl-1/\<close>).
\<close>

section \<open>Reading many tokens\<close>

fun read_tokens :: "nat \<Rightarrow> yc \<Rightarrow> stop + (Token list \<times> yc)" where
  "read_tokens 0 s = Inr ([], s)"
| "read_tokens (Suc n) s = bindE (GetToken s) (\<lambda>(t, s). bindE (read_tokens n s) (\<lambda>(ts, s). Inr (t # ts, s)))"

lemma read_tokens_spec:
  "ready s \<Longrightarrow> n \<le> length (todo s) \<Longrightarrow>
   \<exists>ts s'. read_tokens n s = Inr (ts, s') \<and> ready s' \<and> extends s s' \<and> length ts = n
     \<and> list_all2 (token_for s') (take n (todo s)) ts \<and> todo s' = drop n (todo s)"
proof (induction n arbitrary: s)
  case 0
  then show ?case by (simp add: extends_def)
next
  case (Suc n)
  obtain b bs where b: "todo s = b # bs" using Suc.prems(2) by (cases "todo s") auto
  obtain t s1 where t: "GetToken s = Inr (t, s1)" "got s t s1" using GetToken_spec [OF Suc.prems(1)] by blast
  have 1: "ready s1" "token_for s1 b t" "todo s1 = bs" "extends s s1"
    using t(2) b Suc.prems(1) by (auto simp: got_def ready_def intro: keyed_extends)
  obtain ts s2 where 2: "read_tokens n s1 = Inr (ts, s2)" "ready s2" "extends s1 s2" "length ts = n"
    "list_all2 (token_for s2) (take n bs) ts" "todo s2 = drop n bs" using Suc.IH [OF 1(1)] 1(3) b Suc.prems(2) by auto
  then show ?case using t(1) 1 b token_for_extends [OF 1(2) 2(3)] extends_trans [OF 1(4) 2(3)] by auto
qed

lemma start_ready:
  "\<exists>s. Init STDIN (yc_init i e w) = Inr s \<and> ready s \<and> todo s = sig_chars False (i 0)"
proof -
  obtain s where "Init STDIN (yc_init i e w) = Inr s" "sym_inv s" "keyed s" "rest_of s = rest_of (yc_init i e w)" using Init_ok by blast
  then show ?thesis by (intro exI [of _ s]) (auto simp: ready_def rest_of_def yc_init_def)
qed

lemma tokens_ends:
  assumes "ready s" "todo s = []"
  shows "\<exists>s'. GetToken s = Inr (end_token s, s')"
  using GetToken_spec [OF assms(1)] assms(2) by (auto simp: got_def)

text \<open>The class of a token and what its index refers to.\<close>

definition well_typed :: "yc \<Rightarrow> Token \<Rightarrow> bool" where
  "well_typed s t \<longleftrightarrow>
     (let e = symtab s (unat (TokenAsSymIndex t)) in
      if t \<ge> ErrBase then IsErrTok t
      else TokenAsSymIndex t < symtabNext s \<and>
        (t AND TT_TYPE = TT_NUM \<and> Len e = 0 \<or> (t AND TT_TYPE = TT_KEY \<or> t AND TT_TYPE = TT_USR) \<and> Len e = 1 \<and> Val e < strtabNext s))"

lemma tag_type:
  assumes "unat i < 0x4000" "tag = 0 \<or> tag = 0x4000 \<or> tag = (0x8000 :: u16)"
  shows "(tag OR i) AND TT_TYPE = tag"
proof -
  have i: "i AND TT_TYPE = 0"
  proof -
    have "take_bit 14 i = i" using assms(1) by (simp add: word_unat_eq_iff unsigned_take_bit_eq take_bit_nat_eq_self)
    moreover have "TT_TYPE = NOT (mask 14)" by (simp add: TT_TYPE_def mask_eq_exp_minus_1)
    ultimately show ?thesis by (metis and.right_idem bit.conj_cancel_right take_bit_eq_mask and.assoc and_zero_eq zero_and_eq)
  qed
  have "(tag OR i) AND TT_TYPE = (tag AND TT_TYPE) OR (i AND TT_TYPE)" by (rule bit.conj_disj_distrib2)
  also have "tag AND TT_TYPE = tag" using assms(2) by (auto simp: TT_TYPE_def)
  finally show ?thesis by (simp only: i or.right_neutral)
qed

lemma token_well_typed:
  assumes "sym_inv s" "token_for s c t" shows "well_typed s t"
proof (cases "valid_char c")
  case False
  then have "t = 0xC101" using assms(2) by (simp add: token_for_def)
  then show ?thesis using end_token_err(2) by (simp add: well_typed_def ErrBase_def)
next
  case True
  note d = token_forD [OF assms True]
  let ?i = "TokenAsSymIndex t" let ?e = "symtab s (unat ?i)"
  have tag: "char_tag c = 0 \<or> char_tag c = 0x4000 \<or> char_tag c = 0x8000" by (simp add: char_tag_def)
  have "unat ?i < 0x4000" using sym_key_bound [OF assms(1) d(1)] by simp
  from tag_type [OF this tag] have ty: "t AND TT_TYPE = char_tag c" using d(2) by simp
  have i: "?i < symtabNext s" "key_at s (unat ?i) = char_key c" using d(1) by (auto simp: sym_key_def split: if_splits)
  then have "Len ?e = 0 \<or> Len ?e = 1 \<and> unat (Val ?e) < nstr s"
    using sym_invD [OF assms(1), of "unat ?i"] by (auto simp: nsym_def word_less_nat_alt)
  moreover have "Len ?e = 0 \<longleftrightarrow> is_digit c" using i(2) by (auto simp: key_at_def char_key_def Let_def split: if_splits)
  moreover have "\<not> ErrBase \<le> t" using d(3) by (auto simp: ErrBase_def)
  ultimately show ?thesis
    using i(1) ty by (auto simp: well_typed_def Let_def char_tag_def tok_defs nstr_def word_less_nat_alt)
qed

lemmas char_defs = valid_char_def is_digit_def is_user_def is_lang_def isDigit_def isLowerLetter_def isUpperLetter_def isPunctuation_def

lemma decls_step:
  "one_decl cs = (ns, None) \<Longrightarrow> decls cs = ns" "one_decl cs = (ns, Some r) \<Longrightarrow> decls cs = ns @ decls r"
  by (simp_all add: decls.simps [of cs])

lemma list_all2_right: "list_all2 P xs ys \<Longrightarrow> y \<in> set ys \<Longrightarrow> \<exists>x. P x y"
  by (induction rule: list_all2_induct) auto

lemma decls_empty: "decls [] = []"
  by (simp add: decls.simps [of "[]"])

text \<open>(C24) For every input, the compiler builds the tree that the reference parser gives for
  the significant characters, with every declaration referring to its interned symbol, and returns; when the
  program needs more nodes than the array has, it stops with the assertion about them and in no other way.\<close>

theorem yapl_compiles:
  assumes "\<not> e 0"
  shows "let ns = decls (sig_chars False (i 0)) in
    if length ns \<le> 2046
    then \<exists>s' a. yc_main (yc_init i e w) = Some (Inr s') \<and> tree_at s' a ns
    else yc_main (yc_init i e w) = Some (Inl (Failed ''out of AST nodes''))"
  using compile_spec [of e i w] assms by (simp add: Let_def)

theorem yapl_compiles_witness:
  "\<exists>s' a. yc_main (yc_init (\<lambda>_. [0x56, 0x20, 0x72, 0x3B, 0x23, 0x56, 0x0A, 0x2B, 0x7D]) (\<lambda>_. False) (Some 1)) = Some (Inr s')
     \<and> tree_at s' a [Decl 0x72, Bad]"
  using yapl_compiles [of "\<lambda>_. False" "\<lambda>_. [0x56, 0x20, 0x72, 0x3B, 0x23, 0x56, 0x0A, 0x2B, 0x7D]" "Some 1"]
  by (simp add: decls_step decls_empty char_defs)

lemma endless_step:
  "one_decl cs = (ns, None) \<Longrightarrow> endless cs = left_open (bad_rest cs)"
  "one_decl cs = (ns, Some r) \<Longrightarrow> endless cs = (left_open (bad_rest cs) \<or> endless r)"
  by (simp_all add: endless.simps [of cs])

text \<open>(C26) When reading fails at the end of the input instead, the compiler looks for a semicolon or brace for
  ever exactly when some declaration of the program has a syntax error behind which neither
  follows and there is a node left for it; otherwise it does what it does for an input that ends.\<close>

theorem yapl_read_error_diverges:
  assumes "e 0"
  shows "let cs = sig_chars False (i 0); ns = decls cs in
    if endless cs \<and> length ns \<le> 2047 then yc_main (yc_init i e w) = None
    else if length ns \<le> 2046 then \<exists>s' a. yc_main (yc_init i e w) = Some (Inr s') \<and> tree_at s' a ns
    else yc_main (yc_init i e w) = Some (Inl (Failed ''out of AST nodes''))"
  using compile_spec [of e i w] assms by (simp add: Let_def)

theorem yapl_read_error_diverges_witness:
  "yc_main (yc_init (\<lambda>_. [0x56, 0x72, 0x3B, 0x20, 0x61]) (\<lambda>_. True) (Some 1)) = None"
proof -
  have "endless [0x56, 0x72, 0x3B, 0x61]" "decls [0x56, 0x72, 0x3B, 0x61] = [Decl 0x72, Bad]"
    by (simp_all add: endless_step decls_step decls_empty char_defs left_open_def unended_def)
  then show ?thesis
    using yapl_read_error_diverges [of "\<lambda>_. True" "\<lambda>_. [0x56, 0x72, 0x3B, 0x20, 0x61]" "Some 1"] by simp
qed

text \<open>(C27) The tokens of a program stand for its significant characters one by one: a character that is
  not valid has the token of the lexer's error, and two other characters have the same token exactly
  when they are equal.\<close>

theorem yapl_tokens_are_characters:
  assumes "Init STDIN (yc_init i e w) = Inr s" "n \<le> length (sig_chars False (i 0))"
  shows "\<exists>ts s'. read_tokens n s = Inr (ts, s') \<and> length ts = n
    \<and> (\<forall>j < n. \<not> valid_char (sig_chars False (i 0) ! j) \<longrightarrow> ts ! j = ERR_LEX_INVAL)
    \<and> (\<forall>j < n. \<forall>k < n. valid_char (sig_chars False (i 0) ! j) \<longrightarrow>
         (ts ! j = ts ! k \<longleftrightarrow> sig_chars False (i 0) ! j = sig_chars False (i 0) ! k))"
proof -
  let ?cs = "sig_chars False (i 0)"
  have s: "ready s" "todo s = ?cs" using start_ready [of i e w] assms(1) by auto
  then obtain ts s' where t: "read_tokens n s = Inr (ts, s')" "ready s'" "length ts = n" "list_all2 (token_for s') (take n ?cs) ts"
    using read_tokens_spec [of s n] assms(2) by auto
  have f: "token_for s' (?cs ! j) (ts ! j)" if "j < n" for j
    using list_all2_nthD [OF t(4), of j] that assms(2) by simp
  have "sym_inv s'" using t(2) by (simp add: ready_def)
  then have "ts ! j = ts ! k \<longleftrightarrow> ?cs ! j = ?cs ! k" if "j < n" "k < n" "valid_char (?cs ! j)" for j k
    using token_unique [OF _ f [OF that(1)] f [OF that(2)] that(3)] by blast
  moreover have "ts ! j = ERR_LEX_INVAL" if "j < n" "\<not> valid_char (?cs ! j)" for j
    using f [OF that(1)] that(2) by (simp add: token_for_def err_defs)
  ultimately show ?thesis using t(1,3) by blast
qed

theorem yapl_tokens_are_characters_witness:
  "\<exists>s ts s'. Init STDIN (yc_init (\<lambda>_. [0x61, 0x20, 0x62, 0x61, 0x40]) (\<lambda>_. False) None) = Inr s \<and> read_tokens 4 s = Inr (ts, s')
    \<and> ts ! 0 = ts ! 2 \<and> ts ! 0 \<noteq> ts ! 1 \<and> ts ! 3 = ERR_LEX_INVAL"
proof -
  let ?i = "\<lambda>_ :: u16. [0x61, 0x20, 0x62, 0x61, 0x40] :: u8 list"
  obtain s where s: "Init STDIN (yc_init ?i (\<lambda>_. False) None) = Inr s" using start_ready by blast
  have c: "sig_chars False (?i 0) = [0x61, 0x62, 0x61, 0x40]" by simp
  obtain ts s' where t: "read_tokens 4 s = Inr (ts, s')"
    "\<forall>j < 4. \<not> valid_char ([0x61, 0x62, 0x61, 0x40] ! j) \<longrightarrow> ts ! j = ERR_LEX_INVAL"
    "\<forall>j < 4. \<forall>k < 4. valid_char ([0x61, 0x62, 0x61, 0x40] ! j) \<longrightarrow>
       (ts ! j = ts ! k \<longleftrightarrow> [0x61, 0x62, 0x61, 0x40] ! j = ([0x61, 0x62, 0x61, 0x40] :: u8 list) ! k)"
    using yapl_tokens_are_characters [OF s, of 4] unfolding c by auto
  have "ts ! 3 = ERR_LEX_INVAL" using t(2) [rule_format, of 3] by (simp add: char_defs)
  moreover have "ts ! 0 = ts ! 2" "ts ! 0 \<noteq> ts ! 1"
    using t(3) [rule_format, of 0 2] t(3) [rule_format, of 0 1] by (simp_all add: char_defs)
  ultimately show ?thesis using s t(1) by blast
qed

text \<open>(C28) Every token the lexer returns is well typed: its class agrees with the symbol table entry it
  refers to, which is in the used part of the table, and a string entry lies in the used part
  of the string table.\<close>

theorem yapl_tokens_well_typed:
  assumes "Init STDIN (yc_init i e w) = Inr s" "n \<le> length (sig_chars False (i 0))" "read_tokens n s = Inr (ts, s')" "t \<in> set ts"
  shows "well_typed s' t"
proof -
  have s: "ready s" "todo s = sig_chars False (i 0)" using start_ready [of i e w] assms(1) by auto
  then have "sym_inv s'" "list_all2 (token_for s') (take n (todo s)) ts"
    using read_tokens_spec [of s n] assms(2,3) by (auto simp: ready_def)
  then show ?thesis using list_all2_right [OF _ assms(4)] token_well_typed by blast
qed

theorem yapl_tokens_well_typed_witness:
  "\<exists>s ts s'. Init STDIN (yc_init (\<lambda>_. [0x37]) (\<lambda>_. False) None) = Inr s \<and> read_tokens 1 s = Inr (ts, s') \<and> ts \<noteq> [] \<and> well_typed s' (hd ts)"
proof -
  let ?i = "\<lambda>_ :: u16. [0x37] :: u8 list"
  obtain s where s: "Init STDIN (yc_init ?i (\<lambda>_. False) None) = Inr s" "ready s" "todo s = sig_chars False (?i 0)" using start_ready by blast
  then obtain ts s' where "read_tokens 1 s = Inr (ts, s')" "length ts = 1" using read_tokens_spec [of s 1] by auto
  then show ?thesis using yapl_tokens_well_typed [OF s(1), of 1 ts s' "hd ts"] s(1) by (cases ts) auto
qed

text \<open>(C29) Interning keeps the tables small: whatever is read, at most 266 entries and 257 bytes are in
  use, so neither table is ever full and the errors for a full table are never returned.\<close>

theorem yapl_tables_never_full:
  assumes "Init STDIN (yc_init i e w) = Inr s" "n \<le> length (sig_chars False (i 0))" "read_tokens n s = Inr (ts, s')"
  shows "unat (symtabNext s') \<le> 266 \<and> unat (strtabNext s') \<le> 257 \<and> ERR_INT_NOSYM \<notin> set ts \<and> ERR_INT_NOSTR \<notin> set ts"
proof -
  have s: "ready s" "todo s = sig_chars False (i 0)" using start_ready [of i e w] assms(1) by auto
  then have r: "sym_inv s'" "list_all2 (token_for s') (take n (todo s)) ts"
    using read_tokens_spec [of s n] assms(2,3) by (auto simp: ready_def)
  have "t < 0xC000 \<or> t = 0xC101" if "t \<in> set ts" for t
    using list_all2_right [OF r(2) that] token_forD(3) [OF r(1)] by (auto simp: token_for_def split: if_splits)
  then show ?thesis using nsym_bound [OF r(1)] nstr_bound [OF r(1)] by (fastforce simp: nsym_def nstr_def err_defs)
qed

theorem yapl_tables_never_full_witness:
  "\<exists>s ts s'. Init STDIN (yc_init (\<lambda>_. [0x7A]) (\<lambda>_. False) None) = Inr s \<and> read_tokens 1 s = Inr (ts, s') \<and> unat (symtabNext s') \<le> 266"
proof -
  let ?i = "\<lambda>_ :: u16. [0x7A] :: u8 list"
  obtain s where s: "Init STDIN (yc_init ?i (\<lambda>_. False) None) = Inr s" "ready s" "todo s = sig_chars False (?i 0)" using start_ready by blast
  then obtain ts s' where "read_tokens 1 s = Inr (ts, s')" using read_tokens_spec [of s 1] by auto
  then show ?thesis using yapl_tables_never_full [OF s(1), of 1 ts s'] s(1) by auto
qed

text \<open>(C30) The symbol table is an interner: entering any sequence of characters and digits succeeds,
  and two of them get the same index exactly when they are the same symbol.\<close>

theorem yapl_symbols_are_interned:
  assumes "Init STDIN (yc_init i e w) = Inr s" "list_all small ks"
  shows "\<exists>ixs s'. enter_all intern ks s = Inr (ixs, s') \<and> length ixs = length ks
    \<and> (\<forall>a < length ks. \<forall>b < length ks. ixs ! a = ixs ! b \<longleftrightarrow> ks ! a = ks ! b)"
proof -
  have "sym_inv s" using start_ready [of i e w] assms(1) by (auto simp: ready_def)
  moreover from this obtain ixs s' where "enter_all intern ks s = Inr (ixs, s')" using symbols.enter_all_total assms(2) by blast
  ultimately show ?thesis using symbols.enter_all_index [OF _ assms(2)] by blast
qed

theorem yapl_symbols_are_interned_witness:
  "\<exists>s ixs s'. Init STDIN (yc_init (\<lambda>_. []) (\<lambda>_. False) None) = Inr s \<and> enter_all intern [Chr 0x61, Num 7, Chr 0x61] s = Inr (ixs, s')
     \<and> ixs ! 0 = ixs ! 2 \<and> ixs ! 0 \<noteq> ixs ! 1"
proof -
  obtain s where s: "Init STDIN (yc_init (\<lambda>_. []) (\<lambda>_. False) None) = Inr s" using start_ready by blast
  obtain ixs s' where i: "enter_all intern [Chr 0x61, Num 7, Chr 0x61] s = Inr (ixs, s')"
    "\<forall>a < 3. \<forall>b < 3. ixs ! a = ixs ! b \<longleftrightarrow> [Chr 0x61, Num 7, Chr 0x61] ! a = [Chr 0x61, Num 7, Chr 0x61] ! b"
    using yapl_symbols_are_interned [OF s, of "[Chr 0x61, Num 7, Chr 0x61]"] by auto
  then have "ixs ! 0 = ixs ! 2" "ixs ! 0 \<noteq> ixs ! 1" using i(2) [rule_format, of 0 2] i(2) [rule_format, of 0 1] by simp_all
  then show ?thesis using s i(1) by blast
qed



end
