(* ===== verification/Asm_Lexer.thy ===== *)
theory Asm_Lexer
  imports Prelude "HOL-Library.Char_ord"
begin

text \<open>
  The lexer of the first assembler (\<open>SAVE/asm/lexer.go\<close>) and the byte reader with pushback below it
  (\<open>SAVE/asm/pbr.go\<close>). A byte is a character; what a source gives after its last byte, the end of the
  file or a read error, is part of the reader.
\<close>

section \<open>The reader\<close>

record PBR =
  br :: string
  br_err :: "string option"
  pb :: char

datatype read_result = Byte char | EndOfFile | ReadError string

abbreviation (input) nul :: char where "nul \<equiv> CHR 0x00"

definition NewFilePushbackByteReader :: "(string \<Rightarrow> string + (string \<times> string option)) \<Rightarrow> string \<Rightarrow> string + PBR" where
  "NewFilePushbackByteReader open_file path =
     (case open_file path of Inl err \<Rightarrow> Inl err | Inr (body, err) \<Rightarrow> Inr \<lparr>br = body, br_err = err, pb = nul\<rparr>)"

definition NewStringPushbackByteReader :: "string \<Rightarrow> string + PBR" where
  "NewStringPushbackByteReader body = Inr \<lparr>br = body, br_err = None, pb = nul\<rparr>"

definition ReadByte :: "PBR \<Rightarrow> read_result \<times> PBR" where
  "ReadByte p =
     (if pb p \<noteq> nul then (Byte (pb p), p\<lparr>pb := nul\<rparr>)
      else case br p of
        [] \<Rightarrow> (case br_err p of None \<Rightarrow> EndOfFile | Some err \<Rightarrow> ReadError err, p)
      | b # bs \<Rightarrow> (Byte b, p\<lparr>br := bs\<rparr>))"

text \<open>Neither a \<open>bufio.Reader\<close> nor a \<open>strings.Reader\<close> is a \<open>Closer\<close>.\<close>

definition ClosePBR :: "PBR \<Rightarrow> string option" where
  "ClosePBR p = None"

definition UnreadByte :: "char \<Rightarrow> PBR \<Rightarrow> panic + PBR" where
  "UnreadByte b p =
     (if \<not> b \<noteq> nul then Inl (AssertionFailure ''PushbackByteReader: cannot pushback nul'')
      else if \<not> pb p = nul then Inl (AssertionFailure ''PushbackByteReader: too many pushbacks'')
      else Inr (p\<lparr>pb := b\<rparr>))"

section \<open>Tokens\<close>

abbreviation (input) SP :: char where "SP \<equiv> CHR '' ''"
abbreviation (input) TAB :: char where "TAB \<equiv> CHR 0x09"
abbreviation (input) NL :: char where "NL \<equiv> CHR 0x0A"
abbreviation (input) COMMA :: char where "COMMA \<equiv> CHR '',''"
abbreviation (input) COLON :: char where "COLON \<equiv> CHR '':''"
abbreviation (input) NEG :: char where "NEG \<equiv> CHR ''-''"
abbreviation (input) COMMENT :: char where "COMMENT \<equiv> CHR ''#''"
abbreviation (input) QUOTE :: char where "QUOTE \<equiv> CHR 0x22"

datatype lexerStateType = stBetween | stInError | stInSymbol | stInString | stInNumber | stInOperator | stInComment | stEnd

datatype TokenKindType = TkError | TkNewline | TkSymbol | TkLabel | TkString | TkNumber | TkOperator | TkEOF

fun kindToString :: "TokenKindType \<Rightarrow> string" where
  "kindToString TkError = ''TkError''" | "kindToString TkNewline = ''TkNewline''" | "kindToString TkSymbol = ''TkSymbol''"
| "kindToString TkLabel = ''TkLabel''" | "kindToString TkString = ''TkString''" | "kindToString TkNumber = ''TkNumber''"
| "kindToString TkOperator = ''TkOperator''" | "kindToString TkEOF = ''TkEOF''"

datatype Token = Tok (Text: string) (Kind: TokenKindType)

definition TokenString :: "Token \<Rightarrow> string" where
  "TokenString t =
     (let s = (if Text t = [NL] then [CHR 0x5C, CHR ''n''] else Text t)
      in ''{'' @ kindToString (Kind t) @ '' '' @ s @ ''}'')"

definition eofToken :: Token where "eofToken = Tok ''EOF'' TkEOF"
definition nlToken :: Token where "nlToken = Tok [NL] TkNewline"

section \<open>Character classes\<close>

definition isWhiteSpaceChar :: "char \<Rightarrow> bool" where "isWhiteSpaceChar b \<longleftrightarrow> b = SP \<or> b = TAB \<or> b = NL"
definition isDigitChar :: "char \<Rightarrow> bool" where "isDigitChar b \<longleftrightarrow> b \<ge> CHR ''0'' \<and> b \<le> CHR ''9''"
definition isHexLetter :: "char \<Rightarrow> bool" where
  "isHexLetter b \<longleftrightarrow> b \<ge> CHR ''A'' \<and> b \<le> CHR ''F'' \<or> b \<ge> CHR ''a'' \<and> b \<le> CHR ''f''"
definition isX :: "char \<Rightarrow> bool" where "isX b \<longleftrightarrow> b = CHR ''x'' \<or> b = CHR ''X''"
definition isQuoteChar :: "char \<Rightarrow> bool" where "isQuoteChar b \<longleftrightarrow> b = QUOTE"
definition isOperatorChar :: "char \<Rightarrow> bool" where "isOperatorChar b \<longleftrightarrow> b = COMMA \<or> b = COLON \<or> b = NEG"
definition isInitialSymbolChar :: "char \<Rightarrow> bool" where
  "isInitialSymbolChar b \<longleftrightarrow> b \<ge> CHR ''a'' \<and> b \<le> CHR ''z'' \<or> (b = CHR ''.'' \<or> b = CHR ''_'') \<or> b \<ge> CHR ''A'' \<and> b \<le> CHR ''Z''"
definition isSymbolChar :: "char \<Rightarrow> bool" where
  "isSymbolChar b \<longleftrightarrow> b \<ge> CHR ''a'' \<and> b \<le> CHR ''z'' \<or> b \<ge> CHR ''0'' \<and> b \<le> CHR ''9'' \<or> b = CHR ''_'' \<or> b \<ge> CHR ''A'' \<and> b \<le> CHR ''Z''"

text \<open>The loop of \<open>validNumber\<close> over the bytes behind the prefix.\<close>

fun digits_ok :: "bool \<Rightarrow> string \<Rightarrow> bool" where
  "digits_ok isHex [] = True"
| "digits_ok isHex (c # cs) = (if isDigitChar c then digits_ok isHex cs else if isHex \<and> isHexLetter c then digits_ok isHex cs else False)"

definition validNumber :: "string \<Rightarrow> bool" where
  "validNumber num =
     (if length num > 2 \<and> num ! 0 = CHR ''0'' \<and> isX (num ! 1) then digits_ok True (drop 2 num) else digits_ok False num)"

section \<open>The lexer\<close>

record Lexer =
  reader :: PBR
  lexerState :: lexerStateType
  path :: string
  pbToken :: "Token option"

definition MakeFileLexer :: "(string \<Rightarrow> string + (string \<times> string option)) \<Rightarrow> string \<Rightarrow> string + Lexer" where
  "MakeFileLexer open_file p =
     (case NewFilePushbackByteReader open_file p of
        Inl err \<Rightarrow> Inl err
      | Inr pbr \<Rightarrow> Inr \<lparr>reader = pbr, lexerState = stBetween, path = p, pbToken = None\<rparr>)"

definition MakeStringLexer :: "string \<Rightarrow> string \<Rightarrow> string + Lexer" where
  "MakeStringLexer ident body =
     (case NewStringPushbackByteReader body of
        Inl err \<Rightarrow> Inl err
      | Inr pbr \<Rightarrow> Inr \<lparr>reader = pbr, lexerState = stBetween, path = ident, pbToken = None\<rparr>)"

text \<open>The verb \<open>%02x\<close> for a byte.\<close>

definition fmt_02x :: "char \<Rightarrow> string" where
  "fmt_02x b = map (\<lambda>d. ''0123456789abcdef'' ! d) [of_char b div 16, of_char b mod 16]"

definition unexpected :: "char \<Rightarrow> string \<Rightarrow> string" where
  "unexpected b wher = ''character 0x'' @ fmt_02x b @ '' ('' @ fmt_d (of_char b) @ '') unexpected '' @ wher"

text \<open>One turn of the loop ends in a \<open>return\<close>, or goes on with the next byte.\<close>

datatype lex_outcome = Return Token Lexer | Continue Lexer string

definition fail :: "string \<Rightarrow> Lexer \<Rightarrow> lex_outcome" where
  "fail msg lx = Return (Tok msg TkError) (lx\<lparr>lexerState := stInError\<rparr>)"

definition unread_return :: "char \<Rightarrow> Token \<Rightarrow> Lexer \<Rightarrow> panic + lex_outcome" where
  "unread_return b t lx = bindE (UnreadByte b (reader lx)) (\<lambda>p. Inr (Return t (lx\<lparr>reader := p\<rparr>)))"

definition in_skip :: "Lexer \<Rightarrow> string \<Rightarrow> char \<Rightarrow> panic + lex_outcome" where
  "in_skip lx acc b = Inr (if b = NL then Return nlToken (lx\<lparr>lexerState := stBetween\<rparr>) else Continue lx acc)"

definition in_between :: "Lexer \<Rightarrow> string \<Rightarrow> char \<Rightarrow> panic + lex_outcome" where
  "in_between lx acc b =
     (if length acc \<noteq> 0 then Inl (Fatal (''token accumulator not empty between tokens: '' @ acc))
      else Inr (
        if b = NL then Return nlToken lx
        else if b = COMMENT then Continue (lx\<lparr>lexerState := stInComment\<rparr>) acc
        else if isWhiteSpaceChar b then Continue lx acc
        else if isDigitChar b then Continue (lx\<lparr>lexerState := stInNumber\<rparr>) (acc @ [b])
        else if isInitialSymbolChar b then Continue (lx\<lparr>lexerState := stInSymbol\<rparr>) (acc @ [b])
        else if isQuoteChar b then Continue (lx\<lparr>lexerState := stInString\<rparr>) acc
        else if isOperatorChar b then
          (let lx = lx\<lparr>lexerState := stBetween\<rparr> in if b \<noteq> COMMA then Return (Tok [b] TkOperator) lx else Continue lx acc)
        else fail (unexpected b ''[1]'') lx))"

definition in_symbol :: "Lexer \<Rightarrow> string \<Rightarrow> char \<Rightarrow> panic + lex_outcome" where
  "in_symbol lx acc b =
     (if length acc = 0 then Inl (Fatal ''token accumulator empty in symbol'')
      else if isWhiteSpaceChar b \<or> isOperatorChar b then
        (let lx = lx\<lparr>lexerState := stBetween\<rparr> in
         if b = COLON then Inr (Return (Tok acc TkLabel) lx) else unread_return b (Tok acc TkSymbol) lx)
      else if isSymbolChar b then Inr (Continue lx (acc @ [b]))
      else Inr (fail (unexpected b ''[2]'') lx))"

definition in_string :: "Lexer \<Rightarrow> string \<Rightarrow> char \<Rightarrow> panic + lex_outcome" where
  "in_string lx acc b =
     Inr (if isQuoteChar b then Return (Tok ([QUOTE] @ acc @ [QUOTE]) TkString) (lx\<lparr>lexerState := stBetween\<rparr>)
          else if b = NL then fail ''newline in string'' lx
          else Continue lx (acc @ [b]))"

definition in_number :: "Lexer \<Rightarrow> string \<Rightarrow> char \<Rightarrow> panic + lex_outcome" where
  "in_number lx acc b =
     (if isDigitChar b \<or> isHexLetter b \<or> isX b then Inr (Continue lx (acc @ [b]))
      else if isWhiteSpaceChar b \<or> isOperatorChar b then
        (if \<not> validNumber acc then unread_return b (Tok (''invalid number '' @ acc) TkError) (lx\<lparr>lexerState := stInError\<rparr>)
         else unread_return b (Tok acc TkNumber) (lx\<lparr>lexerState := stBetween\<rparr>))
      else Inr (fail (unexpected b ''in number'') lx))"

definition lex_step :: "Lexer \<Rightarrow> string \<Rightarrow> char \<Rightarrow> panic + lex_outcome" where
  "lex_step lx acc b =
     (case lexerState lx of
        stInError \<Rightarrow> in_skip lx acc b
      | stInComment \<Rightarrow> in_skip lx acc b
      | stBetween \<Rightarrow> in_between lx acc b
      | stInSymbol \<Rightarrow> in_symbol lx acc b
      | stInString \<Rightarrow> in_string lx acc b
      | stInNumber \<Rightarrow> in_number lx acc b
      | _ \<Rightarrow> Inr (Continue lx acc))"

text \<open>What is still to be read.\<close>

definition unread :: "PBR \<Rightarrow> string" where
  "unread p = (if pb p \<noteq> nul then pb p # br p else br p)"

lemma ReadByte_shorter: "(Byte b, p') = ReadByte p \<Longrightarrow> length (unread p') < length (unread p)"
  by (auto simp: ReadByte_def unread_def split: if_splits list.splits option.splits)

lemma lex_step_reader: "lex_step lx acc b = Inr (Continue lx' acc') \<Longrightarrow> reader lx' = reader lx"
  by (auto simp: lex_step_def in_skip_def in_between_def in_symbol_def in_string_def in_number_def fail_def unread_return_def
      Let_def bindE_Inr_iff split: lexerStateType.splits if_splits)

function scan_loop :: "Lexer \<Rightarrow> string \<Rightarrow> panic + (Token \<times> Lexer)" where
  "scan_loop lx acc =
     (case ReadByte (reader lx) of
        (EndOfFile, p) \<Rightarrow> Inr (eofToken, lx\<lparr>reader := p, lexerState := stEnd\<rparr>)
      | (ReadError err, p) \<Rightarrow> Inr (Tok err TkError, lx\<lparr>reader := p, lexerState := stInError\<rparr>)
      | (Byte b, p) \<Rightarrow>
          (if (of_char b :: nat) \<ge> 0x80
           then Inr (Tok (''non-ASCII character 0x'' @ fmt_02x b) TkError, lx\<lparr>reader := p, lexerState := stInError\<rparr>)
           else case lex_step (lx\<lparr>reader := p\<rparr>) acc b of
             Inl e \<Rightarrow> Inl e
           | Inr (Return t lx') \<Rightarrow> Inr (t, lx')
           | Inr (Continue lx' acc') \<Rightarrow> scan_loop lx' acc'))"
  by pat_completeness auto

termination
  by (relation "measure (\<lambda>(lx, acc). length (unread (reader lx)))")
     (auto dest!: ReadByte_shorter lex_step_reader)

declare scan_loop.simps [simp del]

definition internalGetToken :: "Lexer \<Rightarrow> panic + (Token \<times> Lexer)" where
  "internalGetToken lx =
     (if lexerState lx = stEnd then Inr (eofToken, lx)
      else case pbToken lx of
        Some t \<Rightarrow>
          if lexerState lx \<noteq> stBetween
          then Inr (Tok ''internal error: pbToken but not between tokens'' TkError, lx\<lparr>pbToken := None, lexerState := stInError\<rparr>)
          else Inr (t, lx\<lparr>pbToken := None\<rparr>)
      | None \<Rightarrow> scan_loop lx [])"

definition GetToken :: "Lexer \<Rightarrow> panic + (Token \<times> Lexer)" where
  "GetToken lx = internalGetToken lx"

text \<open>The error that \<open>Unget\<close> returns, if any, and the lexer after it.\<close>

definition Unget :: "Token \<Rightarrow> Lexer \<Rightarrow> string option \<times> Lexer" where
  "Unget t lx =
     (if pbToken lx \<noteq> None then (Some ''internal error: too many token pushbacks'', lx\<lparr>lexerState := stInError\<rparr>)
      else if lexerState lx \<noteq> stBetween then (Some ''internal error: invalid token pushback'', lx\<lparr>lexerState := stInError\<rparr>)
      else (None, lx\<lparr>pbToken := Some t\<rparr>))"

end
