(* ===== verification/Asm_Sym.thy ===== *)
theory Asm_Sym
  imports Prelude
begin

text \<open>
  The tables of the first assembler: the mnemonics with the signatures of their operands
  (\<open>SAVE/asm/asm.go\<close>) and the symbol table (\<open>SAVE/asm/sym.go\<close>), a map from names to the indices of an array
  of entries.
\<close>

section \<open>Mnemonics and signatures\<close>

record MachineInstruction =
  parts :: "u16 list"

definition Key :: u16 where "Key = 0"
definition Ra :: u16 where "Ra = 1"
definition Rb :: u16 where "Rb = 2"
definition Rc :: u16 where "Rc = 3"

definition IsValue :: u16 where "IsValue = 0x8000"

record KeyEntry =
  name :: string
  opcode :: u16
  signature :: u16

type_synonym SignatureElement = u16

definition SeNone :: SignatureElement where "SeNone = 0"
definition SeReg :: SignatureElement where "SeReg = 1"
definition SeImm6 :: SignatureElement where "SeImm6 = 2"
definition SeImm7 :: SignatureElement where "SeImm7 = 3"
definition SeImm10 :: SignatureElement where "SeImm10 = 4"
definition SeVal16 :: SignatureElement where "SeVal16 = 5"
definition SeSym :: SignatureElement where "SeSym = 6"
definition SeString :: SignatureElement where "SeString = 7"

definition sigFor :: "SignatureElement \<Rightarrow> SignatureElement \<Rightarrow> SignatureElement \<Rightarrow> u16" where
  "sigFor a b c =
     push_bit (unat (4 * Rc)) (c AND 0xF) OR push_bit (unat (4 * Rb)) (b AND 0xF) OR push_bit (unat (4 * Ra)) (a AND 0xF)"

definition getSig :: "u16 \<Rightarrow> u16 \<Rightarrow> SignatureElement" where
  "getSig v whichElement = (let w = (whichElement AND 3) * 4 in drop_bit (unat w) v AND 0xF)"

definition numOperands :: "u16 \<Rightarrow> u16" where
  "numOperands sg = (if sg = 0 then 0 else if sg < 0x100 then 1 else if sg < 0x1000 then 2 else 3)"

definition key_entry :: "string \<Rightarrow> u16 \<Rightarrow> u16 \<Rightarrow> KeyEntry" where
  "key_entry n c sg = \<lparr>name = n, opcode = c, signature = sg\<rparr>"

abbreviation (input) rri :: u16 where "rri \<equiv> sigFor SeReg SeReg SeImm7"
abbreviation (input) rrr :: u16 where "rrr \<equiv> sigFor SeReg SeReg SeReg"
abbreviation (input) rr :: u16 where "rr \<equiv> sigFor SeReg SeReg SeNone"
abbreviation (input) r1 :: u16 where "r1 \<equiv> sigFor SeReg SeNone SeNone"
abbreviation (input) r0 :: u16 where "r0 \<equiv> sigFor SeNone SeNone SeNone"
abbreviation (input) v1 :: u16 where "v1 \<equiv> sigFor SeVal16 SeNone SeNone"

definition KeyTable :: "KeyEntry list" where
  "KeyTable =
     [key_entry ''ldw'' 0x0000 rri, key_entry ''ldb'' 0x2000 rri, key_entry ''stw'' 0x4000 rri, key_entry ''stb'' 0x6000 rri,
      key_entry ''beq'' 0x8000 rri, key_entry ''adi'' 0xA000 rri, key_entry ''lui'' 0xC000 (sigFor SeReg SeImm10 SeNone),
      key_entry ''jlr'' 0xE000 (sigFor SeReg SeReg SeImm6),
      key_entry ''add'' 0xF000 rrr, key_entry ''adc'' 0xF200 rrr, key_entry ''sub'' 0xF400 rrr, key_entry ''sbb'' 0xF600 rrr,
      key_entry ''bic'' 0xF800 rrr, key_entry ''or'' 0xFA00 rrr, key_entry ''xor'' 0xFC00 rrr,
      key_entry ''ior'' 0xFE00 rr, key_entry ''iow'' 0xFE40 rr, key_entry ''FE8'' 0xFE80 rr, key_entry ''FEC'' 0xFEC0 rr, key_entry ''FF0'' 0xFF00 rr,
      key_entry ''FF4'' 0xFF40 rr, key_entry ''sys'' 0xFF80 rr,
      key_entry ''not'' 0xFFC0 r1, key_entry ''neg'' 0xFFC8 r1, key_entry ''swb'' 0xFFD0 r1, key_entry ''sxt'' 0xFFD8 r1,
      key_entry ''lsr'' 0xFFE0 r1, key_entry ''lsl'' 0xFFE8 r1, key_entry ''asr'' 0xFFF0 r1,
      key_entry ''src'' 0xFFF8 r0, key_entry ''FF9'' 0xFFF9 r0, key_entry ''FFA'' 0xFFFA r0, key_entry ''FFB'' 0xFFFB r0,
      key_entry ''FFC'' 0xFFFC r0, key_entry ''brk'' 0xFFFD r0, key_entry ''hlt'' 0xFFFE r0, key_entry ''die'' 0xFFFF r0,
      key_entry ''lli'' 0xA000 (sigFor SeReg SeImm6 SeNone), key_entry ''nop'' 0xA000 r0,
      key_entry ''ldi'' 0xFFFF (sigFor SeReg SeVal16 SeNone), key_entry ''.align'' 0xFFFF v1, key_entry ''.byte'' 0xFFFF v1,
      key_entry ''.word'' 0xFFFF v1, key_entry ''.space'' 0xFFFF v1, key_entry ''.string'' 0xFFFF (sigFor SeString SeNone SeNone),
      key_entry ''.set'' 0xFFFF (sigFor SeSym SeVal16 SeNone)]"

section \<open>The symbol table\<close>

definition MaxSymbols :: nat where "MaxSymbols = 0x7FFE"
definition NoValue :: u16 where "NoValue = 0x7FFF"
definition NoSymbol :: u16 where "NoSymbol = 0x7FFF"
definition symDefined :: u16 where "symDefined = 0x8000"
definition symNegated :: u16 where "symNegated = 0x4000"

record symbolEntry =
  flags :: u16
  entry_value :: u16

record SymbolTable =
  indexes :: "string \<Rightarrow> u16 option"
  entries :: "symbolEntry list"

text \<open>The operations that return an error return it beside the other results.\<close>

definition internalCreateSymbol :: "string \<Rightarrow> u16 \<Rightarrow> u16 \<Rightarrow> SymbolTable \<Rightarrow> (u16 \<times> string option) \<times> SymbolTable" where
  "internalCreateSymbol nm fl v st =
     (if length (entries st) = MaxSymbols then ((NoSymbol, Some ''symbol table overflow''), st)
      else let index = of_nat (length (entries st))
           in ((index, None), st\<lparr>entries := entries st @ [\<lparr>flags = fl, entry_value = v\<rparr>], indexes := (indexes st)(nm := Some index)\<rparr>))"

text \<open>\<open>Define\<close> sets the flag of a symbol that exists in a copy of its entry, and does not store the copy.\<close>

definition Define :: "string \<Rightarrow> u16 \<Rightarrow> SymbolTable \<Rightarrow> panic + ((u16 \<times> string option) \<times> SymbolTable)" where
  "Define nm v st =
     (case indexes st nm of
        Some index \<Rightarrow>
          bindE (idx (entries st) (unat index)) (\<lambda>entry.
            if flags entry AND symDefined \<noteq> 0 then Inr ((NoSymbol, Some (nm @ '' redefined'')), st)
            else let entry = entry\<lparr>flags := flags entry OR symDefined\<rparr> in Inr ((index, None), st))
      | None \<Rightarrow> Inr (internalCreateSymbol nm symDefined v st))"

definition Use :: "string \<Rightarrow> SymbolTable \<Rightarrow> (u16 \<times> string option) \<times> SymbolTable" where
  "Use nm st = (case indexes st nm of Some index \<Rightarrow> ((index, None), st) | None \<Rightarrow> internalCreateSymbol nm 0 NoValue st)"

definition Get :: "string \<Rightarrow> SymbolTable \<Rightarrow> panic + (u16 \<times> u16 \<times> string option)" where
  "Get nm st =
     (case indexes st nm of
        None \<Rightarrow> Inr (NoValue, NoSymbol, Some (''undefined: '' @ nm))
      | Some index \<Rightarrow>
          bindE (idx (entries st) (unat index)) (\<lambda>entry.
            if flags entry AND symDefined = 0 then Inr (NoValue, index, Some (''used by not defined: '' @ nm))
            else Inr (entry_value entry, index, None)))"

definition Index :: "u16 \<Rightarrow> SymbolTable \<Rightarrow> panic + u16" where
  "Index index st = bindE (idx (entries st) (unat index)) (\<lambda>r. Inr (entry_value r))"

definition Negate :: "u16 \<Rightarrow> SymbolTable \<Rightarrow> panic + SymbolTable" where
  "Negate index st =
     bindE (idx (entries st) (unat index)) (\<lambda>e.
     bindE (upd (entries st) (unat index) (e\<lparr>flags := flags e OR symNegated\<rparr>)) (\<lambda>es. Inr (st\<lparr>entries := es\<rparr>)))"

fun create_all :: "(string \<times> u16) list \<Rightarrow> SymbolTable \<Rightarrow> SymbolTable" where
  "create_all [] st = st"
| "create_all ((n, v) # ls) st = create_all ls (snd (internalCreateSymbol n symDefined v st))"

definition reg_name :: "nat \<Rightarrow> string" where
  "reg_name i = ''r'' @ [char_of (of_char (CHR ''0'') + i :: nat)]"

definition MakeSymbolTable :: SymbolTable where
  "MakeSymbolTable =
     (let st = \<lparr>indexes = \<lambda>_. None, entries = []\<rparr>;
          st = create_all (map (\<lambda>i. (reg_name i, of_nat i)) [0..<8]) st
      in create_all (map (\<lambda>k. (name k, signature k)) KeyTable) st)"

end
