(* ===== verification/Asm_Parser.thy ===== *)
theory Asm_Parser
  imports Asm_Lexer Asm_Sym
begin

text \<open>
  The parser of the first assembler (\<open>SAVE/asm/parser.go\<close>), a state machine on tokens, and its main program
  with the code generator that is only a stub (\<open>SAVE/asm/asm.go\<close>, \<open>SAVE/asm/generator.go\<close>). The
  debug output that the flag \<open>-d\<close> asks for is left out.
\<close>

section \<open>Context\<close>

datatype parserState = StError | StBetweenLines | StNeedKey | StNeedExpression | StNeedNewline

record parserContext =
  srcPath :: string
  instructions :: "MachineInstruction list"
  symtab :: SymbolTable
  state :: parserState
  srcLine :: nat
  errorCount :: nat
  dot :: u16
  sig :: u16
  opindex :: u16
  numoperands :: u16
  positive :: bool
  stderr :: string

text \<open>The message is part of a format string: the texts that reach \<open>report\<close> have no percent sign, a read error
  whose path has one excepted.\<close>

definition report :: "parserContext \<Rightarrow> string \<Rightarrow> parserContext" where
  "report ctx msg =
     ctx\<lparr>stderr := stderr ctx @ ''error: '' @ srcPath ctx @ '', line '' @ fmt_d (srcLine ctx) @ '': '' @ msg @ newline,
         state := StError, errorCount := errorCount ctx + 1\<rparr>"

section \<open>The conversion of numbers\<close>

text \<open>\<open>strconv.ParseInt(s, 0, 0)\<close> on the texts of number tokens, which start with a digit and have
  neither a sign nor an underscore: the base is 16, 2 or 8 by a prefix, 8 after a leading zero, and 10
  otherwise; the value must be below \<open>2 ^ 63\<close>.\<close>

definition to_lower :: "char \<Rightarrow> char" where
  "to_lower c = (if CHR ''A'' \<le> c \<and> c \<le> CHR ''Z'' then char_of (of_char c + 32 :: nat) else c)"

definition digit_value :: "char \<Rightarrow> nat option" where
  "digit_value c =
     (if CHR ''0'' \<le> c \<and> c \<le> CHR ''9'' then Some (of_char c - 48)
      else if CHR ''a'' \<le> to_lower c \<and> to_lower c \<le> CHR ''z'' then Some (of_char (to_lower c) - 97 + 10)
      else None)"

text \<open>The loop over the digits stops at the first error, an invalid digit or a value that does not fit 64 bits.\<close>

datatype parse_error = ErrSyntax | ErrRange

fun parse_digits :: "nat \<Rightarrow> string \<Rightarrow> nat \<Rightarrow> parse_error + nat" where
  "parse_digits base [] n = (if n \<ge> 2 ^ 63 then Inl ErrRange else Inr n)"
| "parse_digits base (c # cs) n =
     (case digit_value c of
        None \<Rightarrow> Inl ErrSyntax
      | Some d \<Rightarrow> if d \<ge> base then Inl ErrSyntax else if n * base + d \<ge> 2 ^ 64 then Inl ErrRange else parse_digits base cs (n * base + d))"

definition ParseInt :: "string \<Rightarrow> parse_error + nat" where
  "ParseInt s =
     (if s = [] then Inl ErrSyntax
      else if s ! 0 \<noteq> CHR ''0'' then parse_digits 10 s 0
      else if length s \<ge> 3 \<and> to_lower (s ! 1) = CHR ''b'' then parse_digits 2 (drop 2 s) 0
      else if length s \<ge> 3 \<and> to_lower (s ! 1) = CHR ''o'' then parse_digits 8 (drop 2 s) 0
      else if length s \<ge> 3 \<and> to_lower (s ! 1) = CHR ''x'' then parse_digits 16 (drop 2 s) 0
      else parse_digits 8 (drop 1 s) 0)"

definition parse_error_text :: "string \<Rightarrow> parse_error \<Rightarrow> string" where
  "parse_error_text s e =
     ''strconv.ParseInt: parsing '' @ [QUOTE] @ s @ [QUOTE] @ '': '' @
     (case e of ErrSyntax \<Rightarrow> ''invalid syntax'' | ErrRange \<Rightarrow> ''value out of range'')"

section \<open>The state machine\<close>

definition doError :: "parserContext \<Rightarrow> Token \<Rightarrow> panic + (bool \<times> parserContext)" where
  "doError ctx t = Inr (True, if Kind t = TkNewline then ctx\<lparr>state := StBetweenLines\<rparr> else ctx)"

definition doBetweenLines :: "parserContext \<Rightarrow> Token \<Rightarrow> panic + (bool \<times> parserContext)" where
  "doBetweenLines ctx t =
     (case Kind t of
        TkLabel \<Rightarrow>
          bindE (Define (Text t) (dot ctx) (symtab ctx)) (\<lambda>((_, err), st).
            let ctx = ctx\<lparr>symtab := st\<rparr>;
                ctx = (case err of Some e \<Rightarrow> report ctx e | None \<Rightarrow> ctx)
            in Inr (True, ctx\<lparr>state := StNeedKey\<rparr>))
      | TkSymbol \<Rightarrow> Inr (False, ctx\<lparr>state := StNeedKey\<rparr>)
      | TkNewline \<Rightarrow> Inr (True, ctx)
      | _ \<Rightarrow> Inr (True, report ctx (''unexpected: '' @ TokenString t)))"

text \<open>\<open>ctx.instructions[ctx.dot].parts[i] = v\<close>\<close>

definition set_part :: "u16 \<Rightarrow> u16 \<Rightarrow> parserContext \<Rightarrow> panic + parserContext" where
  "set_part i v ctx =
     bindE (idx (instructions ctx) (unat (dot ctx))) (\<lambda>mi.
     bindE (upd (parts mi) (unat i) v) (\<lambda>ps.
     bindE (upd (instructions ctx) (unat (dot ctx)) (mi\<lparr>parts := ps\<rparr>)) (\<lambda>is. Inr (ctx\<lparr>instructions := is\<rparr>))))"

definition doNeedKey :: "parserContext \<Rightarrow> Token \<Rightarrow> panic + (bool \<times> parserContext)" where
  "doNeedKey ctx t =
     (if Kind t = TkSymbol then
        bindE (Get (Text t) (symtab ctx)) (\<lambda>(sg, index, err).
          if err \<noteq> None then Inr (True, report ctx (''key unknown: '' @ Text t))
          else
            let ctx = ctx\<lparr>instructions := instructions ctx @ [\<lparr>parts = [0, 0, 0, 0]\<rparr>]\<rparr> in
            bindE (set_part Key index ctx) (\<lambda>ctx.
              let ctx = ctx\<lparr>sig := sg, numoperands := numOperands sg, opindex := Ra, positive := True\<rparr>
              in Inr (True, ctx\<lparr>state := (if numoperands ctx > 0 then StNeedExpression else StNeedNewline)\<rparr>)))
      else Inr (True, report ctx (''unexpected: '' @ Text t)))"

text \<open>What follows an operand of either kind.\<close>

definition next_operand :: "parserContext \<Rightarrow> parserContext" where
  "next_operand ctx =
     (let ctx = ctx\<lparr>positive := True, opindex := opindex ctx + 1\<rparr>
      in if opindex ctx > numoperands ctx then ctx\<lparr>state := StNeedNewline\<rparr> else ctx)"

definition doNeedExpression :: "parserContext \<Rightarrow> Token \<Rightarrow> panic + (bool \<times> parserContext)" where
  "doNeedExpression ctx t =
     (case Kind t of
        TkSymbol \<Rightarrow>
          (case Use (Text t) (symtab ctx) of ((index, err), st) \<Rightarrow>
             let ctx = ctx\<lparr>symtab := st\<rparr> in
             case err of
               Some e \<Rightarrow> Inr (True, report ctx (''internal error: '' @ e))
             | None \<Rightarrow>
                 bindE (if \<not> positive ctx then bindE (Negate index st) (\<lambda>st. Inr (ctx\<lparr>symtab := st\<rparr>)) else Inr ctx) (\<lambda>ctx.
                 bindE (set_part (opindex ctx) index ctx) (\<lambda>ctx. Inr (True, next_operand ctx))))
      | TkNumber \<Rightarrow>
          (case ParseInt (Text t) of
             Inl e \<Rightarrow> Inr (True, report ctx (''internal error: ParseInt(): '' @ parse_error_text (Text t) e))
           | Inr n \<Rightarrow>
               let v = (if \<not> positive ctx then - int n else int n);
                   immed = (word_of_int v :: u16) AND 0x3FF
               in bindE (set_part (opindex ctx) (IsValue OR immed) ctx) (\<lambda>ctx. Inr (True, next_operand ctx)))
      | TkOperator \<Rightarrow>
          Inr (True, if Text t = ''-'' then ctx\<lparr>positive := \<not> positive ctx\<rparr> else report ctx (''unexpected: '' @ Text t))
      | _ \<Rightarrow> Inr (True, report ctx (''unexpected: '' @ Text t)))"

definition doNeedNewline :: "parserContext \<Rightarrow> Token \<Rightarrow> panic + (bool \<times> parserContext)" where
  "doNeedNewline ctx t =
     (let ctx = (if Kind t \<noteq> TkNewline then report ctx (''unexpected at end of line: '' @ Text t) else ctx)
      in Inr (True, ctx\<lparr>state := StBetweenLines, dot := dot ctx + 1, sig := 0, opindex := 0, numoperands := 0, positive := True\<rparr>))"

definition parserFunctionMap :: "parserState \<Rightarrow> parserContext \<Rightarrow> Token \<Rightarrow> panic + (bool \<times> parserContext)" where
  "parserFunctionMap s =
     (case s of StError \<Rightarrow> doError | StBetweenLines \<Rightarrow> doBetweenLines | StNeedKey \<Rightarrow> doNeedKey
      | StNeedExpression \<Rightarrow> doNeedExpression | StNeedNewline \<Rightarrow> doNeedNewline)"

section \<open>Parsing a file\<close>

text \<open>The body of the loop of \<open>Parse\<close> for one token that is not the end of the file.\<close>

definition parse_token :: "Token \<Rightarrow> Lexer \<Rightarrow> parserContext \<Rightarrow> panic + (Lexer \<times> parserContext)" where
  "parse_token t lx ctx =
     (if Kind t = TkError then Inr (lx, (report ctx (Text t))\<lparr>state := StError\<rparr>)
      else bindE (parserFunctionMap (state ctx) ctx t) (\<lambda>(consume, ctx).
        let lx = (if \<not> consume then snd (Unget t lx) else lx);
            ctx = (if Kind t = TkNewline then ctx\<lparr>srcLine := srcLine ctx + 1\<rparr> else ctx)
        in Inr (lx, ctx)))"

partial_function (option) asm_loop :: "Lexer \<Rightarrow> parserContext \<Rightarrow> (panic + (Lexer \<times> parserContext)) option" where
  "asm_loop lx ctx =
     (case GetToken lx of
        Inl e \<Rightarrow> Some (Inl e)
      | Inr r \<Rightarrow>
          if Kind (fst r) = TkEOF then Some (Inr (snd r, ctx))
          else (case parse_token (fst r) (snd r) ctx of Inl e \<Rightarrow> Some (Inl e) | Inr q \<Rightarrow> asm_loop (fst q) (snd q)))"

definition start_ctx :: "string \<Rightarrow> parserContext" where
  "start_ctx src =
     \<lparr>srcPath = src, instructions = [], symtab = MakeSymbolTable, state = StBetweenLines, srcLine = 1, errorCount = 0,
      dot = 0, sig = 0, opindex = 0, numoperands = 0, positive = False, stderr = []\<rparr>"

definition parse_finish :: "parserContext \<Rightarrow> parserContext \<times> string option" where
  "parse_finish ctx =
     (let ctx = (if state ctx \<noteq> StBetweenLines then report ctx ''unexpected EOF'' else ctx)
      in (ctx, if errorCount ctx \<noteq> 0
               then Some (fmt_d (errorCount ctx) @ '' error'' @ (if errorCount ctx = 1 then [] else ''s'')) else None))"

definition Parse :: "(string \<Rightarrow> string + (string \<times> string option)) \<Rightarrow> string \<Rightarrow> (panic + (string + (parserContext \<times> string option))) option" where
  "Parse open_file src =
     (case MakeFileLexer open_file src of
        Inl err \<Rightarrow> Some (Inr (Inl err))
      | Inr lx \<Rightarrow> Option.bind (asm_loop lx (start_ctx src)) (\<lambda>r. Some (bindE r (\<lambda>(lx, ctx). Inr (Inr (parse_finish ctx))))))"

definition Generate :: "SymbolTable \<Rightarrow> MachineInstruction list \<Rightarrow> string option" where
  "Generate symbols is = None"

definition usage :: string where
  "usage = ''Usage: asm [options] source-file'' @ newline @ ''Options:'' @ newline @ ''  -d'' @ [TAB] @ ''enable debug'' @ newline"

text \<open>The exit status and what goes to standard error, for the arguments behind the flags.\<close>

definition asm_main :: "(string \<Rightarrow> string + (string \<times> string option)) \<Rightarrow> string list \<Rightarrow> (panic + (nat \<times> string)) option" where
  "asm_main open_file args =
     (case args of
        [src] \<Rightarrow>
          Option.bind (Parse open_file src) (\<lambda>r. Some (bindE r (\<lambda>q. Inr (
            case q of
              Inl err \<Rightarrow> (2, src @ '': '' @ err @ newline @ newline)
            | Inr (ctx, Some err) \<Rightarrow> (2, stderr ctx @ src @ '': '' @ err @ newline @ newline)
            | Inr (ctx, None) \<Rightarrow>
                (case Generate (symtab ctx) (instructions ctx) of
                   Some err \<Rightarrow> (2, stderr ctx @ src @ '': '' @ err @ newline @ newline)
                 | None \<Rightarrow> (0, stderr ctx))))))
      | _ \<Rightarrow> Some (Inr (1, usage)))"

end
