(* ===== verification/Asm_Scan.thy ===== *)
theory Asm_Scan
  imports Asm_Parser
begin

text \<open>
  The lexer of the first assembler: it never panics and consumes input with every token, and it reads
  back every sequence of well-formed tokens in every layout.
\<close>

section \<open>One byte\<close>

abbreviation (input) rdr :: "string \<Rightarrow> string option \<Rightarrow> PBR" where
  "rdr bs e \<equiv> \<lparr>br = bs, br_err = e, pb = nul\<rparr>"

abbreviation (input) rest :: "Lexer \<Rightarrow> string" where "rest lx \<equiv> unread (reader lx)"
abbreviation (input) rerr :: "Lexer \<Rightarrow> string option" where "rerr lx \<equiv> br_err (reader lx)"

lemma ReadByte_unread:
  "ReadByte p = (case unread p of [] \<Rightarrow> (case br_err p of None \<Rightarrow> EndOfFile | Some err \<Rightarrow> ReadError err, p)
                 | b # bs \<Rightarrow> (Byte b, rdr bs (br_err p)))"
  by (cases p) (auto simp: ReadByte_def unread_def split: list.splits option.splits)

definition after :: "panic + lex_outcome \<Rightarrow> panic + (Token \<times> Lexer)" where
  "after r = bindE r (\<lambda>oc. case oc of Return t lx \<Rightarrow> Inr (t, lx) | Continue lx acc \<Rightarrow> scan_loop lx acc)"

lemma after_simps [simp]:
  "after (Inl e) = Inl e" "after (Inr (Return t lx)) = Inr (t, lx)" "after (Inr (Continue lx acc)) = scan_loop lx acc"
  "after (Inr (fail msg lx)) = Inr (Tok msg TkError, lx\<lparr>lexerState := stInError\<rparr>)"
  by (simp_all add: after_def fail_def)

lemma scan_loop_byte:
  "rest lx = b # bs \<Longrightarrow>
   scan_loop lx acc =
     (if 128 \<le> (of_char b :: nat)
      then Inr (Tok (''non-ASCII character 0x'' @ fmt_02x b) TkError, lx\<lparr>reader := rdr bs (rerr lx), lexerState := stInError\<rparr>)
      else after (lex_step (lx\<lparr>reader := rdr bs (rerr lx)\<rparr>) acc b))"
  by (subst scan_loop.simps) (simp add: ReadByte_unread after_def bindE_def split: sum.split lex_outcome.split)

lemma scan_loop_end:
  "rest lx = [] \<Longrightarrow> rerr lx = None \<Longrightarrow> scan_loop lx acc = Inr (eofToken, lx\<lparr>lexerState := stEnd\<rparr>)"
  "rest lx = [] \<Longrightarrow> rerr lx = Some e \<Longrightarrow> scan_loop lx acc = Inr (Tok e TkError, lx\<lparr>lexerState := stInError\<rparr>)"
  by (subst scan_loop.simps, simp add: ReadByte_unread)+

section \<open>No panics, and progress\<close>

definition acc_ok :: "Lexer \<Rightarrow> string \<Rightarrow> bool" where
  "acc_ok lx acc \<longleftrightarrow>
     (case lexerState lx of
        stBetween \<Rightarrow> acc = [] | stInError \<Rightarrow> acc = [] | stInComment \<Rightarrow> acc = [] | stInString \<Rightarrow> True
      | stInSymbol \<Rightarrow> acc \<noteq> [] | stInNumber \<Rightarrow> acc \<noteq> [] | _ \<Rightarrow> False)"

definition calm :: "Lexer \<Rightarrow> bool" where
  "calm lx \<longleftrightarrow> lexerState lx = stBetween \<or> lexerState lx = stInError \<or> lexerState lx = stEnd"

text \<open>What a call returns: the lexer between two tokens, with no more input than \<open>n\<close> bytes unless at the end, where the
  token is the last one.\<close>

definition served :: "nat \<Rightarrow> Lexer \<Rightarrow> panic + (Token \<times> Lexer) \<Rightarrow> bool" where
  "served n lx r \<longleftrightarrow>
     (\<exists>t lx'. r = Inr (t, lx') \<and> calm lx' \<and> pbToken lx' = pbToken lx \<and> rerr lx' = rerr lx \<and>
        (Kind t \<in> {TkSymbol, TkNumber, TkLabel, TkString, TkOperator, TkNewline} \<longrightarrow> lexerState lx' = stBetween) \<and>
        (length (rest lx') < n \<or> Kind t = TkEOF \<or> rerr lx \<noteq> None \<and> rest lx' = []) \<and>
        (rerr lx \<noteq> None \<and> lexerState lx \<noteq> stEnd \<longrightarrow> Kind t \<noteq> TkEOF \<and> lexerState lx' \<noteq> stEnd))"

lemma served_mono:
  assumes "served n lx r" "n \<le> m" "pbToken lx' = pbToken lx" "rerr lx' = rerr lx" "lexerState lx \<noteq> stEnd"
  shows "served m lx' r"
proof -
  from assms(1) obtain t l where "r = Inr (t, l)" "calm l" "pbToken l = pbToken lx" "rerr l = rerr lx"
    "Kind t \<in> {TkSymbol, TkNumber, TkLabel, TkString, TkOperator, TkNewline} \<longrightarrow> lexerState l = stBetween"
    "length (rest l) < n \<or> Kind t = TkEOF \<or> rerr lx \<noteq> None \<and> rest l = []"
    "rerr lx \<noteq> None \<longrightarrow> Kind t \<noteq> TkEOF \<and> lexerState l \<noteq> stEnd" using assms(5) unfolding served_def by blast
  moreover from this(6) have "length (rest l) < m \<or> Kind t = TkEOF \<or> rerr lx \<noteq> None \<and> rest l = []" using assms(2) by auto
  ultimately show ?thesis using assms(3,4) unfolding served_def by (intro exI [of _ t] exI [of _ l]) simp
qed

lemma delim_not_nul: "isWhiteSpaceChar b \<or> isOperatorChar b \<Longrightarrow> b \<noteq> nul"
  by (auto simp: isWhiteSpaceChar_def isOperatorChar_def)

lemma after_unread:
  "b \<noteq> nul \<Longrightarrow> pb (reader lx) = nul \<Longrightarrow> after (unread_return b t lx) = Inr (t, lx\<lparr>reader := (reader lx)\<lparr>pb := b\<rparr>\<rparr>)"
  by (simp add: unread_return_def UnreadByte_def)

lemma unread_simps [simp]:
  "unread (rdr bs e) = bs" "b \<noteq> nul \<Longrightarrow> unread \<lparr>br = bs, br_err = e, pb = b\<rparr> = b # bs"
  "b \<noteq> nul \<Longrightarrow> unread (p\<lparr>pb := b\<rparr>) = b # br p" "pb p = nul \<Longrightarrow> unread p = br p"
  by (simp_all add: unread_def)

definition keeps :: "Lexer \<Rightarrow> string \<Rightarrow> Lexer \<Rightarrow> string \<Rightarrow> bool" where
  "keeps lx acc lx' acc' \<longleftrightarrow> reader lx' = reader lx \<and> pbToken lx' = pbToken lx \<and> acc_ok lx' acc' \<and> length acc' \<le> Suc (length acc)"

lemma step_cases:
  assumes "acc_ok lx acc" "pb (reader lx) = nul" "br (reader lx) = bs"
  shows "(\<exists>lx' acc'. lex_step lx acc b = Inr (Continue lx' acc') \<and> keeps lx acc lx' acc')
    \<or> served (Suc (length bs) + length acc) lx (after (lex_step lx acc b))"
proof (cases "lexerState lx")
  case stBetween
  with assms show ?thesis
    by (auto simp: lex_step_def in_between_def acc_ok_def keeps_def served_def calm_def nlToken_def Let_def fail_def)
next
  case stInSymbol
  with assms show ?thesis using delim_not_nul [of b]
    by (auto simp: lex_step_def in_symbol_def acc_ok_def keeps_def served_def calm_def Let_def after_unread fail_def)
next
  case stInNumber
  with assms show ?thesis using delim_not_nul [of b]
    by (auto simp: lex_step_def in_number_def acc_ok_def keeps_def served_def calm_def Let_def after_unread fail_def)
qed (use assms in \<open>auto simp: lex_step_def in_skip_def in_string_def acc_ok_def keeps_def served_def calm_def nlToken_def fail_def\<close>)

lemma scan_loop_served:
  "acc_ok lx acc \<Longrightarrow> served (length (rest lx) + length acc) lx (scan_loop lx acc)"
proof (induction "rest lx" arbitrary: lx acc)
  case Nil
  then show ?case by (cases "rerr lx") (auto simp: served_def calm_def scan_loop_end eofToken_def)
next
  case (Cons b bs)
  let ?lx = "lx\<lparr>reader := rdr bs (rerr lx)\<rparr>"
  have a: "acc_ok ?lx acc" using Cons.prems by (simp add: acc_ok_def)
  show ?case
  proof (cases "128 \<le> (of_char b :: nat)")
    case True
    then show ?thesis using scan_loop_byte [of lx b bs acc] Cons.hyps(2) [symmetric] by (simp add: served_def calm_def)
  next
    case False
    then have l: "scan_loop lx acc = after (lex_step ?lx acc b)" using scan_loop_byte [OF Cons.hyps(2) [symmetric]] by simp
    have e: "lexerState lx \<noteq> stEnd" using Cons.prems by (auto simp: acc_ok_def)
    have n: "length (rest lx) = Suc (length bs)" by (simp only: Cons.hyps(2) [symmetric] list.size(4) add_0_right add_Suc_right)
    from step_cases [OF a, of bs b] show ?thesis
    proof
      assume "served (Suc (length bs) + length acc) ?lx (after (lex_step ?lx acc b))"
      from served_mono [OF this, of "length (rest lx) + length acc" lx] show ?thesis using l n e by simp
    next
      assume "\<exists>lx' acc'. lex_step ?lx acc b = Inr (Continue lx' acc') \<and> keeps ?lx acc lx' acc'"
      then obtain lx' acc' where k: "lex_step ?lx acc b = Inr (Continue lx' acc')" "keeps ?lx acc lx' acc'" by blast
      then have "served (length bs + length acc') lx' (scan_loop lx' acc')"
        using Cons.hyps(1) [of lx' acc'] by (simp add: keeps_def)
      moreover have "lexerState lx' \<noteq> stEnd" using k(2) by (auto simp: keeps_def acc_ok_def)
      ultimately show ?thesis using served_mono [of "length bs + length acc'" lx' _ "length (rest lx) + length acc" lx] l k n
        by (simp add: keeps_def)
    qed simp_all
  qed
qed

lemma GetToken_served:
  assumes "calm lx" "pbToken lx = None"
  shows "served (length (rest lx)) lx (GetToken lx)"
proof (cases "lexerState lx = stEnd")
  case True
  then show ?thesis using assms by (simp add: GetToken_def internalGetToken_def served_def eofToken_def)
next
  case False
  then have "acc_ok lx []" using assms by (auto simp: acc_ok_def calm_def)
  from scan_loop_served [OF this] False assms show ?thesis by (simp add: GetToken_def internalGetToken_def)
qed

section \<open>Layouts\<close>

text \<open>How a token is spelled, which tokens can be spelled, and how they may be laid out: blanks before a
  token, a comment before a newline, and a delimiter behind a symbol or a number.\<close>

definition blank :: "char \<Rightarrow> bool" where "blank c \<longleftrightarrow> c = SP \<or> c = TAB \<or> c = COMMA"
definition ascii_char :: "char \<Rightarrow> bool" where "ascii_char c \<longleftrightarrow> (of_char c :: nat) < 0x80"
definition line_char :: "char \<Rightarrow> bool" where "line_char c \<longleftrightarrow> ascii_char c \<and> c \<noteq> NL"

definition spell :: "Token \<Rightarrow> string" where
  "spell t = (if Kind t = TkLabel then Text t @ [COLON] else Text t)"

definition is_symbol :: "string \<Rightarrow> bool" where
  "is_symbol s \<longleftrightarrow> s \<noteq> [] \<and> isInitialSymbolChar (hd s) \<and> list_all isSymbolChar (tl s)"

definition is_string :: "string \<Rightarrow> bool" where
  "is_string s \<longleftrightarrow> 2 \<le> length s \<and> hd s = QUOTE \<and> last s = QUOTE \<and> list_all (\<lambda>c. line_char c \<and> c \<noteq> QUOTE) (butlast (tl s))"

definition is_number :: "string \<Rightarrow> bool" where
  "is_number s \<longleftrightarrow> s \<noteq> [] \<and> isDigitChar (hd s) \<and> validNumber s"

fun wf_token :: "Token \<Rightarrow> bool" where
  "wf_token (Tok s k) \<longleftrightarrow>
     (case k of TkSymbol \<Rightarrow> is_symbol s | TkLabel \<Rightarrow> is_symbol s | TkNumber \<Rightarrow> is_number s | TkString \<Rightarrow> is_string s
      | TkOperator \<Rightarrow> s = [COLON] \<or> s = [NEG] | TkNewline \<Rightarrow> s = [NL] | _ \<Rightarrow> False)"

definition gap_ok :: "Token \<Rightarrow> string \<Rightarrow> bool" where
  "gap_ok t g \<longleftrightarrow>
     (case dropWhile blank g of [] \<Rightarrow> True | c # cs \<Rightarrow> c = COMMENT \<and> Kind t = TkNewline \<and> list_all line_char cs)"

definition delimited :: "Token \<Rightarrow> string \<Rightarrow> bool" where
  "delimited t s \<longleftrightarrow>
     (Kind t = TkSymbol \<or> Kind t = TkNumber \<longrightarrow>
        s \<noteq> [] \<and> (isWhiteSpaceChar (hd s) \<or> isOperatorChar (hd s)) \<and> (Kind t = TkSymbol \<longrightarrow> hd s \<noteq> COLON))"

fun layout :: "(string \<times> Token) list \<Rightarrow> string" where
  "layout [] = []"
| "layout ((g, t) # gts) = g @ spell t @ layout gts"

fun laid_out :: "(string \<times> Token) list \<Rightarrow> bool" where
  "laid_out [] \<longleftrightarrow> True"
| "laid_out ((g, t) # gts) \<longleftrightarrow> wf_token t \<and> gap_ok t g \<and> delimited t (layout gts) \<and> laid_out gts"

section \<open>Reading a layout back\<close>

definition spot :: "lexerStateType \<Rightarrow> string \<Rightarrow> Lexer \<Rightarrow> bool" where
  "spot st s lx \<longleftrightarrow> lexerState lx = st \<and> rest lx = s \<and> rerr lx = None \<and> pbToken lx = None"

definition returns :: "Token \<Rightarrow> string \<Rightarrow> panic + (Token \<times> Lexer) \<Rightarrow> bool" where
  "returns t s r \<longleftrightarrow> (\<exists>lx'. r = Inr (t, lx') \<and> spot stBetween s lx')"

lemma spot_byte:
  assumes "spot st (b # bs) lx" "ascii_char b"
  shows "\<exists>lx'. spot st bs lx' \<and> pb (reader lx') = nul \<and> scan_loop lx acc = after (lex_step lx' acc b)"
  using assms scan_loop_byte [of lx b bs acc]
  by (intro exI [of _ "lx\<lparr>reader := rdr bs None\<rparr>"]) (simp add: spot_def ascii_char_def)

lemmas byte_classes = isWhiteSpaceChar_def isDigitChar_def isHexLetter_def isX_def isQuoteChar_def isOperatorChar_def
  isInitialSymbolChar_def isSymbolChar_def blank_def ascii_char_def line_char_def less_eq_char_def

lemma upto_ascii: "c \<le> CHR ''z'' \<Longrightarrow> ascii_char c"
  by (simp add: ascii_char_def less_eq_char_def)

lemma class_ascii:
  "isSymbolChar c \<Longrightarrow> ascii_char c" "isInitialSymbolChar c \<Longrightarrow> ascii_char c" "isDigitChar c \<Longrightarrow> ascii_char c"
  "isHexLetter c \<Longrightarrow> ascii_char c" "isX c \<Longrightarrow> ascii_char c" "isWhiteSpaceChar c \<Longrightarrow> ascii_char c"
  "isOperatorChar c \<Longrightarrow> ascii_char c" "blank c \<Longrightarrow> ascii_char c"
  by (auto simp: byte_classes)

lemma class_apart:
  "isSymbolChar c \<Longrightarrow> \<not> isWhiteSpaceChar c \<and> \<not> isOperatorChar c"
  "isWhiteSpaceChar c \<or> isOperatorChar c \<Longrightarrow> \<not> isDigitChar c \<and> \<not> isHexLetter c \<and> \<not> isX c"
  "isInitialSymbolChar c \<Longrightarrow> c \<noteq> NL \<and> c \<noteq> COMMENT \<and> \<not> isWhiteSpaceChar c \<and> \<not> isDigitChar c"
  "isDigitChar c \<Longrightarrow> c \<noteq> NL \<and> c \<noteq> COMMENT \<and> \<not> isWhiteSpaceChar c"
  by (auto simp: byte_classes)

lemma read_symbol:
  assumes "spot stInSymbol (w @ b # bs) lx" "acc \<noteq> []" "list_all isSymbolChar w" "isWhiteSpaceChar b \<or> isOperatorChar b" "b \<noteq> COLON"
  shows "returns (Tok (acc @ w) TkSymbol) (b # bs) (scan_loop lx acc)"
  using assms(1-3)
proof (induction w arbitrary: lx acc)
  case Nil
  obtain lx' where "spot stInSymbol bs lx'" "pb (reader lx') = nul" "scan_loop lx acc = after (lex_step lx' acc b)"
    using spot_byte [of stInSymbol b bs lx acc] Nil assms(4) class_ascii by auto
  then show ?case using Nil assms(4,5) delim_not_nul [OF assms(4)]
    by (auto simp: returns_def lex_step_def in_symbol_def spot_def after_unread)
next
  case (Cons c w)
  obtain lx' where "spot stInSymbol (w @ b # bs) lx'" "scan_loop lx acc = after (lex_step lx' acc c)"
    using spot_byte [of stInSymbol c "w @ b # bs" lx acc] Cons.prems class_ascii by auto
  then show ?case using Cons.IH [of lx' "acc @ [c]"] Cons.prems class_apart(1) [of c]
    by (simp add: lex_step_def in_symbol_def spot_def)
qed

lemma read_label:
  assumes "spot stInSymbol (w @ COLON # bs) lx" "acc \<noteq> []" "list_all isSymbolChar w"
  shows "returns (Tok (acc @ w) TkLabel) bs (scan_loop lx acc)"
  using assms
proof (induction w arbitrary: lx acc)
  case Nil
  have "isOperatorChar COLON" by (simp add: isOperatorChar_def)
  then obtain lx' where "spot stInSymbol bs lx'" "scan_loop lx acc = after (lex_step lx' acc COLON)"
    using spot_byte [of stInSymbol COLON bs lx acc] Nil class_ascii by auto
  then show ?case using Nil by (auto simp: returns_def lex_step_def in_symbol_def spot_def isOperatorChar_def)
next
  case (Cons c w)
  obtain lx' where "spot stInSymbol (w @ COLON # bs) lx'" "scan_loop lx acc = after (lex_step lx' acc c)"
    using spot_byte [of stInSymbol c "w @ COLON # bs" lx acc] Cons.prems class_ascii by auto
  then show ?case using Cons.IH [of lx' "acc @ [c]"] Cons.prems class_apart(1) [of c]
    by (simp add: lex_step_def in_symbol_def spot_def)
qed

lemma read_number:
  assumes "spot stInNumber (w @ b # bs) lx" "list_all (\<lambda>c. isDigitChar c \<or> isHexLetter c \<or> isX c) w"
    "isWhiteSpaceChar b \<or> isOperatorChar b" "validNumber (acc @ w)"
  shows "returns (Tok (acc @ w) TkNumber) (b # bs) (scan_loop lx acc)"
  using assms(1,2,4)
proof (induction w arbitrary: lx acc)
  case Nil
  obtain lx' where "spot stInNumber bs lx'" "pb (reader lx') = nul" "scan_loop lx acc = after (lex_step lx' acc b)"
    using spot_byte [of stInNumber b bs lx acc] Nil assms(3) class_ascii by auto
  then show ?case using Nil assms(3) delim_not_nul [OF assms(3)] class_apart(2) [OF assms(3)]
    by (auto simp: returns_def lex_step_def in_number_def spot_def after_unread)
next
  case (Cons c w)
  obtain lx' where "spot stInNumber (w @ b # bs) lx'" "scan_loop lx acc = after (lex_step lx' acc c)"
    using spot_byte [of stInNumber c "w @ b # bs" lx acc] Cons.prems class_ascii by auto
  then show ?case using Cons.IH [of lx' "acc @ [c]"] Cons.prems by (simp add: lex_step_def in_number_def spot_def)
qed

lemma read_string:
  assumes "spot stInString (w @ QUOTE # bs) lx" "list_all (\<lambda>c. line_char c \<and> c \<noteq> QUOTE) w"
  shows "returns (Tok ([QUOTE] @ (acc @ w) @ [QUOTE]) TkString) bs (scan_loop lx acc)"
  using assms
proof (induction w arbitrary: lx acc)
  case Nil
  have "ascii_char QUOTE" by (simp add: ascii_char_def)
  then obtain lx' where "spot stInString bs lx'" "scan_loop lx acc = after (lex_step lx' acc QUOTE)"
    using spot_byte [of stInString QUOTE bs lx acc] Nil by auto
  then show ?case by (auto simp: returns_def lex_step_def in_string_def spot_def isQuoteChar_def)
next
  case (Cons c w)
  obtain lx' where "spot stInString (w @ QUOTE # bs) lx'" "scan_loop lx acc = after (lex_step lx' acc c)"
    using spot_byte [of stInString c "w @ QUOTE # bs" lx acc] Cons.prems by (auto simp: line_char_def)
  then show ?case using Cons.IH [of lx' "acc @ [c]"] Cons.prems
    by (simp add: lex_step_def in_string_def spot_def isQuoteChar_def line_char_def)
qed

lemma read_comment:
  assumes "spot stInComment (w @ NL # bs) lx" "list_all line_char w"
  shows "returns nlToken bs (scan_loop lx [])"
  using assms
proof (induction w arbitrary: lx)
  case Nil
  have "ascii_char NL" by (simp add: ascii_char_def)
  then obtain lx' where "spot stInComment bs lx'" "scan_loop lx [] = after (lex_step lx' [] NL)"
    using spot_byte [of stInComment NL bs lx "[]"] Nil by auto
  then show ?case by (auto simp: returns_def lex_step_def in_skip_def spot_def)
next
  case (Cons c w)
  obtain lx' where "spot stInComment (w @ NL # bs) lx'" "scan_loop lx [] = after (lex_step lx' [] c)"
    using spot_byte [of stInComment c "w @ NL # bs" lx "[]"] Cons.prems by (auto simp: line_char_def)
  then show ?case using Cons.IH [of lx'] Cons.prems by (simp add: lex_step_def in_skip_def spot_def line_char_def)
qed

lemma in_between_blank: "blank c \<Longrightarrow> spot stBetween bs lx \<Longrightarrow> lex_step lx [] c = Inr (Continue lx [])"
  by (cases lx) (auto simp: lex_step_def in_between_def spot_def byte_classes Let_def)

lemma skip_blanks:
  "list_all blank g \<Longrightarrow> spot stBetween (g @ s) lx \<Longrightarrow> \<exists>lx'. spot stBetween s lx' \<and> scan_loop lx [] = scan_loop lx' []"
proof (induction g arbitrary: lx)
  case (Cons c g)
  then obtain lx1 where "spot stBetween (g @ s) lx1" "scan_loop lx [] = after (lex_step lx1 [] c)"
    using spot_byte [of stBetween c "g @ s" lx "[]"] class_ascii by auto
  with Cons show ?case using in_between_blank by auto
qed auto

text \<open>The first byte of a token, and the rest of it.\<close>

lemma first_byte:
  assumes "spot stBetween (b # bs) lx" "ascii_char b"
  shows "\<exists>lx'. spot stBetween bs lx' \<and> scan_loop lx [] = after (in_between lx' [] b)"
  using spot_byte [OF assms, of "[]"] by (auto simp: lex_step_def spot_def)

lemma digits_class: "digits_ok h w \<Longrightarrow> list_all (\<lambda>c. isDigitChar c \<or> isHexLetter c \<or> isX c) w"
  by (induction h w rule: digits_ok.induct) (auto split: if_splits)

lemma number_class: "validNumber w \<Longrightarrow> list_all (\<lambda>c. isDigitChar c \<or> isHexLetter c \<or> isX c) w"
proof (cases "length w > 2 \<and> w ! 0 = CHR ''0'' \<and> isX (w ! 1)")
  case True
  moreover assume "validNumber w"
  moreover obtain a b v where "w = a # b # v" using True by (cases w; cases "tl w") auto
  ultimately show ?thesis using digits_class [of True] by (auto simp: validNumber_def isDigitChar_def)
qed (auto simp: validNumber_def dest: digits_class)

lemma token_symbol:
  assumes "spot stBetween (s @ b # bs) lx" "is_symbol s" "isWhiteSpaceChar b \<or> isOperatorChar b" "b \<noteq> COLON"
  shows "returns (Tok s TkSymbol) (b # bs) (scan_loop lx [])"
proof -
  obtain c w where s: "s = c # w" "isInitialSymbolChar c" "list_all isSymbolChar w"
    using assms(2) by (cases s) (auto simp: is_symbol_def)
  obtain lx' where l: "spot stBetween (w @ b # bs) lx'" "scan_loop lx [] = after (in_between lx' [] c)"
    using first_byte [of c "w @ b # bs" lx] assms(1) s class_ascii by auto
  then show ?thesis using read_symbol [of w b bs "lx'\<lparr>lexerState := stInSymbol\<rparr>" "[c]"] s assms(3,4) class_apart(3) [of c]
    by (simp add: in_between_def spot_def)
qed

lemma token_label:
  assumes "spot stBetween (s @ COLON # bs) lx" "is_symbol s"
  shows "returns (Tok s TkLabel) bs (scan_loop lx [])"
proof -
  obtain c w where s: "s = c # w" "isInitialSymbolChar c" "list_all isSymbolChar w"
    using assms(2) by (cases s) (auto simp: is_symbol_def)
  obtain lx' where l: "spot stBetween (w @ COLON # bs) lx'" "scan_loop lx [] = after (in_between lx' [] c)"
    using first_byte [of c "w @ COLON # bs" lx] assms(1) s class_ascii by auto
  then show ?thesis using read_label [of w bs "lx'\<lparr>lexerState := stInSymbol\<rparr>" "[c]"] s class_apart(3) [of c]
    by (simp add: in_between_def spot_def)
qed

lemma token_number:
  assumes "spot stBetween (s @ b # bs) lx" "is_number s" "isWhiteSpaceChar b \<or> isOperatorChar b"
  shows "returns (Tok s TkNumber) (b # bs) (scan_loop lx [])"
proof -
  obtain c w where s: "s = c # w" "isDigitChar c" "validNumber (c # w)"
    using assms(2) by (cases s) (auto simp: is_number_def)
  obtain lx' where l: "spot stBetween (w @ b # bs) lx'" "scan_loop lx [] = after (in_between lx' [] c)"
    using first_byte [of c "w @ b # bs" lx] assms(1) s class_ascii by auto
  then show ?thesis using read_number [of w b bs "lx'\<lparr>lexerState := stInNumber\<rparr>" "[c]"] s assms(3) class_apart(4) [of c]
      number_class [OF s(3)]
    by (simp add: in_between_def spot_def)
qed

lemma token_string:
  assumes "spot stBetween (s @ bs) lx" "is_string s"
  shows "returns (Tok s TkString) bs (scan_loop lx [])"
proof -
  obtain c v where v: "s = c # v" using assms(2) by (cases s) (simp_all add: is_string_def)
  then have "v \<noteq> []" using assms(2) by (cases v) (simp_all add: is_string_def)
  with v obtain w where s: "s = QUOTE # w @ [QUOTE]" "list_all (\<lambda>c. line_char c \<and> c \<noteq> QUOTE) w"
    using assms(2) by (cases v rule: rev_cases) (auto simp: is_string_def)
  obtain lx' where l: "spot stBetween (w @ QUOTE # bs) lx'" "scan_loop lx [] = after (in_between lx' [] QUOTE)"
    using first_byte [of QUOTE "w @ QUOTE # bs" lx] assms(1) s by (auto simp: ascii_char_def)
  have q: "\<not> isWhiteSpaceChar QUOTE" "\<not> isDigitChar QUOTE" "\<not> isInitialSymbolChar QUOTE" "isQuoteChar QUOTE"
    by (simp_all add: byte_classes)
  have "returns (Tok s TkString) bs (scan_loop (lx'\<lparr>lexerState := stInString\<rparr>) [])"
    using read_string [of w bs "lx'\<lparr>lexerState := stInString\<rparr>" "[]"] s l(1) by (simp add: spot_def)
  then show ?thesis using l(2) by (simp add: in_between_def q)
qed

lemma token_operator:
  assumes "spot stBetween (b # bs) lx" "b = COLON \<or> b = NEG"
  shows "returns (Tok [b] TkOperator) bs (scan_loop lx [])"
proof -
  obtain lx' where l: "spot stBetween bs lx'" "scan_loop lx [] = after (in_between lx' [] b)"
    using first_byte [OF assms(1)] assms(2) by (auto simp: ascii_char_def)
  have q: "b \<noteq> NL" "b \<noteq> COMMENT" "b \<noteq> COMMA" "\<not> isWhiteSpaceChar b" "\<not> isDigitChar b" "\<not> isInitialSymbolChar b" "\<not> isQuoteChar b"
    "isOperatorChar b" using assms(2) by (auto simp: byte_classes)
  have "in_between lx' [] b = Inr (Return (Tok [b] TkOperator) (lx'\<lparr>lexerState := stBetween\<rparr>))"
    by (simp add: in_between_def q Let_def)
  then show ?thesis using l by (simp add: returns_def spot_def)
qed

lemma token_newline:
  assumes "spot stBetween (NL # bs) lx"
  shows "returns nlToken bs (scan_loop lx [])"
proof -
  obtain lx' where l: "spot stBetween bs lx'" "scan_loop lx [] = after (in_between lx' [] NL)"
    using first_byte [OF assms] by (auto simp: ascii_char_def)
  then show ?thesis by (auto simp: in_between_def returns_def)
qed

lemma token_comment:
  assumes "spot stBetween (COMMENT # w @ NL # bs) lx" "list_all line_char w"
  shows "returns nlToken bs (scan_loop lx [])"
proof -
  obtain lx' where l: "spot stBetween (w @ NL # bs) lx'" "scan_loop lx [] = after (in_between lx' [] COMMENT)"
    using first_byte [OF assms(1)] by (auto simp: ascii_char_def)
  then show ?thesis using read_comment [of w bs "lx'\<lparr>lexerState := stInComment\<rparr>"] assms(2)
    by (simp add: in_between_def spot_def)
qed

lemma token_read:
  assumes "spot stBetween (spell t @ s) lx" "wf_token t" "delimited t s"
  shows "returns t s (scan_loop lx [])"
proof (cases t)
  case (Tok w k)
  have "(k = TkSymbol \<or> k = TkNumber) \<Longrightarrow> \<exists>b bs. s = b # bs \<and> (isWhiteSpaceChar b \<or> isOperatorChar b) \<and> (k = TkSymbol \<longrightarrow> b \<noteq> COLON)"
    using assms(3) Tok by (cases s) (auto simp: delimited_def)
  then show ?thesis using assms Tok
    by (cases k) (auto simp: spell_def token_symbol token_label token_number token_string token_operator token_newline [unfolded nlToken_def])
qed

lemma gap_read:
  assumes "spot stBetween (g @ spell t @ s) lx" "gap_ok t g" "wf_token t" "delimited t s"
  shows "returns t s (scan_loop lx [])"
proof -
  obtain a c where g: "g = a @ c" "c = dropWhile blank g" "list_all blank a"
    by (metis list_all_iff set_takeWhileD takeWhile_dropWhile_id)
  obtain lx' where l: "spot stBetween (c @ spell t @ s) lx'" "scan_loop lx [] = scan_loop lx' []"
    using skip_blanks [OF g(3)] assms(1) g(1) by auto
  show ?thesis
  proof (cases c)
    case Nil
    then show ?thesis using l token_read assms(3,4) by simp
  next
    case (Cons b w)
    then have "b = COMMENT" "Kind t = TkNewline" "list_all line_char w" using assms(2) g(2) by (auto simp: gap_ok_def split: list.splits)
    moreover have "t = nlToken" using assms(3) calculation(2) by (cases t) (auto simp: nlToken_def)
    ultimately show ?thesis using l Cons token_comment [of w s lx'] by (simp add: spell_def nlToken_def)
  qed
qed

fun get_tokens :: "nat \<Rightarrow> Lexer \<Rightarrow> panic + (Token list \<times> Lexer)" where
  "get_tokens 0 lx = Inr ([], lx)"
| "get_tokens (Suc n) lx = bindE (GetToken lx) (\<lambda>(t, lx). bindE (get_tokens n lx) (\<lambda>(ts, lx). Inr (t # ts, lx)))"

lemma GetToken_spot: "spot stBetween s lx \<Longrightarrow> GetToken lx = scan_loop lx []"
  by (simp add: spot_def GetToken_def internalGetToken_def)

lemma GetToken_end: "spot stBetween [] lx \<Longrightarrow> GetToken lx = Inr (eofToken, lx\<lparr>lexerState := stEnd\<rparr>)"
  using scan_loop_end(1) by (simp add: GetToken_spot) (simp add: spot_def)

lemma GetToken_layout:
  "spot stBetween (layout ((g, t) # gts)) lx \<Longrightarrow> laid_out ((g, t) # gts) \<Longrightarrow>
   \<exists>lx'. GetToken lx = Inr (t, lx') \<and> spot stBetween (layout gts) lx'"
  using gap_read [of g t "layout gts" lx] GetToken_spot by (auto simp: returns_def)

lemma get_tokens_layout:
  "spot stBetween (layout gts) lx \<Longrightarrow> laid_out gts \<Longrightarrow>
   \<exists>lx'. get_tokens (Suc (length gts)) lx = Inr (map snd gts @ [eofToken], lx')"
proof (induction gts arbitrary: lx)
  case Nil
  then show ?case by (simp add: GetToken_end)
next
  case (Cons gt gts)
  obtain g t where gt: "gt = (g, t)" by (cases gt)
  obtain lx1 where 1: "GetToken lx = Inr (t, lx1)" "spot stBetween (layout gts) lx1"
    using GetToken_layout Cons.prems gt by blast
  obtain lx2 where "get_tokens (Suc (length gts)) lx1 = Inr (map snd gts @ [eofToken], lx2)"
    using Cons.IH [OF 1(2)] Cons.prems gt by auto
  then show ?case using 1(1) gt by (subst get_tokens.simps(2)) (simp del: get_tokens.simps(2))
qed

end
