(* ===== verification/Asm_Table.thy ===== *)
theory Asm_Table
  imports Asm_Sym Interner
begin

text \<open>
  The symbol table of the first assembler: its invariant, the operations as an interner of names, and the
  table that \<open>MakeSymbolTable\<close> builds.
\<close>

section \<open>Invariant\<close>

definition sym_ok :: "SymbolTable \<Rightarrow> bool" where
  "sym_ok st \<longleftrightarrow> length (entries st) \<le> MaxSymbols \<and>
     (\<forall>k i. indexes st k = Some i \<longrightarrow> unat i < length (entries st)) \<and>
     (\<forall>k k' i. indexes st k = Some i \<longrightarrow> indexes st k' = Some i \<longrightarrow> k = k')"

lemma sym_okD: "sym_ok st \<Longrightarrow> indexes st k = Some i \<Longrightarrow> unat i < length (entries st)"
  by (simp add: sym_ok_def)

lemma sym_ok_len: "sym_ok st \<Longrightarrow> length (entries st) \<le> MaxSymbols"
  by (simp add: sym_ok_def)

lemma sym_ok_inj: "sym_ok st \<Longrightarrow> indexes st k = Some i \<Longrightarrow> indexes st k' = Some i \<Longrightarrow> k = k'"
  by (simp add: sym_ok_def)

text \<open>What every operation keeps of a table: the index, the value and the definition of its symbols.\<close>

definition grows :: "SymbolTable \<Rightarrow> SymbolTable \<Rightarrow> bool" where
  "grows st st' \<longleftrightarrow> length (entries st) \<le> length (entries st') \<and>
     (\<forall>k i. indexes st k = Some i \<longrightarrow> indexes st' k = Some i) \<and>
     (\<forall>j < length (entries st). entry_value (entries st' ! j) = entry_value (entries st ! j)
        \<and> flags (entries st' ! j) AND symDefined = flags (entries st ! j) AND symDefined)"

lemma grows_refl [simp]: "grows st st"
  by (simp add: grows_def)

lemma grows_trans: "grows a b \<Longrightarrow> grows b c \<Longrightarrow> grows a c"
  by (simp add: grows_def)

lemma grows_index: "grows a b \<Longrightarrow> indexes a k = Some i \<Longrightarrow> indexes b k = Some i"
  by (simp add: grows_def)

lemma Get_grows:
  assumes "sym_ok a" "grows a b" "indexes a k \<noteq> None" shows "Get k b = Get k a"
proof -
  obtain i where i: "indexes a k = Some i" "unat i < length (entries a)" using assms(1,3) sym_okD by blast
  then show ?thesis using assms(2) by (simp add: Get_def grows_def)
qed

section \<open>Creating symbols\<close>

lemma unat_index: "n < MaxSymbols \<Longrightarrow> unat (of_nat n :: u16) = n"
  by (simp add: MaxSymbols_def unsigned_of_nat take_bit_nat_eq_self_iff)

definition created :: "string \<Rightarrow> u16 \<Rightarrow> u16 \<Rightarrow> SymbolTable \<Rightarrow> SymbolTable" where
  "created k fl v st = st\<lparr>entries := entries st @ [\<lparr>flags = fl, entry_value = v\<rparr>],
     indexes := (indexes st)(k := Some (of_nat (length (entries st))))\<rparr>"

lemma internalCreateSymbol_room:
  "length (entries st) < MaxSymbols \<Longrightarrow>
   internalCreateSymbol k fl v st = ((of_nat (length (entries st)), None), created k fl v st)"
  by (simp add: internalCreateSymbol_def created_def Let_def)

lemma created_ok:
  assumes "sym_ok st" "length (entries st) < MaxSymbols" "indexes st k = None"
  shows "sym_ok (created k fl v st)"
proof -
  have "indexes st k' \<noteq> Some (of_nat (length (entries st)))" for k'
    using sym_okD [OF assms(1), of k' "of_nat (length (entries st))"] unat_index [OF assms(2)] by auto
  then show ?thesis using assms unat_index [OF assms(2)] by (auto simp: sym_ok_def created_def intro: less_SucI)
qed

lemma created_grows: "indexes st k = None \<Longrightarrow> grows st (created k fl v st)"
  by (auto simp: grows_def created_def nth_append)

section \<open>The operations\<close>

lemma Use_cases:
  "sym_ok st \<Longrightarrow>
   (if indexes st k = None \<and> length (entries st) = MaxSymbols then Use k st = ((NoSymbol, Some ''symbol table overflow''), st)
    else \<exists>i st'. Use k st = ((i, None), st') \<and> sym_ok st' \<and> grows st st' \<and> indexes st' k = Some i
      \<and> length (entries st') \<le> Suc (length (entries st)))"
proof (cases "indexes st k")
  case None
  assume ok: "sym_ok st"
  show ?thesis
  proof (cases "length (entries st) = MaxSymbols")
    case True
    then show ?thesis using None by (simp add: Use_def internalCreateSymbol_def)
  next
    case False
    then have "length (entries st) < MaxSymbols" using sym_ok_len [OF ok] by simp
    then have "Use k st = ((of_nat (length (entries st)), None), created k 0 NoValue st)" "sym_ok (created k 0 NoValue st)"
      using None ok by (simp_all add: Use_def internalCreateSymbol_room created_ok)
    then show ?thesis using False created_grows [OF None, of 0 NoValue] by (simp add: created_def)
  qed
qed (simp add: Use_def)

lemma Define_total: "sym_ok st \<Longrightarrow> \<exists>r st'. Define k v st = Inr (r, st') \<and> sym_ok st' \<and> grows st st'"
proof (cases "indexes st k")
  case None
  assume ok: "sym_ok st"
  show ?thesis
  proof (cases "length (entries st) = MaxSymbols")
    case True
    then show ?thesis using None ok by (simp add: Define_def internalCreateSymbol_def)
  next
    case False
    then have "length (entries st) < MaxSymbols" using sym_ok_len [OF ok] by simp
    then show ?thesis using None ok by (simp add: Define_def internalCreateSymbol_room created_ok created_grows)
  qed
next
  case (Some i)
  assume "sym_ok st"
  then show ?thesis using Some sym_okD [of st k i] by (simp add: Define_def Let_def)
qed

lemma Define_new:
  assumes "sym_ok st" "indexes st k = None" "length (entries st) < MaxSymbols"
  shows "\<exists>i st'. Define k v st = Inr ((i, None), st') \<and> sym_ok st' \<and> grows st st' \<and> Get k st' = Inr (v, i, None)
    \<and> length (entries st') = Suc (length (entries st)) \<and> dom (indexes st') = insert k (dom (indexes st))"
  using assms created_ok [of st k symDefined v] created_grows [of st k symDefined v] internalCreateSymbol_room [of st k symDefined v]
    unat_index [of "length (entries st)"]
  by (simp add: Define_def Get_def) (simp add: created_def symDefined_def)

text \<open>A forward reference.\<close>

lemma Define_used:
  assumes "indexes st k = Some i" "unat i < length (entries st)" "flags (entries st ! unat i) AND symDefined = 0"
  shows "Define k v st = Inr ((i, None), st)"
  using assms by (simp add: Define_def Let_def)

lemma Negate_ok:
  assumes "sym_ok st" "unat i < length (entries st)"
  shows "\<exists>st'. Negate i st = Inr st' \<and> sym_ok st' \<and> grows st st' \<and> indexes st' = indexes st \<and> length (entries st') = length (entries st)"
proof -
  have "(x OR symNegated) AND symDefined = x AND symDefined" for x
    by (simp add: symNegated_def symDefined_def bit.conj_disj_distrib2)
  then show ?thesis using assms by (simp add: Negate_def sym_ok_def grows_def nth_list_update)
qed

lemma Get_total: "sym_ok st \<Longrightarrow> \<exists>r. Get k st = Inr r"
  using sym_okD [of st k] by (simp add: Get_def split: option.split)

section \<open>The table as an interner\<close>

definition use_sym :: "string \<Rightarrow> SymbolTable \<Rightarrow> string + (u16 \<times> SymbolTable)" where
  "use_sym k st = (case Use k st of ((i, None), st') \<Rightarrow> Inr (i, st') | ((_, Some e), _) \<Rightarrow> Inl e)"

lemma use_sym_spec: "sym_ok st \<Longrightarrow> use_sym k st = Inr (i, st') \<Longrightarrow>
    sym_ok st' \<and> grows st st' \<and> indexes st' k = Some i \<and> length (entries st') \<le> Suc (length (entries st))"
  using Use_cases [of st k] by (auto simp: use_sym_def split: if_splits)

lemma use_sym_room: "sym_ok st \<Longrightarrow> length (entries st) < MaxSymbols \<Longrightarrow> \<exists>i st'. use_sym k st = Inr (i, st')"
  using Use_cases [of st k] by (auto simp: use_sym_def)

interpretation names: interner use_sym "\<lambda>st i k. indexes st k = Some i" sym_ok "\<lambda>_. True"
  by unfold_locales (auto dest: use_sym_spec grows_index sym_ok_inj)

lemma use_all_room:
  "sym_ok st \<Longrightarrow> length (entries st) + length ks \<le> MaxSymbols \<Longrightarrow> \<exists>ixs st'. enter_all use_sym ks st = Inr (ixs, st')"
proof (induction ks arbitrary: st)
  case (Cons k ks)
  then obtain i st1 where 1: "use_sym k st = Inr (i, st1)" using use_sym_room [of st k] by auto
  then show ?case using Cons use_sym_spec [OF Cons.prems(1) 1] by fastforce
qed simp

section \<open>The initial table\<close>

definition reserved :: "(string \<times> u16) list" where
  "reserved = map (\<lambda>i. (reg_name i, of_nat i)) [0..<8] @ map (\<lambda>k. (name k, signature k)) KeyTable"

lemma create_all_append: "create_all (a @ b) st = create_all b (create_all a st)"
  by (induction a st rule: create_all.induct) auto

lemma MakeSymbolTable_reserved: "MakeSymbolTable = create_all reserved \<lparr>indexes = \<lambda>_. None, entries = []\<rparr>"
  by (simp add: MakeSymbolTable_def reserved_def create_all_append Let_def)

lemma create_all_spec:
  assumes "sym_ok st" "distinct (map fst ls)" "\<forall>n \<in> fst ` set ls. indexes st n = None"
    "length (entries st) + length ls \<le> MaxSymbols"
  shows "sym_ok (create_all ls st) \<and> grows st (create_all ls st)
    \<and> dom (indexes (create_all ls st)) = dom (indexes st) \<union> fst ` set ls
    \<and> length (entries (create_all ls st)) = length (entries st) + length ls
    \<and> (\<forall>i < length ls. Get (fst (ls ! i)) (create_all ls st) = Inr (snd (ls ! i), of_nat (length (entries st) + i), None))"
  using assms
proof (induction ls st rule: create_all.induct)
  case (2 n v ls st)
  let ?st = "created n symDefined v st"
  have c: "internalCreateSymbol n symDefined v st = ((of_nat (length (entries st)), None), ?st)"
    using 2 internalCreateSymbol_room by simp
  have ok: "sym_ok ?st" "grows st ?st" using 2 created_ok created_grows by simp_all
  have len: "length (entries ?st) = Suc (length (entries st))" "dom (indexes ?st) = insert n (dom (indexes st))"
    by (auto simp: created_def)
  have g: "Get n ?st = Inr (v, of_nat (length (entries st)), None)"
    using 2 unat_index [of "length (entries st)"] by (simp add: Get_def created_def symDefined_def)
  have f: "\<forall>m \<in> fst ` set ls. indexes ?st m = None" using 2(3,4) by (auto simp: created_def)
  have "distinct (map fst ls)" "length (entries ?st) + length ls \<le> MaxSymbols" using 2(3,5) len(1) by simp_all
  note ih = 2(1) [unfolded c snd_conv, OF ok(1) this(1) f this(2)]
  have "Get n (create_all ls ?st) = Inr (v, of_nat (length (entries st)), None)"
    using Get_grows [OF ok(1), of "create_all ls ?st" n] ih g len(2) by (metis domIff insertI1)
  moreover have "grows st (create_all ls ?st)" using ih ok(2) grows_trans by blast
  moreover have "Get (fst (((n, v) # ls) ! i)) (create_all ls ?st) = Inr (snd (((n, v) # ls) ! i), of_nat (length (entries st) + i), None)"
    if "i < length ((n, v) # ls)" for i
    using that ih calculation(1) len(1) by (cases i) simp_all
  ultimately show ?case using ih len by (simp add: c)
qed simp

lemma reserved_eval:
  "map fst reserved = [''r0'', ''r1'', ''r2'', ''r3'', ''r4'', ''r5'', ''r6'', ''r7''] @ map name KeyTable"
  by (simp add: reserved_def reg_name_def upt_rec comp_def char_of_def bit_Suc_0_iff)

lemma reserved_distinct: "distinct (map fst reserved)" and reserved_length: "length reserved = 54"
  unfolding reserved_eval by (simp_all add: KeyTable_def key_entry_def) (simp_all add: reserved_def KeyTable_def)

lemma empty_ok: "sym_ok \<lparr>indexes = \<lambda>_. None, entries = []\<rparr>"
  by (simp add: sym_ok_def)

lemma MakeSymbolTable_spec:
  "sym_ok MakeSymbolTable" "dom (indexes MakeSymbolTable) = fst ` set reserved" "length (entries MakeSymbolTable) = 54"
  "i < 54 \<Longrightarrow> Get (fst (reserved ! i)) MakeSymbolTable = Inr (snd (reserved ! i), of_nat i, None)"
  unfolding MakeSymbolTable_reserved
  using create_all_spec [OF empty_ok reserved_distinct] by (simp_all add: reserved_length MaxSymbols_def)

lemma Get_index: "Get k st = Inr (v, i, None) \<Longrightarrow> indexes st k = Some i"
  by (auto simp: Get_def bindE_Inr_iff split: option.splits if_splits)

text \<open>A mnemonic in every table that grew out of the initial one.\<close>

lemma Get_mnemonic:
  assumes "e \<in> set KeyTable" "grows MakeSymbolTable st"
  shows "\<exists>i. Get (name e) st = Inr (signature e, i, None)"
proof -
  have "(name e, signature e) \<in> set reserved" using assms(1) by (auto simp: reserved_def)
  then obtain i where "i < 54" "reserved ! i = (name e, signature e)" by (auto simp: in_set_conv_nth reserved_length)
  then have g: "Get (name e) MakeSymbolTable = Inr (signature e, of_nat i, None)" using MakeSymbolTable_spec(4) [of i] by simp
  then have "indexes MakeSymbolTable (name e) \<noteq> None" using Get_index by simp
  with g show ?thesis using Get_grows [OF MakeSymbolTable_spec(1) assms(2)] by simp
qed

end
