(* ===== verification/Asm_Tree.thy ===== *)
theory Asm_Tree
  imports Asm_Scan Asm_Table
begin

text \<open>
  The parser of the first assembler: it never panics and ends on every input that ends, and it gives the
  instructions of every well-formed program.
\<close>

section \<open>The parser as a fold over tokens\<close>

text \<open>The token that \<open>doBetweenLines\<close> gives back goes to \<open>doNeedKey\<close>.\<close>

definition pstep :: "Token \<Rightarrow> parserContext \<Rightarrow> panic + parserContext" where
  "pstep t ctx =
     (let ctx = (if state ctx = StBetweenLines \<and> Kind t = TkSymbol then ctx\<lparr>state := StNeedKey\<rparr> else ctx) in
      bindE (parserFunctionMap (state ctx) ctx t)
        (\<lambda>(_, ctx). Inr (if Kind t = TkNewline then ctx\<lparr>srcLine := srcLine ctx + 1\<rparr> else ctx)))"

fun prun :: "Token list \<Rightarrow> parserContext \<Rightarrow> panic + parserContext" where
  "prun [] ctx = Inr ctx"
| "prun (t # ts) ctx = bindE (pstep t ctx) (prun ts)"

lemma prun_append: "prun (a @ b) ctx = bindE (prun a ctx) (prun b)"
  by (induction a arbitrary: ctx) (auto simp: bindE_assoc bindE_def split: sum.split)

lemma consumes:
  "\<not> (state ctx = StBetweenLines \<and> Kind t = TkSymbol) \<Longrightarrow> parserFunctionMap (state ctx) ctx t = Inr (c, ctx') \<Longrightarrow> c"
  by (auto simp: parserFunctionMap_def doError_def doBetweenLines_def doNeedKey_def doNeedExpression_def doNeedNewline_def
      Let_def bindE_Inr_iff split: parserState.splits TokenKindType.splits if_splits prod.splits option.splits sum.splits)

lemma pstep_plain:
  "\<not> (state ctx = StBetweenLines \<and> Kind t = TkSymbol) \<Longrightarrow> pstep t ctx = bindE (parserFunctionMap (state ctx) ctx t)
      (\<lambda>(_, ctx). Inr (if Kind t = TkNewline then ctx\<lparr>srcLine := srcLine ctx + 1\<rparr> else ctx))"
  by (simp only: pstep_def Let_def if_False)

lemma parse_token_pstep:
  assumes "\<not> (state ctx = StBetweenLines \<and> Kind t = TkSymbol)" "Kind t \<noteq> TkError"
  shows "parse_token t lx ctx = bindE (pstep t ctx) (\<lambda>ctx. Inr (lx, ctx))"
proof (cases "parserFunctionMap (state ctx) ctx t")
  case (Inr r)
  then show ?thesis using consumes [OF assms(1), of "fst r" "snd r"] assms(2)
    by (simp add: pstep_plain [OF assms(1)] parse_token_def Let_def case_prod_beta)
qed (simp add: pstep_plain [OF assms(1)] parse_token_def assms(2))

lemma asm_loop_step:
  assumes "GetToken lx = Inr (t, lx1)" "Kind t \<noteq> TkEOF" "parse_token t lx1 ctx = Inr (lx2, ctx2)"
  shows "asm_loop lx ctx = asm_loop lx2 ctx2"
  by (subst asm_loop.simps) (simp add: assms)

lemma asm_loop_eof: "GetToken lx = Inr (t, lx1) \<Longrightarrow> Kind t = TkEOF \<Longrightarrow> asm_loop lx ctx = Some (Inr (lx1, ctx))"
  by (subst asm_loop.simps) simp

lemma parse_token_symbol:
  assumes "state ctx = StBetweenLines" "Kind t = TkSymbol" "spot stBetween s lx"
  shows "parse_token t lx ctx = Inr (lx\<lparr>pbToken := Some t\<rparr>, ctx\<lparr>state := StNeedKey\<rparr>)"
  using assms by (simp add: parse_token_def parserFunctionMap_def doBetweenLines_def Unget_def spot_def)

lemma GetToken_pushed:
  "lexerState lx = stBetween \<Longrightarrow> pbToken lx = Some t \<Longrightarrow> GetToken lx = Inr (t, lx\<lparr>pbToken := None\<rparr>)"
  by (simp add: GetToken_def internalGetToken_def)

lemma asm_loop_pstep:
  assumes "GetToken lx = Inr (t, lx1)" "spot stBetween s lx1" "Kind t \<noteq> TkEOF" "Kind t \<noteq> TkError" "pstep t ctx = Inr ctx'"
  shows "asm_loop lx ctx = asm_loop lx1 ctx'"
proof (cases "state ctx = StBetweenLines \<and> Kind t = TkSymbol")
  case True
  let ?ctx = "ctx\<lparr>state := StNeedKey\<rparr>" and ?lx = "lx1\<lparr>pbToken := Some t\<rparr>"
  have "asm_loop lx ctx = asm_loop ?lx ?ctx"
    using asm_loop_step [OF assms(1,3)] parse_token_symbol [OF _ _ assms(2)] True by simp
  moreover have "GetToken ?lx = Inr (t, lx1)"
    using assms(2) GetToken_pushed [of ?lx t] by (cases lx1) (simp add: spot_def)
  moreover have "pstep t ?ctx = Inr ctx'" using assms(5) True by (simp add: pstep_def)
  then have "parse_token t lx1 ?ctx = Inr (lx1, ctx')" using parse_token_pstep [of ?ctx t lx1] assms(4) by simp
  ultimately show ?thesis using asm_loop_step [OF _ assms(3)] by metis
next
  case False
  then show ?thesis using asm_loop_step [OF assms(1,3)] parse_token_pstep [OF False assms(4)] assms(5) by simp
qed

lemma wf_token_kind: "wf_token t \<Longrightarrow> Kind t \<noteq> TkEOF \<and> Kind t \<noteq> TkError"
  by (cases t) auto

lemma asm_loop_layout:
  "spot stBetween (layout gts) lx \<Longrightarrow> laid_out gts \<Longrightarrow> prun (map snd gts) ctx = Inr ctx' \<Longrightarrow>
   \<exists>lx'. asm_loop lx ctx = Some (Inr (lx', ctx'))"
proof (induction gts arbitrary: lx ctx)
  case Nil
  then show ?case using asm_loop_eof [OF GetToken_end] by (simp add: eofToken_def)
next
  case (Cons gt gts)
  obtain g t where gt: "gt = (g, t)" by (cases gt)
  obtain lx1 where 1: "GetToken lx = Inr (t, lx1)" "spot stBetween (layout gts) lx1"
    using GetToken_layout Cons.prems gt by blast
  obtain ctx1 where 2: "pstep t ctx = Inr ctx1" "prun (map snd gts) ctx1 = Inr ctx'"
    using Cons.prems(3) gt by (auto simp: bindE_Inr_iff)
  have "asm_loop lx ctx = asm_loop lx1 ctx1"
    using asm_loop_pstep [OF 1 _ _ 2(1)] wf_token_kind Cons.prems(2) gt by auto
  then show ?case using Cons.IH [OF 1(2) _ 2(2)] Cons.prems(2) gt by simp
qed

section \<open>Invariant\<close>

definition pbase :: "parserContext \<Rightarrow> bool" where
  "pbase ctx \<longleftrightarrow> sym_ok (symtab ctx) \<and> unat (dot ctx) \<le> length (instructions ctx) \<and>
     list_all (\<lambda>mi. length (parts mi) = 4) (instructions ctx) \<and> (errorCount ctx = 0 \<longleftrightarrow> stderr ctx = [])"

definition pinv :: "parserContext \<Rightarrow> bool" where
  "pinv ctx \<longleftrightarrow> pbase ctx \<and>
     (state ctx = StNeedExpression \<or> state ctx = StNeedNewline \<longrightarrow> unat (dot ctx) < length (instructions ctx)) \<and>
     (state ctx = StNeedExpression \<longrightarrow> 1 \<le> unat (opindex ctx) \<and> unat (opindex ctx) \<le> unat (numoperands ctx) \<and> unat (numoperands ctx) \<le> 3)"

definition handled :: "panic + (bool \<times> parserContext) \<Rightarrow> bool" where
  "handled r \<longleftrightarrow> (case r of Inl _ \<Rightarrow> False | Inr (_, ctx) \<Rightarrow> pinv ctx)"

lemma report_simps [simp]:
  "instructions (report ctx m) = instructions ctx" "symtab (report ctx m) = symtab ctx" "state (report ctx m) = StError"
  "dot (report ctx m) = dot ctx" "errorCount (report ctx m) = Suc (errorCount ctx)" "stderr (report ctx m) \<noteq> []"
  "srcPath (report ctx m) = srcPath ctx"
  by (simp_all add: report_def)

lemma report_inv: "pbase ctx \<Longrightarrow> pbase (report ctx m)" "pbase ctx \<Longrightarrow> pinv (report ctx m)"
  by (simp_all add: pbase_def pinv_def)

lemma pbase_cong:
  "pbase ctx \<Longrightarrow> symtab ctx' = symtab ctx \<Longrightarrow> dot ctx' = dot ctx \<Longrightarrow> instructions ctx' = instructions ctx \<Longrightarrow>
   errorCount ctx' = errorCount ctx \<Longrightarrow> stderr ctx' = stderr ctx \<Longrightarrow> pbase ctx'"
  by (simp add: pbase_def)

lemma doError_inv: "pbase ctx \<Longrightarrow> state ctx = StError \<Longrightarrow> handled (doError ctx t)"
  by (simp add: doError_def handled_def pinv_def pbase_def)

lemma doBetweenLines_inv:
  assumes "pbase ctx" "state ctx = StBetweenLines" shows "handled (doBetweenLines ctx t)"
proof (cases "Kind t")
  case TkLabel
  obtain i e st where d: "Define (Text t) (dot ctx) (symtab ctx) = Inr ((i, e), st)" "sym_ok st"
    using Define_total assms(1) by (metis pbase_def surj_pair)
  then have b: "pbase (ctx\<lparr>symtab := st\<rparr>)" using assms(1) by (simp add: pbase_def)
  then have "pbase (case e of Some e \<Rightarrow> report (ctx\<lparr>symtab := st\<rparr>) e | None \<Rightarrow> ctx\<lparr>symtab := st\<rparr>)"
    by (cases e) (simp_all add: report_inv)
  then show ?thesis using d TkLabel by (simp add: doBetweenLines_def handled_def Let_def pinv_def pbase_def)
qed (use assms report_inv(2) [OF assms(1)] in \<open>simp_all add: doBetweenLines_def handled_def\<close>, simp_all add: pinv_def pbase_def)

lemma set_part_in:
  assumes "unat (dot ctx) < length (instructions ctx)" "list_all (\<lambda>mi. length (parts mi) = 4) (instructions ctx)" "unat i < 4"
  shows "set_part i v ctx = Inr (ctx\<lparr>instructions := (instructions ctx)[unat (dot ctx) :=
    (instructions ctx ! unat (dot ctx))\<lparr>parts := (parts (instructions ctx ! unat (dot ctx)))[unat i := v]\<rparr>]\<rparr>)"
  using assms by (simp add: set_part_def list_all_length)

lemma set_part_base:
  assumes "pbase ctx" "unat (dot ctx) < length (instructions ctx)" "unat i < 4"
  shows "\<exists>is. set_part i v ctx = Inr (ctx\<lparr>instructions := is\<rparr>) \<and> length is = length (instructions ctx) \<and> pbase (ctx\<lparr>instructions := is\<rparr>)"
  using assms set_part_in [of ctx i v]
  by (intro exI [of _ "(instructions ctx)[unat (dot ctx) :=
      (instructions ctx ! unat (dot ctx))\<lparr>parts := (parts (instructions ctx ! unat (dot ctx)))[unat i := v]\<rparr>]"])
     (simp add: pbase_def list_all_length nth_list_update)

lemma numOperands_le: "unat (numOperands s) \<le> 3"
  by (simp add: numOperands_def)

lemma doNeedKey_inv:
  assumes "pbase ctx" "state ctx = StNeedKey" shows "handled (doNeedKey ctx t)"
proof (cases "Kind t = TkSymbol")
  case True
  obtain sg index err where g: "Get (Text t) (symtab ctx) = Inr (sg, index, err)"
    using Get_total assms(1) by (metis pbase_def surj_pair)
  show ?thesis
  proof (cases err)
    case None
    let ?ctx = "ctx\<lparr>instructions := instructions ctx @ [\<lparr>parts = [0, 0, 0, 0]\<rparr>]\<rparr>"
    have "pbase ?ctx" using assms(1) by (simp add: pbase_def)
    moreover have "unat (dot ?ctx) < length (instructions ?ctx)" using assms(1) by (simp add: pbase_def)
    ultimately obtain "is" where i: "set_part Key index ?ctx = Inr (?ctx\<lparr>instructions := is\<rparr>)"
      "length is = length (instructions ?ctx)" "pbase (?ctx\<lparr>instructions := is\<rparr>)"
      using set_part_base [of ?ctx Key index] by (auto simp: Key_def)
    have "unat (dot ctx) < length is" using i(2) assms(1) by (simp add: pbase_def)
    then show ?thesis using i True g None numOperands_le [of sg]
      by (simp add: doNeedKey_def handled_def Let_def pinv_def pbase_def Ra_def word_less_nat_alt)
  qed (use True g report_inv(2) [OF assms(1)] in \<open>simp add: doNeedKey_def handled_def\<close>)
qed (use report_inv(2) [OF assms(1)] in \<open>simp add: doNeedKey_def handled_def\<close>)

lemma unat_inc: "unat ((w :: u16) + 1) = Suc (unat w) mod 65536"
  by (simp add: unat_word_ariths)

lemma unat_inc_le: "unat (w :: u16) < n \<Longrightarrow> unat (w + 1) \<le> n"
  using mod_less_eq_dividend [of "Suc (unat w)" 65536] by (simp add: unat_inc del: mod_less_eq_dividend)

lemma next_operand_inv:
  assumes "pinv ctx" "state ctx = StNeedExpression" shows "pinv (next_operand ctx)"
proof -
  have "unat (opindex ctx + 1) = Suc (unat (opindex ctx))" using assms by (auto simp: pinv_def unat_inc)
  then show ?thesis using assms
    by (simp add: next_operand_def Let_def pinv_def pbase_def word_less_nat_alt)
qed

lemma operand_inv:
  assumes "pinv ctx" "state ctx = StNeedExpression"
  shows "handled (bindE (set_part (opindex ctx) v ctx) (\<lambda>ctx. Inr (True, next_operand ctx)))"
proof -
  have "pbase ctx" "unat (dot ctx) < length (instructions ctx)" "unat (opindex ctx) < 4" using assms by (auto simp: pinv_def)
  from set_part_base [OF this, of v] obtain "is" where i: "set_part (opindex ctx) v ctx = Inr (ctx\<lparr>instructions := is\<rparr>)"
    "length is = length (instructions ctx)" "pbase (ctx\<lparr>instructions := is\<rparr>)" by blast
  then have "pinv (ctx\<lparr>instructions := is\<rparr>)" using assms by (simp add: pinv_def)
  then show ?thesis using i(1) next_operand_inv assms(2) by (simp add: handled_def)
qed

lemma operand_symbol_inv:
  assumes "pinv ctx" "state ctx = StNeedExpression" "sym_ok st" "unat index < length (entries st)"
  shows "handled (bindE (if \<not> positive ctx then bindE (Negate index st) (\<lambda>st. Inr (ctx\<lparr>symtab := st\<rparr>)) else Inr (ctx\<lparr>symtab := st\<rparr>))
    (\<lambda>ctx. bindE (set_part (opindex ctx) index ctx) (\<lambda>ctx. Inr (True, next_operand ctx))))"
proof -
  have i: "pinv (ctx\<lparr>symtab := st'\<rparr>)" if "sym_ok st'" for st' using assms(1) that by (simp add: pinv_def pbase_def)
  obtain st' where n: "Negate index st = Inr st'" "sym_ok st'" using Negate_ok [OF assms(3,4)] by blast
  have "handled (bindE (set_part (opindex c) index c) (\<lambda>ctx. Inr (True, next_operand ctx)))"
    if "c = ctx\<lparr>symtab := st\<rparr> \<or> c = ctx\<lparr>symtab := st'\<rparr>" for c
    using operand_inv [of c index] that i assms(2,3) n(2) by auto
  from this [of "ctx\<lparr>symtab := st\<rparr>"] this [of "ctx\<lparr>symtab := st'\<rparr>"] show ?thesis
    using n(1) by (cases "positive ctx") simp_all
qed

lemma doNeedExpression_inv:
  assumes "pinv ctx" "state ctx = StNeedExpression" shows "handled (doNeedExpression ctx t)"
proof (cases "Kind t")
  case TkSymbol
  have ok: "sym_ok (symtab ctx)" and b: "pbase ctx" using assms(1) by (simp_all add: pinv_def pbase_def)
  show ?thesis
  proof (cases "indexes (symtab ctx) (Text t) = None \<and> length (entries (symtab ctx)) = MaxSymbols")
    case True
    have "ctx\<lparr>symtab := symtab ctx\<rparr> = ctx" by simp
    then show ?thesis using TkSymbol Use_cases [OF ok, of "Text t"] True report_inv(2) [OF b]
      by (simp add: doNeedExpression_def handled_def Let_def)
  next
    case False
    then obtain i st where u: "Use (Text t) (symtab ctx) = ((i, None), st)" "sym_ok st" "indexes st (Text t) = Some i"
      using Use_cases [OF ok, of "Text t"] by (auto split: if_splits)
    then show ?thesis using TkSymbol operand_symbol_inv [OF assms u(2) sym_okD [OF u(2,3)]]
      by (cases "positive ctx") (simp_all add: doNeedExpression_def Let_def)
  qed
next
  case TkNumber
  have b: "pbase ctx" using assms(1) by (simp add: pinv_def)
  show ?thesis using TkNumber operand_inv [OF assms] report_inv(2) [OF b]
    by (cases "ParseInt (Text t)") (simp_all add: doNeedExpression_def Let_def, simp add: handled_def)
next
  case TkOperator
  have b: "pbase ctx" using assms(1) by (simp add: pinv_def)
  then show ?thesis using TkOperator assms report_inv(2) [OF b] by (auto simp: doNeedExpression_def handled_def pinv_def pbase_def)
qed (use assms report_inv(2) [of ctx] in \<open>simp_all add: doNeedExpression_def handled_def pinv_def\<close>)

lemma doNeedNewline_inv:
  assumes "pinv ctx" "state ctx = StNeedNewline" shows "handled (doNeedNewline ctx t)"
proof -
  let ?ctx = "if Kind t \<noteq> TkNewline then report ctx (''unexpected at end of line: '' @ Text t) else ctx"
  have "pbase ?ctx" "unat (dot ?ctx) < length (instructions ?ctx)"
    using assms report_inv(1) [of ctx] by (auto simp: pinv_def)
  then show ?thesis using unat_inc_le [of "dot ?ctx" "length (instructions ?ctx)"]
    by (simp only: doNeedNewline_def Let_def handled_def) (simp add: pinv_def pbase_def)
qed

lemma handler_inv: "pinv ctx \<Longrightarrow> handled (parserFunctionMap (state ctx) ctx t)"
  by (cases "state ctx") (auto simp: parserFunctionMap_def doNeedExpression_inv doNeedNewline_inv
      intro: doError_inv doBetweenLines_inv doNeedKey_inv simp: pinv_def)

section \<open>The loop ends\<close>

text \<open>What holds before every turn of the loop: at most one token is pushed back, and the parser then waits for a key.\<close>

definition turn :: "Lexer \<Rightarrow> parserContext \<Rightarrow> bool" where
  "turn lx ctx \<longleftrightarrow> calm lx \<and> pinv ctx \<and>
     (case pbToken lx of None \<Rightarrow> True
      | Some t \<Rightarrow> Kind t = TkSymbol \<and> lexerState lx = stBetween \<and> state ctx = StNeedKey)"

definition pending :: "Lexer \<Rightarrow> nat" where
  "pending lx = 2 * length (rest lx) + (if pbToken lx = None then 0 else 1)"

lemma pinv_line: "pinv (ctx\<lparr>srcLine := n\<rparr>) \<longleftrightarrow> pinv ctx"
  by (simp add: pinv_def pbase_def)

lemma pstep_inv:
  assumes "pinv ctx" "\<not> (state ctx = StBetweenLines \<and> Kind t = TkSymbol)"
  shows "\<exists>ctx'. pstep t ctx = Inr ctx' \<and> pinv ctx'"
proof -
  have "handled (parserFunctionMap (state ctx) ctx t)" using handler_inv [OF assms(1)] .
  then obtain c ctx' where "parserFunctionMap (state ctx) ctx t = Inr (c, ctx')" "pinv ctx'"
    by (auto simp: handled_def split: sum.splits)
  then show ?thesis using pinv_line by (simp add: pstep_plain [OF assms(2)])
qed

definition turns_to :: "Lexer \<Rightarrow> parserContext \<Rightarrow> Lexer \<Rightarrow> parserContext \<Rightarrow> bool" where
  "turns_to lx ctx lx2 ctx2 \<longleftrightarrow>
     (\<exists>t lx1. GetToken lx = Inr (t, lx1) \<and> Kind t \<noteq> TkEOF \<and> parse_token t lx1 ctx = Inr (lx2, ctx2))"

lemma turns_to_loop: "turns_to lx ctx lx2 ctx2 \<Longrightarrow> asm_loop lx ctx = asm_loop lx2 ctx2"
  using asm_loop_step by (auto simp: turns_to_def)

lemma turn_pushed:
  assumes "turn lx ctx" "pbToken lx = Some t"
  shows "\<exists>ctx'. turns_to lx ctx (lx\<lparr>pbToken := None\<rparr>) ctx' \<and> turn (lx\<lparr>pbToken := None\<rparr>) ctx'"
proof -
  have t: "Kind t = TkSymbol" "lexerState lx = stBetween" "state ctx = StNeedKey" "pinv ctx" using assms by (simp_all add: turn_def)
  obtain ctx' where p: "pstep t ctx = Inr ctx'" "pinv ctx'" using pstep_inv [of ctx t] t by auto
  have "parse_token t (lx\<lparr>pbToken := None\<rparr>) ctx = Inr (lx\<lparr>pbToken := None\<rparr>, ctx')"
    using parse_token_pstep [of ctx t] t p(1) by simp
  then have "turns_to lx ctx (lx\<lparr>pbToken := None\<rparr>) ctx'"
    using GetToken_pushed [OF t(2) assms(2)] t(1) by (simp add: turns_to_def)
  then show ?thesis using p(2) t(2) by (auto simp: turn_def calm_def)
qed

lemma turn_parse:
  assumes "pinv ctx" "calm lx" "pbToken lx = None" "Kind t = TkSymbol \<longrightarrow> lexerState lx = stBetween"
  shows "\<exists>lx2 ctx2. parse_token t lx ctx = Inr (lx2, ctx2) \<and> turn lx2 ctx2 \<and> reader lx2 = reader lx \<and> lexerState lx2 = lexerState lx"
proof -
  consider (error) "Kind t = TkError" | (symbol) "state ctx = StBetweenLines" "Kind t = TkSymbol"
    | (other) "\<not> (state ctx = StBetweenLines \<and> Kind t = TkSymbol)" "Kind t \<noteq> TkError" by blast
  then show ?thesis
  proof cases
    case error
    have "pinv ((report ctx (Text t))\<lparr>state := StError\<rparr>)" using assms(1) by (simp add: pinv_def pbase_def)
    then show ?thesis using error assms by (simp add: parse_token_def turn_def)
  next
    case symbol
    have "parse_token t lx ctx = Inr (lx\<lparr>pbToken := Some t\<rparr>, ctx\<lparr>state := StNeedKey\<rparr>)"
      using symbol assms by (simp add: parse_token_def parserFunctionMap_def doBetweenLines_def Unget_def)
    then show ?thesis using symbol assms by (simp add: turn_def calm_def pinv_def pbase_def)
  next
    case other
    obtain ctx' where "pstep t ctx = Inr ctx'" "pinv ctx'" using pstep_inv [OF assms(1) other(1)] by blast
    then show ?thesis using parse_token_pstep [OF other] assms by (simp add: turn_def)
  qed
qed

lemma turn_read:
  assumes "turn lx ctx" "pbToken lx = None"
  shows "\<exists>t lx1. GetToken lx = Inr (t, lx1) \<and> (rerr lx \<noteq> None \<and> lexerState lx \<noteq> stEnd \<longrightarrow> Kind t \<noteq> TkEOF)
    \<and> (Kind t \<noteq> TkEOF \<longrightarrow> (rerr lx = None \<longrightarrow> length (rest lx1) < length (rest lx)) \<and>
       (\<exists>lx2 ctx2. turns_to lx ctx lx2 ctx2 \<and> turn lx2 ctx2 \<and> reader lx2 = reader lx1 \<and> rerr lx2 = rerr lx
          \<and> (rerr lx \<noteq> None \<and> lexerState lx \<noteq> stEnd \<longrightarrow> lexerState lx2 \<noteq> stEnd)))"
proof -
  have "calm lx" "pinv ctx" using assms(1) by (simp_all add: turn_def)
  from GetToken_served [OF this(1) assms(2)] obtain t lx1 where s: "GetToken lx = Inr (t, lx1)" "calm lx1" "pbToken lx1 = None"
    "rerr lx1 = rerr lx" "Kind t = TkSymbol \<longrightarrow> lexerState lx1 = stBetween"
    "rerr lx \<noteq> None \<and> lexerState lx \<noteq> stEnd \<longrightarrow> Kind t \<noteq> TkEOF \<and> lexerState lx1 \<noteq> stEnd"
    "length (rest lx1) < length (rest lx) \<or> Kind t = TkEOF \<or> rerr lx \<noteq> None"
    unfolding served_def assms(2) by blast
  obtain lx2 ctx2 where "parse_token t lx1 ctx = Inr (lx2, ctx2)" "turn lx2 ctx2" "reader lx2 = reader lx1" "lexerState lx2 = lexerState lx1"
    using turn_parse [OF \<open>pinv ctx\<close> s(2,3,5)] by blast
  moreover from this(1) have "Kind t \<noteq> TkEOF \<longrightarrow> turns_to lx ctx lx2 ctx2" using s(1) by (auto simp: turns_to_def)
  ultimately show ?thesis using s(1,4,6,7) by metis
qed

lemma asm_loop_total:
  "turn lx ctx \<Longrightarrow> rerr lx = None \<Longrightarrow> \<exists>lx' ctx'. asm_loop lx ctx = Some (Inr (lx', ctx')) \<and> pinv ctx'"
proof (induction "pending lx" arbitrary: lx ctx rule: less_induct)
  case less
  show ?case
  proof (cases "pbToken lx")
    case (Some t)
    have "pending (lx\<lparr>pbToken := None\<rparr>) < pending lx" using Some by (simp add: pending_def)
    then show ?thesis using turn_pushed [OF less.prems(1) Some] less.hyps [of "lx\<lparr>pbToken := None\<rparr>"] less.prems(2) turns_to_loop by fastforce
  next
    case None
    from turn_read [OF less.prems(1) None] obtain t lx1 where g: "GetToken lx = Inr (t, lx1)"
      "Kind t \<noteq> TkEOF \<longrightarrow> length (rest lx1) < length (rest lx) \<and>
       (\<exists>lx2 ctx2. turns_to lx ctx lx2 ctx2 \<and> turn lx2 ctx2 \<and> reader lx2 = reader lx1 \<and> rerr lx2 = rerr lx)"
      using less.prems(2) by auto
    show ?thesis
    proof (cases "Kind t = TkEOF")
      case True
      then show ?thesis using asm_loop_eof [OF g(1)] less.prems(1) by (simp add: turn_def)
    next
      case False
      then obtain lx2 ctx2 where r: "turns_to lx ctx lx2 ctx2" "turn lx2 ctx2" "reader lx2 = reader lx1" "rerr lx2 = rerr lx"
        using g(2) by auto
      have "pending lx2 < pending lx" using g(2) False r(3) None by (simp add: pending_def)
      then show ?thesis using less.hyps [OF _ r(2)] r less.prems(2) turns_to_loop [OF r(1)] by simp
    qed
  qed
qed

section \<open>A read error\<close>

text \<open>After a read error the loop never ends: every turn reads the error again.\<close>

lemma turn_error:
  assumes "turn lx ctx" "rerr lx \<noteq> None" "lexerState lx \<noteq> stEnd"
  shows "\<exists>lx2 ctx2. turns_to lx ctx lx2 ctx2 \<and> turn lx2 ctx2 \<and> rerr lx2 \<noteq> None \<and> lexerState lx2 \<noteq> stEnd"
proof (cases "pbToken lx")
  case None
  from turn_read [OF assms(1) None] show ?thesis using assms(2,3) by metis
next
  case (Some t)
  obtain ctx' where "turns_to lx ctx (lx\<lparr>pbToken := None\<rparr>) ctx'" "turn (lx\<lparr>pbToken := None\<rparr>) ctx'"
    using turn_pushed [OF assms(1) Some] by blast
  then show ?thesis using assms(2,3) by (intro exI [of _ "lx\<lparr>pbToken := None\<rparr>"] exI [of _ ctx']) simp
qed

lemma asm_loop_error:
  assumes "turn lx ctx" "rerr lx \<noteq> None" "lexerState lx \<noteq> stEnd"
  shows "asm_loop lx ctx = None"
proof (rule ccontr)
  let ?stuck = "\<lambda>lx ctx. turn lx ctx \<and> rerr lx \<noteq> None \<and> lexerState lx \<noteq> stEnd"
  assume "asm_loop lx ctx \<noteq> None"
  then obtain y where "asm_loop lx ctx = Some y" by auto
  then have "\<not> ?stuck lx ctx"
  proof (rule asm_loop.raw_induct [rotated])
    fix f :: "Lexer \<Rightarrow> parserContext \<Rightarrow> (panic + (Lexer \<times> parserContext)) option" and lx ctx y
    assume h: "\<And>lx ctx y. f lx ctx = Some y \<Longrightarrow> \<not> ?stuck lx ctx"
      and b: "(case GetToken lx of Inl e \<Rightarrow> Some (Inl e) | Inr r \<Rightarrow>
          if Kind (fst r) = TkEOF then Some (Inr (snd r, ctx))
          else (case parse_token (fst r) (snd r) ctx of Inl e \<Rightarrow> Some (Inl e) | Inr q \<Rightarrow> f (fst q) (snd q))) = Some y"
    show "\<not> ?stuck lx ctx"
    proof
      assume "?stuck lx ctx"
      then obtain t lx1 lx2 ctx2 where "GetToken lx = Inr (t, lx1)" "Kind t \<noteq> TkEOF" "parse_token t lx1 ctx = Inr (lx2, ctx2)"
        and n: "?stuck lx2 ctx2" using turn_error [of lx ctx] by (auto simp: turns_to_def)
      then have "f lx2 ctx2 = Some y" using b by simp
      then show False using h n by blast
    qed
  qed
  with assms show False by simp
qed

end
