(* ===== verification/Asm_Program.thy ===== *)
theory Asm_Program
  imports Asm_Tree
begin

text \<open>
  Programs of the first assembler: the lines of a source file as data, the tokens they are written with,
  the instructions they stand for, and the proof that the parser gives these instructions.
\<close>

section \<open>Programs\<close>

text \<open>An operand is a symbol or a number behind any number of minus signs.\<close>

datatype operand = OpSymbol nat string | OpNumber nat string

datatype source_line = Blank | Line "string option" string "operand list"

definition minus_token :: Token where "minus_token = Tok ''-'' TkOperator"

fun operand_tokens :: "operand \<Rightarrow> Token list" where
  "operand_tokens (OpSymbol n s) = replicate n minus_token @ [Tok s TkSymbol]"
| "operand_tokens (OpNumber n s) = replicate n minus_token @ [Tok s TkNumber]"

definition label_tokens :: "string option \<Rightarrow> Token list" where
  "label_tokens lb = (case lb of None \<Rightarrow> [] | Some l \<Rightarrow> [Tok l TkLabel])"

fun line_tokens :: "source_line \<Rightarrow> Token list" where
  "line_tokens Blank = [nlToken]"
| "line_tokens (Line lb k ops) = label_tokens lb @ [Tok k TkSymbol] @ concat (map operand_tokens ops) @ [nlToken]"

text \<open>What an operand is in a table: the index of its symbol, or the low ten bits of its value with a mark.\<close>

fun operand_part :: "SymbolTable \<Rightarrow> operand \<Rightarrow> u16 option" where
  "operand_part st (OpSymbol n s) = indexes st s"
| "operand_part st (OpNumber n s) =
     (case ParseInt s of
        Inl _ \<Rightarrow> None
      | Inr v \<Rightarrow> Some (IsValue OR ((word_of_int (if even n then int v else - int v) :: u16) AND 0x3FF)))"

definition line_parts :: "SymbolTable \<Rightarrow> string \<Rightarrow> operand list \<Rightarrow> u16 option list" where
  "line_parts st k ops = indexes st k # map (operand_part st) ops @ replicate (3 - length ops) (Some 0)"

fun operand_names :: "operand \<Rightarrow> string list" where
  "operand_names (OpSymbol n s) = [s]" | "operand_names (OpNumber n s) = []"

definition numeric :: "operand \<Rightarrow> bool" where
  "numeric p = (case p of OpSymbol n s \<Rightarrow> True | OpNumber n s \<Rightarrow> (case ParseInt s of Inl _ \<Rightarrow> False | Inr _ \<Rightarrow> True))"

text \<open>What the parser asks of a line: a mnemonic of the table with as many operands as its signature has, of
  whatever kind they are.\<close>

fun line_ok :: "source_line \<Rightarrow> bool" where
  "line_ok Blank = True"
| "line_ok (Line lb k ops) \<longleftrightarrow>
     list_ex (\<lambda>e. name e = k \<and> length ops = unat (numOperands (signature e))) KeyTable \<and> list_all numeric ops"

section \<open>Symbol tables that evolve\<close>

definition defined_in :: "SymbolTable \<Rightarrow> string \<Rightarrow> bool" where
  "defined_in st k \<longleftrightarrow> (\<exists>i. indexes st k = Some i \<and> flags (entries st ! unat i) AND symDefined \<noteq> 0)"

definition evolves :: "SymbolTable \<Rightarrow> SymbolTable \<Rightarrow> string set \<Rightarrow> string set \<Rightarrow> nat \<Rightarrow> bool" where
  "evolves st st' D F n \<longleftrightarrow> sym_ok st' \<and> grows st st' \<and> dom (indexes st') \<subseteq> dom (indexes st) \<union> D \<and>
     (\<forall>k. defined_in st' k \<longrightarrow> defined_in st k \<or> k \<in> F) \<and> length (entries st') \<le> length (entries st) + n"

lemma evolves_refl: "sym_ok st \<Longrightarrow> evolves st st {} {} 0"
  by (simp add: evolves_def)

lemma evolves_trans:
  assumes "evolves a b D F n" "evolves b c D' F' n'" shows "evolves a c (D \<union> D') (F \<union> F') (n + n')"
  using assms grows_trans [of a b c] unfolding evolves_def by (simp, blast)

lemma evolves_mono: "evolves a b D F n \<Longrightarrow> D \<subseteq> D' \<Longrightarrow> F \<subseteq> F' \<Longrightarrow> n \<le> n' \<Longrightarrow> evolves a b D' F' n'"
  unfolding evolves_def by (auto 0 3)

lemma created_evolves:
  assumes "sym_ok st" "indexes st k = None" "length (entries st) < MaxSymbols"
  shows "evolves st (created k fl v st) {k} (if fl AND symDefined = 0 then {} else {k}) 1"
proof -
  have "defined_in (created k fl v st) x \<longleftrightarrow> (if x = k then fl AND symDefined \<noteq> 0 else defined_in st x)" for x
    using sym_okD [OF assms(1), of x] unat_index [OF assms(3)] by (auto simp: defined_in_def created_def nth_append)
  then show ?thesis using created_ok [OF assms(1,3,2)] created_grows [OF assms(2)] by (simp add: evolves_def) (auto simp: created_def)
qed

lemma Use_evolves:
  assumes "sym_ok st" "length (entries st) < MaxSymbols"
  shows "\<exists>i st'. Use k st = ((i, None), st') \<and> indexes st' k = Some i \<and> evolves st st' {k} {} 1"
proof (cases "indexes st k")
  case None
  then show ?thesis using created_evolves [OF assms(1) None assms(2), of 0 NoValue] internalCreateSymbol_room [OF assms(2)]
    by (simp add: Use_def) (simp add: created_def)
next
  case (Some i)
  then show ?thesis using evolves_mono [OF evolves_refl [OF assms(1)]] by (simp add: Use_def)
qed

lemma Define_evolves:
  assumes "sym_ok st" "length (entries st) < MaxSymbols" "\<not> defined_in st k"
  shows "\<exists>i st'. Define k v st = Inr ((i, None), st') \<and> evolves st st' {k} {k} 1 \<and> (indexes st k = None \<longrightarrow> Get k st' = Inr (v, i, None))"
proof (cases "indexes st k")
  case None
  have "symDefined AND symDefined \<noteq> 0" by (simp add: symDefined_def)
  then show ?thesis using created_evolves [OF assms(1) None assms(2), of symDefined v] None Define_new [OF assms(1) None assms(2), of v]
    internalCreateSymbol_room [OF assms(2)] by (simp add: Define_def)
next
  case (Some i)
  then show ?thesis using Define_used [OF Some sym_okD [OF assms(1) Some], of v] assms(3) evolves_mono [OF evolves_refl [OF assms(1)]]
    by (simp add: defined_in_def)
qed

lemma Negate_evolves:
  assumes "sym_ok st" "unat i < length (entries st)"
  shows "\<exists>st'. Negate i st = Inr st' \<and> indexes st' = indexes st \<and> evolves st st' {} {} 0"
proof -
  obtain st' where n: "Negate i st = Inr st'" "sym_ok st'" "grows st st'" "indexes st' = indexes st" "length (entries st') = length (entries st)"
    using Negate_ok [OF assms] by blast
  have "defined_in st' k \<Longrightarrow> defined_in st k" for k
    using n(3,4) sym_okD [OF assms(1), of k] by (auto simp: defined_in_def grows_def)
  then show ?thesis using n by (simp add: evolves_def)
qed

lemma operand_part_grows: "grows st st' \<Longrightarrow> operand_part st p \<noteq> None \<Longrightarrow> operand_part st' p = operand_part st p"
  by (cases p) (auto dest: grows_index)

lemma line_parts_grows:
  assumes "grows st st'" "map Some ps = line_parts st k ops" shows "map Some ps = line_parts st' k ops"
proof -
  have s: "x \<noteq> None" if "x \<in> set (line_parts st k ops)" for x using that unfolding assms(2) [symmetric] by auto
  have "indexes st' k = indexes st k" using s [of "indexes st k"] grows_index [OF assms(1)] by (auto simp: line_parts_def)
  moreover have "map (operand_part st') ops = map (operand_part st) ops"
    using s operand_part_grows [OF assms(1)] by (auto simp: line_parts_def)
  ultimately show ?thesis using assms(2) by (simp add: line_parts_def)
qed

section \<open>One line\<close>

text \<open>What the parsing of correct tokens leaves alone.\<close>

definition unreported :: "parserContext \<Rightarrow> parserContext \<Rightarrow> bool" where
  "unreported ctx ctx' \<longleftrightarrow> errorCount ctx' = errorCount ctx \<and> stderr ctx' = stderr ctx \<and> dot ctx' = dot ctx"

lemma unreported_trans: "unreported a b \<Longrightarrow> unreported b c \<Longrightarrow> unreported a c"
  by (simp add: unreported_def)

text \<open>In a line: behind the mnemonic and the operands \<open>ops\<close>, of \<open>n\<close> operands.\<close>

definition mid :: "MachineInstruction list \<Rightarrow> string \<Rightarrow> operand list \<Rightarrow> nat \<Rightarrow> parserContext \<Rightarrow> bool" where
  "mid is k ops n ctx \<longleftrightarrow> sym_ok (symtab ctx) \<and> unat (dot ctx) = length is \<and> positive ctx \<and>
     unat (opindex ctx) = Suc (length ops) \<and> unat (numoperands ctx) = n \<and> n \<le> 3 \<and> length ops \<le> n \<and>
     state ctx = (if length ops < n then StNeedExpression else StNeedNewline) \<and>
     (\<exists>ps. instructions ctx = is @ [\<lparr>parts = ps\<rparr>] \<and> map Some ps = line_parts (symtab ctx) k ops)"

lemma minus_run:
  "state ctx = StNeedExpression \<Longrightarrow>
   prun (replicate n minus_token) ctx = Inr (ctx\<lparr>positive := (positive ctx \<longleftrightarrow> even n)\<rparr>)"
proof (induction n arbitrary: ctx)
  case (Suc n)
  have "((\<not> positive ctx) = even n) = (positive ctx = odd n)" by auto
  then show ?case using Suc by (simp add: pstep_def minus_token_def parserFunctionMap_def doNeedExpression_def)
qed simp

lemma set_part_last:
  "instructions ctx = is @ [\<lparr>parts = ps\<rparr>] \<Longrightarrow> unat (dot ctx) = length is \<Longrightarrow> unat i < length ps \<Longrightarrow>
   set_part i v ctx = Inr (ctx\<lparr>instructions := is @ [\<lparr>parts = ps[unat i := v]\<rparr>]\<rparr>)"
  by (simp add: set_part_def)

lemma line_parts_snoc:
  assumes "map Some ps = line_parts st k ops" "length ops < 3" "operand_part st p = Some v"
  shows "map Some (ps[Suc (length ops) := v]) = line_parts st k (ops @ [p])"
proof -
  have r: "replicate (3 - length ops) (Some 0) = Some (0 :: u16) # replicate (2 - length ops) (Some 0)"
    using assms(2) by (metis Suc_diff_Suc diff_Suc_1 numeral_2_eq_2 numeral_3_eq_3 replicate_Suc diff_Suc_Suc)
  have "map Some (ps[Suc (length ops) := v]) = (line_parts st k ops)[Suc (length ops) := Some v]"
    unfolding assms(1) [symmetric] by (rule map_update)
  also have "\<dots> = line_parts st k (ops @ [p])"
    using assms(2,3) by (simp add: line_parts_def r list_update_append)
  finally show ?thesis .
qed

lemma operand_put:
  assumes "mid is k ops n ctx0" "length ops < n" "grows (symtab ctx0) st" "sym_ok st" "operand_part st p = Some v"
    "ctx = ctx0\<lparr>positive := b, symtab := st\<rparr>"
  shows "\<exists>ctx'. bindE (set_part (opindex ctx) v ctx) (\<lambda>ctx. Inr (True, next_operand ctx)) = Inr (True, ctx')
    \<and> mid is k (ops @ [p]) n ctx' \<and> symtab ctx' = st \<and> unreported ctx0 ctx'"
proof -
  obtain ps where ps: "instructions ctx0 = is @ [\<lparr>parts = ps\<rparr>]" "map Some ps = line_parts (symtab ctx0) k ops"
    using assms(1) by (auto simp: mid_def)
  have m: "unat (dot ctx) = length is" "unat (opindex ctx) = Suc (length ops)" "n \<le> 3" "unat (numoperands ctx) = n" "symtab ctx = st"
    using assms(1,6) by (simp_all add: mid_def)
  have l: "length ps = 4" using arg_cong [OF ps(2), of length] m(3) assms(2) by (simp add: line_parts_def)
  have "set_part (opindex ctx) v ctx = Inr (ctx\<lparr>instructions := is @ [\<lparr>parts = ps[Suc (length ops) := v]\<rparr>]\<rparr>)"
    using set_part_last [of ctx "is" ps "opindex ctx" v] ps(1) m l assms(2,6) by simp
  moreover have "map Some (ps[Suc (length ops) := v]) = line_parts st k (ops @ [p])"
    using line_parts_snoc [OF line_parts_grows [OF assms(3) ps(2)] _ assms(5)] m(3) assms(2) by simp
  moreover have "unat (opindex ctx + 1) = Suc (Suc (length ops))" using m(2,3) assms(2) by (simp add: unat_inc)
  ultimately show ?thesis using assms(1,2,4,6) m
    by (intro exI conjI, simp) (auto simp: mid_def next_operand_def unreported_def Let_def word_less_nat_alt)
qed

lemma operand_run:
  assumes "mid is k ops n ctx" "length ops < n" "length (entries (symtab ctx)) < MaxSymbols" "numeric p"
  shows "\<exists>ctx'. prun (operand_tokens p) ctx = Inr ctx' \<and> mid is k (ops @ [p]) n ctx' \<and> unreported ctx ctx'
    \<and> evolves (symtab ctx) (symtab ctx') (set (operand_names p)) {} 1"
proof (cases p)
  case (OpSymbol m s)
  let ?ctx = "ctx\<lparr>positive := even m\<rparr>"
  have c: "state ctx = StNeedExpression" "positive ctx" "sym_ok (symtab ctx)" using assms(1,2) by (simp_all add: mid_def)
  obtain i st where u: "Use s (symtab ctx) = ((i, None), st)" "indexes st s = Some i" "evolves (symtab ctx) st {s} {} 1"
    using Use_evolves [OF c(3) assms(3), of s] by blast
  have ok: "sym_ok st" using u(3) by (simp add: evolves_def)
  obtain st' where n: "Negate i st = Inr st'" "indexes st' = indexes st" "evolves st st' {} {} 0"
    using Negate_evolves [OF ok sym_okD [OF ok u(2)]] by blast
  define st2 where "st2 = (if even m then st else st')"
  have e: "evolves (symtab ctx) st2 {s} {} 1" "indexes st2 s = Some i"
    using u n evolves_trans [OF u(3) n(3)] by (simp_all add: st2_def)
  obtain ctx' where r: "bindE (set_part (opindex ctx) i (?ctx\<lparr>symtab := st2\<rparr>)) (\<lambda>ctx. Inr (True, next_operand ctx)) = Inr (True, ctx')"
    "mid is k (ops @ [p]) n ctx'" "symtab ctx' = st2" "unreported ctx ctx'"
    using operand_put [OF assms(1,2), of st2 p i "?ctx\<lparr>symtab := st2\<rparr>" "even m"] e OpSymbol by (auto simp: evolves_def)
  have "doNeedExpression ?ctx (Tok s TkSymbol) = Inr (True, ctx')"
    using r(1) u(1) n(1) by (cases "even m") (simp_all add: doNeedExpression_def Let_def st2_def)
  then have "pstep (Tok s TkSymbol) ?ctx = Inr ctx'" using c by (simp add: pstep_def parserFunctionMap_def)
  then show ?thesis using r e OpSymbol minus_run [OF c(1), of m] c(2) by (simp add: prun_append)
next
  case (OpNumber m s)
  let ?ctx = "ctx\<lparr>positive := even m\<rparr>"
  have c: "state ctx = StNeedExpression" "positive ctx" "sym_ok (symtab ctx)" using assms(1,2) by (simp_all add: mid_def)
  obtain x where x: "ParseInt s = Inr x" using assms(4) OpNumber by (auto simp: numeric_def split: sum.splits)
  define v where "v = IsValue OR ((word_of_int (if even m then int x else - int x) :: u16) AND 0x3FF)"
  have "?ctx = ctx\<lparr>positive := even m, symtab := symtab ctx\<rparr>" by simp
  then obtain ctx' where r: "bindE (set_part (opindex ctx) v ?ctx) (\<lambda>ctx. Inr (True, next_operand ctx)) = Inr (True, ctx')"
    "mid is k (ops @ [p]) n ctx'" "symtab ctx' = symtab ctx" "unreported ctx ctx'"
    using operand_put [OF assms(1,2), of "symtab ctx" p v ?ctx "even m"] c OpNumber x by (auto simp: v_def)
  have "doNeedExpression ?ctx (Tok s TkNumber) = Inr (True, ctx')"
    using r(1) x by (cases "even m") (simp_all add: doNeedExpression_def Let_def v_def)
  then have "pstep (Tok s TkNumber) ?ctx = Inr ctx'" using c by (simp add: pstep_def parserFunctionMap_def)
  then show ?thesis using r OpNumber minus_run [OF c(1), of m] c(2) evolves_mono [OF evolves_refl [OF c(3)], of "{}" "{}" 1]
    by (simp add: prun_append)
qed

lemma operands_run:
  "mid is k ops n ctx \<Longrightarrow> length ops + length qs = n \<Longrightarrow> length (entries (symtab ctx)) + length qs \<le> MaxSymbols \<Longrightarrow> list_all numeric qs \<Longrightarrow>
   \<exists>ctx'. prun (concat (map operand_tokens qs)) ctx = Inr ctx' \<and> mid is k (ops @ qs) n ctx' \<and> unreported ctx ctx'
    \<and> evolves (symtab ctx) (symtab ctx') (set (concat (map operand_names qs))) {} (length qs)"
proof (induction qs arbitrary: ops ctx)
  case Nil
  then show ?case by (auto simp: unreported_def mid_def intro: evolves_refl)
next
  case (Cons p qs)
  obtain ctx1 where 1: "prun (operand_tokens p) ctx = Inr ctx1" "mid is k (ops @ [p]) n ctx1" "unreported ctx ctx1"
    "evolves (symtab ctx) (symtab ctx1) (set (operand_names p)) {} 1"
    using operand_run [OF Cons.prems(1), of p] Cons.prems by auto
  have "length (entries (symtab ctx1)) + length qs \<le> MaxSymbols" using 1(4) Cons.prems(3) by (simp add: evolves_def)
  with Cons.IH [OF 1(2)] Cons.prems obtain ctx2 where 2: "prun (concat (map operand_tokens qs)) ctx1 = Inr ctx2"
    "mid is k ((ops @ [p]) @ qs) n ctx2" "unreported ctx1 ctx2" "evolves (symtab ctx1) (symtab ctx2) (set (concat (map operand_names qs))) {} (length qs)"
    by auto
  then show ?case using 1 unreported_trans [OF 1(3) 2(3)] evolves_trans [OF 1(4) 2(4)] by (simp add: prun_append)
qed

lemma label_run:
  assumes "state ctx = StBetweenLines" "sym_ok (symtab ctx)" "length (entries (symtab ctx)) < MaxSymbols" "\<not> defined_in (symtab ctx) l"
  shows "\<exists>i st. pstep (Tok l TkLabel) ctx = Inr (ctx\<lparr>symtab := st, state := StNeedKey\<rparr>) \<and> evolves (symtab ctx) st {l} {l} 1
    \<and> (indexes (symtab ctx) l = None \<longrightarrow> Get l st = Inr (dot ctx, i, None))"
proof -
  obtain i st where d: "Define l (dot ctx) (symtab ctx) = Inr ((i, None), st)" "evolves (symtab ctx) st {l} {l} 1"
    "indexes (symtab ctx) l = None \<longrightarrow> Get l st = Inr (dot ctx, i, None)" using Define_evolves [OF assms(2-4)] by blast
  have "pstep (Tok l TkLabel) ctx = Inr (ctx\<lparr>symtab := st, state := StNeedKey\<rparr>)"
    using assms(1) d(1) by (simp add: pstep_def parserFunctionMap_def doBetweenLines_def Let_def)
  then show ?thesis using d(2,3) by (intro exI [of _ i] exI [of _ st]) simp
qed

lemma unat_dot: "n < 65536 \<Longrightarrow> unat (of_nat n :: u16) = n"
  by (simp add: unsigned_of_nat take_bit_nat_eq_self_iff)

lemma key_run:
  assumes "state ctx = StBetweenLines \<or> state ctx = StNeedKey" "sym_ok (symtab ctx)" "grows MakeSymbolTable (symtab ctx)"
    "dot ctx = of_nat (length (instructions ctx))" "length (instructions ctx) < 65536" "e \<in> set KeyTable"
  shows "\<exists>ctx'. pstep (Tok (name e) TkSymbol) ctx = Inr ctx' \<and> mid (instructions ctx) (name e) [] (unat (numOperands (signature e))) ctx'
    \<and> symtab ctx' = symtab ctx \<and> unreported ctx ctx'"
proof -
  obtain i where g: "Get (name e) (symtab ctx) = Inr (signature e, i, None)" using Get_mnemonic [OF assms(6,3)] by blast
  have "pstep (Tok (name e) TkSymbol) ctx
    = bindE (doNeedKey (ctx\<lparr>state := StNeedKey\<rparr>) (Tok (name e) TkSymbol)) (\<lambda>(_, ctx). Inr ctx)"
    using assms(1) by (cases ctx) (auto simp: pstep_def parserFunctionMap_def)
  moreover have "set_part Key i (ctx\<lparr>state := StNeedKey, instructions := instructions ctx @ [\<lparr>parts = [0, 0, 0, 0]\<rparr>]\<rparr>)
      = Inr (ctx\<lparr>state := StNeedKey, instructions := instructions ctx @ [\<lparr>parts = [i, 0, 0, 0]\<rparr>]\<rparr>)"
    using set_part_last [of "ctx\<lparr>state := StNeedKey, instructions := instructions ctx @ [\<lparr>parts = [0, 0, 0, 0]\<rparr>]\<rparr>" "instructions ctx" "[0, 0, 0, 0]" Key i]
      assms(4,5) by (simp add: unat_dot Key_def)
  moreover have "map Some [i, 0, 0, 0] = line_parts (symtab ctx) (name e) []"
    using Get_index [OF g] by (simp add: line_parts_def numeral_3_eq_3)
  ultimately show ?thesis using g assms(2,4,5) numOperands_le [of "signature e"]
    by (simp add: doNeedKey_def Let_def mid_def unreported_def unat_dot Ra_def word_less_nat_alt)
qed

lemma newline_run:
  assumes "mid is k ops (length ops) ctx"
  shows "\<exists>ctx'. pstep nlToken ctx = Inr ctx' \<and> state ctx' = StBetweenLines \<and> symtab ctx' = symtab ctx \<and> instructions ctx' = instructions ctx
    \<and> dot ctx' = dot ctx + 1 \<and> errorCount ctx' = errorCount ctx \<and> stderr ctx' = stderr ctx"
  using assms by (simp add: mid_def pstep_def nlToken_def parserFunctionMap_def doNeedNewline_def Let_def)

definition tidy :: "parserContext \<Rightarrow> bool" where
  "tidy ctx \<longleftrightarrow> state ctx = StBetweenLines \<and> sym_ok (symtab ctx) \<and> grows MakeSymbolTable (symtab ctx)
     \<and> dot ctx = of_nat (length (instructions ctx))"

fun line_labels :: "source_line \<Rightarrow> string list" where
  "line_labels Blank = []" | "line_labels (Line lb k ops) = (case lb of None \<Rightarrow> [] | Some l \<Rightarrow> [l])"

fun line_names :: "source_line \<Rightarrow> string list" where
  "line_names Blank = []" | "line_names (Line lb k ops) = concat (map operand_names ops)"

fun line_room :: "source_line \<Rightarrow> nat" where
  "line_room Blank = 0" | "line_room (Line lb k ops) = length (line_labels (Line lb k ops)) + length ops"

fun line_instrs :: "source_line \<Rightarrow> (string \<times> operand list) list" where
  "line_instrs Blank = []" | "line_instrs (Line lb k ops) = [(k, ops)]"

definition translates :: "SymbolTable \<Rightarrow> MachineInstruction list \<Rightarrow> (string \<times> operand list) list \<Rightarrow> bool" where
  "translates st is ls \<longleftrightarrow> list_all2 (\<lambda>mi (k, ops). map Some (parts mi) = line_parts st k ops) is ls"

lemma start_line:
  assumes "tidy ctx" "length (entries (symtab ctx)) + length (line_labels (Line lb k ops)) \<le> MaxSymbols"
    "\<forall>l \<in> set (line_labels (Line lb k ops)). \<not> defined_in (symtab ctx) l"
  shows "\<exists>ctx'. prun (label_tokens lb) ctx = Inr ctx' \<and> (state ctx' = StBetweenLines \<or> state ctx' = StNeedKey)
    \<and> evolves (symtab ctx) (symtab ctx') (set (line_labels (Line lb k ops))) (set (line_labels (Line lb k ops))) (length (line_labels (Line lb k ops)))
    \<and> unreported ctx ctx' \<and> instructions ctx' = instructions ctx
    \<and> (\<forall>l \<in> set (line_labels (Line lb k ops)). indexes (symtab ctx) l = None \<longrightarrow> (\<exists>i. Get l (symtab ctx') = Inr (dot ctx, i, None)))"
proof (cases lb)
  case None
  then show ?thesis using assms(1) by (simp add: label_tokens_def tidy_def unreported_def evolves_refl)
next
  case (Some l)
  obtain i st where "pstep (Tok l TkLabel) ctx = Inr (ctx\<lparr>symtab := st, state := StNeedKey\<rparr>)" "evolves (symtab ctx) st {l} {l} 1"
    "indexes (symtab ctx) l = None \<longrightarrow> Get l st = Inr (dot ctx, i, None)"
    using label_run [of ctx l] assms Some by (auto simp: tidy_def)
  then show ?thesis using Some by (simp add: label_tokens_def unreported_def)
qed

lemma line_run:
  assumes "tidy ctx" "line_ok ln" "\<forall>l \<in> set (line_labels ln). \<not> defined_in (symtab ctx) l"
    "length (entries (symtab ctx)) + line_room ln \<le> MaxSymbols" "length (instructions ctx) + length (line_instrs ln) \<le> 65536"
  shows "\<exists>ctx' is. prun (line_tokens ln) ctx = Inr ctx' \<and> tidy ctx'
    \<and> evolves (symtab ctx) (symtab ctx') (set (line_labels ln) \<union> set (line_names ln)) (set (line_labels ln)) (line_room ln)
    \<and> errorCount ctx' = errorCount ctx \<and> stderr ctx' = stderr ctx
    \<and> instructions ctx' = instructions ctx @ is \<and> translates (symtab ctx') is (line_instrs ln)
    \<and> (\<forall>l \<in> set (line_labels ln). indexes (symtab ctx) l = None \<longrightarrow> (\<exists>i. Get l (symtab ctx') = Inr (dot ctx, i, None)))"
proof (cases ln)
  case Blank
  then show ?thesis using assms(1)
    by (simp add: pstep_def nlToken_def parserFunctionMap_def doBetweenLines_def tidy_def evolves_refl translates_def)
next
  case (Line lb k ops)
  have t: "sym_ok (symtab ctx)" "grows MakeSymbolTable (symtab ctx)" "dot ctx = of_nat (length (instructions ctx))"
    using assms(1) by (simp_all add: tidy_def)
  obtain e where e: "e \<in> set KeyTable" "name e = k" "length ops = unat (numOperands (signature e))" "list_all numeric ops"
    using assms(2) Line by (auto simp: list_ex_iff)
  obtain c1 where 1: "prun (label_tokens lb) ctx = Inr c1" "state c1 = StBetweenLines \<or> state c1 = StNeedKey"
    "evolves (symtab ctx) (symtab c1) (set (line_labels ln)) (set (line_labels ln)) (length (line_labels ln))"
    "unreported ctx c1" "instructions c1 = instructions ctx"
    "\<forall>l \<in> set (line_labels ln). indexes (symtab ctx) l = None \<longrightarrow> (\<exists>i. Get l (symtab c1) = Inr (dot ctx, i, None))"
    using start_line [OF assms(1), of lb k ops] assms(3,4) Line by auto
  have g: "sym_ok (symtab c1)" "grows MakeSymbolTable (symtab c1)" "length (entries (symtab c1)) + length ops \<le> MaxSymbols"
    using 1(3) grows_trans [OF t(2)] assms(4) Line by (auto simp: evolves_def)
  have d: "dot c1 = of_nat (length (instructions c1))" "length (instructions c1) < 65536"
    using 1(4,5) t(3) assms(5) Line by (simp_all add: unreported_def)
  obtain c2 where 2: "pstep (Tok k TkSymbol) c1 = Inr c2" "mid (instructions ctx) k [] (length ops) c2" "symtab c2 = symtab c1" "unreported c1 c2"
    using key_run [OF 1(2) g(1,2) d e(1)] e(2,3) 1(5) by auto
  obtain c3 where 3: "prun (concat (map operand_tokens ops)) c2 = Inr c3" "mid (instructions ctx) k ops (length ops) c3" "unreported c2 c3"
    "evolves (symtab c2) (symtab c3) (set (line_names ln)) {} (length ops)"
    using operands_run [OF 2(2), of ops] g(3) 2(3) e(4) Line by auto
  obtain c4 where 4: "pstep nlToken c3 = Inr c4" "state c4 = StBetweenLines" "symtab c4 = symtab c3" "instructions c4 = instructions c3"
    "dot c4 = dot c3 + 1" "errorCount c4 = errorCount c3" "stderr c4 = stderr c3" using newline_run [OF 3(2)] by blast
  obtain ps where ps: "instructions c3 = instructions ctx @ [\<lparr>parts = ps\<rparr>]" "map Some ps = line_parts (symtab c3) k ops"
    using 3(2) by (auto simp: mid_def)
  have ev: "evolves (symtab ctx) (symtab c4) (set (line_labels ln) \<union> set (line_names ln)) (set (line_labels ln)) (line_room ln)"
    using evolves_trans [OF 1(3) 3(4) [unfolded 2(3)]] 4(3) Line by simp
  have q: "unreported ctx c3" using unreported_trans [OF unreported_trans [OF 1(4) 2(4)] 3(3)] .
  have "tidy c4" using 4 ps(1) q t(3) ev grows_trans [OF t(2)] by (auto simp: tidy_def unreported_def evolves_def)
  moreover have "prun (line_tokens ln) ctx = Inr c4" using 1(1) 2(1) 3(1) 4(1) Line by (simp add: prun_append)
  moreover have "\<exists>i. Get l (symtab c4) = Inr (dot ctx, i, None)" if l: "l \<in> set (line_labels ln)" "indexes (symtab ctx) l = None" for l
    using 1(6) l Get_grows [OF g(1), of "symtab c4" l] Get_index 3(4) 2(3) 4(3) by (fastforce simp: evolves_def)
  ultimately show ?thesis using ev q ps 4 Line by (auto simp: unreported_def translates_def)
qed

section \<open>Whole programs\<close>

definition program_tokens :: "source_line list \<Rightarrow> Token list" where "program_tokens lns = concat (map line_tokens lns)"
definition program_labels :: "source_line list \<Rightarrow> string list" where "program_labels lns = concat (map line_labels lns)"
definition program_names :: "source_line list \<Rightarrow> string list" where "program_names lns = concat (map line_names lns)"
definition program_instrs :: "source_line list \<Rightarrow> (string \<times> operand list) list" where "program_instrs lns = concat (map line_instrs lns)"
definition program_room :: "source_line list \<Rightarrow> nat" where "program_room lns = sum_list (map line_room lns)"

lemmas program_defs = program_tokens_def program_labels_def program_names_def program_instrs_def program_room_def

text \<open>The labels that no earlier line uses, with the number of the instruction they stand before.\<close>

fun label_addrs :: "nat \<Rightarrow> string list \<Rightarrow> source_line list \<Rightarrow> (string \<times> nat) list" where
  "label_addrs n used [] = []"
| "label_addrs n used (ln # lns) =
     map (\<lambda>l. (l, n)) (filter (\<lambda>l. l \<notin> set used) (line_labels ln))
     @ label_addrs (n + length (line_instrs ln)) (line_names ln @ used) lns"

definition program_ok :: "source_line list \<Rightarrow> bool" where
  "program_ok lns \<longleftrightarrow> list_all line_ok lns \<and> distinct (program_labels lns) \<and>
     list_all (\<lambda>l. l \<notin> set (map fst reserved)) (program_labels lns) \<and>
     54 + program_room lns \<le> MaxSymbols \<and> length (program_instrs lns) \<le> 65536"

lemma translates_grows: "translates st is ls \<Longrightarrow> grows st st' \<Longrightarrow> translates st' is ls"
  unfolding translates_def by (erule list_all2_mono) (auto dest: line_parts_grows)

lemma defined_index: "defined_in st k \<Longrightarrow> indexes st k \<noteq> None"
  by (auto simp: defined_in_def)

definition addressed :: "SymbolTable \<Rightarrow> (string \<times> nat) \<Rightarrow> bool" where
  "addressed st = (\<lambda>(l, a). \<exists>i. Get l st = Inr (of_nat a, i, None))"

lemma addressed_grows: "sym_ok st \<Longrightarrow> grows st st' \<Longrightarrow> addressed st la \<Longrightarrow> addressed st' la"
  using Get_grows [of st st' "fst la"] Get_index by (fastforce simp: addressed_def split: prod.splits)

lemma program_run:
  "tidy ctx \<Longrightarrow> list_all line_ok lns \<Longrightarrow> distinct (program_labels lns) \<Longrightarrow>
   \<forall>l \<in> set (program_labels lns). \<not> defined_in (symtab ctx) l \<and> (indexes (symtab ctx) l \<noteq> None \<longrightarrow> l \<in> set used) \<Longrightarrow>
   length (entries (symtab ctx)) + program_room lns \<le> MaxSymbols \<Longrightarrow>
   length (instructions ctx) + length (program_instrs lns) \<le> 65536 \<Longrightarrow>
   \<exists>ctx' is. prun (program_tokens lns) ctx = Inr ctx' \<and> tidy ctx' \<and> grows (symtab ctx) (symtab ctx')
    \<and> errorCount ctx' = errorCount ctx \<and> stderr ctx' = stderr ctx
    \<and> instructions ctx' = instructions ctx @ is \<and> translates (symtab ctx') is (program_instrs lns)
    \<and> list_all (addressed (symtab ctx')) (label_addrs (length (instructions ctx)) used lns)"
proof (induction lns arbitrary: ctx used)
  case Nil
  then show ?case by (simp add: program_defs translates_def)
next
  case (Cons ln lns)
  note p = Cons.prems [unfolded program_defs, simplified, folded program_defs]
  have "\<forall>l \<in> set (line_labels ln). \<not> defined_in (symtab ctx) l" using p(4) by simp
  with line_run [OF p(1), of ln] p obtain c1 is1 where 1: "prun (line_tokens ln) ctx = Inr c1" "tidy c1"
    "evolves (symtab ctx) (symtab c1) (set (line_labels ln) \<union> set (line_names ln)) (set (line_labels ln)) (line_room ln)"
    "errorCount c1 = errorCount ctx" "stderr c1 = stderr ctx" "instructions c1 = instructions ctx @ is1"
    "translates (symtab c1) is1 (line_instrs ln)"
    "\<forall>l \<in> set (line_labels ln). indexes (symtab ctx) l = None \<longrightarrow> (\<exists>i. Get l (symtab c1) = Inr (dot ctx, i, None))" by auto
  have len: "length is1 = length (line_instrs ln)" using 1(7) by (simp add: translates_def list_all2_lengthD)
  have dj: "l \<notin> set (line_labels ln)" if "l \<in> set (program_labels lns)" for l
    using Cons.prems(3) that by (auto simp: program_labels_def)
  have u: "\<not> defined_in (symtab c1) l \<and> (indexes (symtab c1) l \<noteq> None \<longrightarrow> l \<in> set (line_names ln @ used))"
    if l: "l \<in> set (program_labels lns)" for l
  proof -
    have "\<not> defined_in (symtab ctx) l \<and> (indexes (symtab ctx) l \<noteq> None \<longrightarrow> l \<in> set used)"
      using Cons.prems(4) l by (simp add: program_labels_def)
    moreover have "indexes (symtab c1) l \<noteq> None \<longrightarrow> indexes (symtab ctx) l \<noteq> None \<or> l \<in> set (line_labels ln) \<union> set (line_names ln)"
      using 1(3) unfolding evolves_def by (metis (no_types) Un_iff domIff subsetD)
    ultimately show ?thesis using 1(3) dj [OF l] unfolding evolves_def by auto
  qed
  have "length (entries (symtab c1)) + program_room lns \<le> MaxSymbols" "length (instructions c1) + length (program_instrs lns) \<le> 65536"
    using 1(3,6) p(5,6) len by (simp_all add: evolves_def)
  with Cons.IH [OF 1(2), of "line_names ln @ used"] u p(2,3) obtain c2 is2 where
    2: "prun (program_tokens lns) c1 = Inr c2" "tidy c2" "grows (symtab c1) (symtab c2)" "errorCount c2 = errorCount c1"
    "stderr c2 = stderr c1" "instructions c2 = instructions c1 @ is2" "translates (symtab c2) is2 (program_instrs lns)"
    "list_all (addressed (symtab c2)) (label_addrs (length (instructions c1)) (line_names ln @ used) lns)" by auto
  have "addressed (symtab c1) (l, length (instructions ctx))" if "l \<in> set (line_labels ln)" "l \<notin> set used" for l
    using 1(8) that p(1,4) by (auto simp: addressed_def tidy_def)
  then have "list_all (addressed (symtab c2)) (map (\<lambda>l. (l, length (instructions ctx))) (filter (\<lambda>l. l \<notin> set used) (line_labels ln)))"
    using addressed_grows [OF _ 2(3)] 1(2) by (auto simp: list_all_iff tidy_def)
  moreover have "translates (symtab c2) (is1 @ is2) (program_instrs (ln # lns))"
    using translates_grows [OF 1(7) 2(3)] 2(7) by (simp add: translates_def program_instrs_def list_all2_appendI)
  moreover have "grows (symtab ctx) (symtab c2)" using 1(3) 2(3) grows_trans by (auto simp: evolves_def)
  ultimately show ?case using 1(1,4-6) 2 len by (simp add: program_tokens_def prun_append)
qed

lemma start_tidy: "tidy (start_ctx src)"
  by (simp add: tidy_def start_ctx_def MakeSymbolTable_spec(1))

text \<open>Programs of machine instructions: the operands are of the kinds that the signature names, the names of
  registers, or symbols and numbers that fit the field. The pseudo-operations and \<open>ldi\<close>, which take
  16-bit values, strings and names, are not among them.\<close>

fun num_fits :: "nat \<Rightarrow> operand \<Rightarrow> bool" where
  "num_fits b (OpSymbol n s) = True"
| "num_fits b (OpNumber n s) = (case ParseInt s of Inl _ \<Rightarrow> False | Inr v \<Rightarrow> if even n then v < 2 ^ b else v \<le> 2 ^ (b - 1))"

definition operand_fits :: "SignatureElement \<Rightarrow> operand \<Rightarrow> bool" where
  "operand_fits kind p =
     (if kind = SeReg then (case p of OpSymbol n s \<Rightarrow> n = 0 \<and> list_ex (\<lambda>r. s = r) (map reg_name [0..<8]) | OpNumber n s \<Rightarrow> False)
      else if kind = SeImm6 then num_fits 6 p else if kind = SeImm7 then num_fits 7 p else if kind = SeImm10 then num_fits 10 p
      else False)"

fun wf_line :: "source_line \<Rightarrow> bool" where
  "wf_line Blank = True"
| "wf_line (Line lb k ops) \<longleftrightarrow>
     list_ex (\<lambda>e. name e = k \<and> length ops = unat (numOperands (signature e))
       \<and> list_all2 operand_fits (map (getSig (signature e)) (take (length ops) [Ra, Rb, Rc])) ops) KeyTable"

definition wf_program :: "source_line list \<Rightarrow> bool" where
  "wf_program lns \<longleftrightarrow> list_all wf_line lns \<and> distinct (program_labels lns) \<and>
     list_all (\<lambda>l. l \<notin> set (map fst reserved)) (program_labels lns) \<and>
     54 + program_room lns \<le> MaxSymbols \<and> length (program_instrs lns) \<le> 65536"

lemma reg_list: "map reg_name [0..<8] = [''r0'', ''r1'', ''r2'', ''r3'', ''r4'', ''r5'', ''r6'', ''r7'']"
  by (simp add: reg_name_def upt_rec char_of_def bit_Suc_0_iff)

lemma fits_numeric: "operand_fits k p \<Longrightarrow> numeric p"
  by (cases p) (auto simp: operand_fits_def numeric_def split: if_splits sum.splits)

lemma wf_line_ok: "wf_line ln \<Longrightarrow> line_ok ln"
proof (cases ln)
  case (Line lb k ops)
  moreover have "list_all2 operand_fits ks ps \<Longrightarrow> list_all numeric ps" for ks ps
    by (induction rule: list_all2_induct) (auto intro: fits_numeric)
  moreover assume "wf_line ln"
  ultimately show ?thesis by (auto simp: list_ex_iff)
qed simp

lemma wf_program_ok: "wf_program lns \<Longrightarrow> program_ok lns"
  using wf_line_ok by (auto simp: wf_program_def program_ok_def list_all_iff)

lemma program_ok_run:
  assumes "program_ok lns"
  shows "\<exists>ctx. prun (program_tokens lns) (start_ctx src) = Inr ctx \<and> state ctx = StBetweenLines \<and> errorCount ctx = 0 \<and> stderr ctx = []
    \<and> translates (symtab ctx) (instructions ctx) (program_instrs lns) \<and> list_all (addressed (symtab ctx)) (label_addrs 0 [] lns)"
proof -
  have "\<forall>l \<in> set (program_labels lns). \<not> defined_in MakeSymbolTable l \<and> (indexes MakeSymbolTable l \<noteq> None \<longrightarrow> l \<in> set [])"
  proof
    fix l assume "l \<in> set (program_labels lns)"
    then have "l \<notin> dom (indexes MakeSymbolTable)" using assms by (simp add: program_ok_def list_all_iff MakeSymbolTable_spec(2))
    then show "\<not> defined_in MakeSymbolTable l \<and> (indexes MakeSymbolTable l \<noteq> None \<longrightarrow> l \<in> set [])"
      using defined_index [of MakeSymbolTable l] by auto
  qed
  then show ?thesis using program_run [OF start_tidy, of lns src "[]"] assms MakeSymbolTable_spec(3)
    by (auto simp: start_ctx_def program_ok_def tidy_def)
qed

end
