(* ===== verification/Assembler.thy ===== *)
theory Assembler
  imports Asm_Program
begin

text \<open>
  The properties of the first assembler (\<open>SAVE/asm/\<close>).
\<close>

lemma file_lexer:
  "open_file src = Inr (body, err) \<Longrightarrow>
   MakeFileLexer open_file src = Inr \<lparr>reader = rdr body err, lexerState = stBetween, path = src, pbToken = None\<rparr>"
  by (simp add: MakeFileLexer_def NewFilePushbackByteReader_def)

lemma start_inv: "pinv (start_ctx src)"
  by (simp add: pinv_def pbase_def start_ctx_def MakeSymbolTable_spec(1))

section \<open>Parsing\<close>

text \<open>What a program gives that the parser accepts, whatever its operands are.\<close>

lemma accepted:
  assumes "program_ok lns" "laid_out gts" "map snd gts = program_tokens lns" "open_file src = Inr (layout gts, None)"
  shows "\<exists>ctx. Parse open_file src = Some (Inr (Inr (ctx, None))) \<and> asm_main open_file [src] = Some (Inr (0, []))
    \<and> list_all2 (\<lambda>mi (k, ops). map Some (parts mi) = line_parts (symtab ctx) k ops) (instructions ctx) (program_instrs lns)
    \<and> list_all (\<lambda>(l, a). \<exists>i. Get l (symtab ctx) = Inr (of_nat a, i, None)) (label_addrs 0 [] lns)"
proof -
  let ?lx = "\<lparr>reader = rdr (layout gts) None, lexerState = stBetween, path = src, pbToken = None\<rparr>"
  obtain ctx where r: "prun (map snd gts) (start_ctx src) = Inr ctx" "state ctx = StBetweenLines" "errorCount ctx = 0" "stderr ctx = []"
    "translates (symtab ctx) (instructions ctx) (program_instrs lns)" "list_all (addressed (symtab ctx)) (label_addrs 0 [] lns)"
    using program_ok_run [OF assms(1)] assms(3) by metis
  have "spot stBetween (layout gts) ?lx" by (simp add: spot_def)
  then obtain lx' where "asm_loop ?lx (start_ctx src) = Some (Inr (lx', ctx))" using asm_loop_layout [OF _ assms(2) r(1)] by blast
  then have p: "Parse open_file src = Some (Inr (Inr (ctx, None)))"
    using r(2,3) by (simp add: Parse_def file_lexer assms(4) parse_finish_def)
  then show ?thesis using r(4-6) by (intro exI [of _ ctx]) (simp add: asm_main_def Generate_def translates_def addressed_def)
qed

text \<open>(C32) Every program of machine instructions whose operands are of the kinds and sizes of their fields, in every
  layout of its tokens, is parsed without an error, and the
  assembler exits with status 0 and prints nothing. There is one machine instruction for every line with a mnemonic: its
  parts are the index of the mnemonic, then for each operand the index of the symbol, or the number in ten bits
  (negated by an odd number of minus signs) with the mark of a value, then zeros. A label that no earlier line
  uses is defined as the number of the instruction it stands before.\<close>

theorem asm_parses_programs:
  assumes "wf_program lns" "laid_out gts" "map snd gts = program_tokens lns" "open_file src = Inr (layout gts, None)"
  shows "\<exists>ctx. Parse open_file src = Some (Inr (Inr (ctx, None))) \<and> asm_main open_file [src] = Some (Inr (0, []))
    \<and> list_all2 (\<lambda>mi (k, ops). map Some (parts mi) = line_parts (symtab ctx) k ops) (instructions ctx) (program_instrs lns)
    \<and> list_all (\<lambda>(l, a). \<exists>i. Get l (symtab ctx) = Inr (of_nat a, i, None)) (label_addrs 0 [] lns)"
  by (rule accepted [of lns gts open_file src, OF wf_program_ok]) (rule assms)+

definition example_program :: "source_line list" where
  "example_program =
     [Line (Some ''top'') ''adi'' [OpSymbol 0 ''r1'', OpSymbol 0 ''r2'', OpNumber 1 ''0x10''], Blank, Line None ''beq'' [OpSymbol 0 ''r1'', OpSymbol 0 ''r0'', OpSymbol 1 ''top'']]"

definition example_layout :: "(string \<times> Token) list" where
  "example_layout =
     [('''', Tok ''top'' TkLabel), ('' '', Tok ''adi'' TkSymbol), ('' '', Tok ''r1'' TkSymbol), ('', '', Tok ''r2'' TkSymbol), ('' '', minus_token),
      ('''', Tok ''0x10'' TkNumber), ('' # low'', nlToken), ('''', nlToken), ('''', Tok ''beq'' TkSymbol), ('' '', Tok ''r1'' TkSymbol),
      ('','', Tok ''r0'' TkSymbol), ('' '', minus_token), ('''', Tok ''top'' TkSymbol), ('''', nlToken)]"

lemma example_ok: "wf_program example_program" "laid_out example_layout" "map snd example_layout = program_tokens example_program"
proof -
  have r: "fst ` set reserved = set (map fst reserved)" by simp
  show "wf_program example_program"
    by (simp add: wf_program_def example_program_def program_defs r reserved_eval del: set_map)
       (simp add: KeyTable_def key_entry_def numOperands_def sigFor_def getSig_def SeReg_def SeImm6_def SeImm7_def SeImm10_def Ra_def Rb_def Rc_def
        operand_fits_def reg_list MaxSymbols_def ParseInt_def digit_value_def to_lower_def less_eq_char_def)
  show "laid_out example_layout"
    by (simp add: example_layout_def minus_token_def nlToken_def gap_ok_def delimited_def spell_def is_symbol_def is_number_def validNumber_def byte_classes)
  show "map snd example_layout = program_tokens example_program"
    by (simp add: example_layout_def example_program_def program_defs label_tokens_def)
qed

theorem asm_parses_programs_witness:
  "wf_program example_program \<and> laid_out example_layout \<and>
   (\<exists>ctx. Parse (\<lambda>_. Inr (layout example_layout, None)) ''a'' = Some (Inr (Inr (ctx, None))) \<and> length (instructions ctx) = 2
      \<and> (\<exists>i. Get ''top'' (symtab ctx) = Inr (0, i, None)))"
proof -
  obtain ctx where c: "Parse (\<lambda>_. Inr (layout example_layout, None)) ''a'' = Some (Inr (Inr (ctx, None)))"
    "list_all2 (\<lambda>mi (k, ops). map Some (parts mi) = line_parts (symtab ctx) k ops) (instructions ctx) (program_instrs example_program)"
    "list_all (\<lambda>(l, a). \<exists>i. Get l (symtab ctx) = Inr (of_nat a, i, None)) (label_addrs 0 [] example_program)"
    using asm_parses_programs [OF example_ok, of "\<lambda>_. Inr (layout example_layout, None)" "''a''"] by auto
  have "length (instructions ctx) = 2" using list_all2_lengthD [OF c(2)] by (simp add: example_program_def program_instrs_def)
  then show ?thesis using c(1,3) example_ok(1,2) by (auto simp: example_program_def)
qed

text \<open>(C39) The pseudo-operations that take a 16-bit value lose it: a line with \<open>.align\<close>, \<open>.byte\<close>, \<open>.word\<close> or \<open>.space\<close> and
  a number is accepted, makes a machine instruction, although these pseudo-operations are said to make
  none, and that instruction holds the low ten bits of the number only.\<close>

theorem asm_pseudo_ops_are_cut:
  assumes "k \<in> {''.align'', ''.byte'', ''.word'', ''.space''}" "ParseInt s = Inr v" "laid_out gts"
    "map snd gts = [Tok k TkSymbol, Tok s TkNumber, nlToken]" "open_file src = Inr (layout gts, None)"
  shows "\<exists>ctx i. Parse open_file src = Some (Inr (Inr (ctx, None))) \<and> asm_main open_file [src] = Some (Inr (0, []))
    \<and> instructions ctx = [\<lparr>parts = [i, IsValue OR (of_nat v AND 0x3FF), 0, 0]\<rparr>]"
proof -
  let ?ln = "Line None k [OpNumber 0 s]"
  have "key_entry k 0xFFFF v1 \<in> set KeyTable" using assms(1) by (elim insertE emptyE) (simp_all add: KeyTable_def)
  moreover have "unat (numOperands v1) = 1" by (simp add: numOperands_def sigFor_def SeVal16_def SeNone_def Ra_def)
  ultimately have "list_ex (\<lambda>e. name e = k \<and> Suc 0 = unat (numOperands (signature e))) KeyTable"
    unfolding list_ex_iff by (intro bexI [of _ "key_entry k 0xFFFF v1"]) (simp_all add: key_entry_def)
  then have p: "program_ok [?ln]"
    using assms(2) by (simp add: program_ok_def program_defs numeric_def MaxSymbols_def)
  have q: "map snd gts = program_tokens [?ln]" using assms(4) by (simp add: program_tokens_def label_tokens_def)
  obtain ctx where c: "Parse open_file src = Some (Inr (Inr (ctx, None)))" "asm_main open_file [src] = Some (Inr (0, []))"
    "list_all2 (\<lambda>mi (k, ops). map Some (parts mi) = line_parts (symtab ctx) k ops) (instructions ctx) (program_instrs [?ln])"
    using accepted [of "[?ln]" gts open_file src, OF p assms(3) q assms(5)] by (elim exE conjE)
  then obtain mi where mi: "instructions ctx = [mi]" "map Some (parts mi) = line_parts (symtab ctx) k [OpNumber 0 s]"
    by (auto simp: program_instrs_def list_all2_Cons2)
  then obtain i where "parts mi = [i, IsValue OR (of_nat v AND 0x3FF), 0, 0]"
    using assms(2) by (auto simp: line_parts_def numeral_2_eq_2)
  then have "mi = \<lparr>parts = [i, IsValue OR (of_nat v AND 0x3FF), 0, 0]\<rparr>" by (cases mi) simp
  then show ?thesis using c(1,2) mi(1) by blast
qed

theorem asm_pseudo_ops_are_cut_witness:
  "\<exists>ctx i. Parse (\<lambda>_. Inr (''.word 0x1234'' @ [CHR 0x0A], None)) ''a'' = Some (Inr (Inr (ctx, None)))
     \<and> instructions ctx = [\<lparr>parts = [i, 0x8234, 0, 0]\<rparr>]"
proof -
  let ?gts = "[([], Tok ''.word'' TkSymbol), ('' '', Tok ''0x1234'' TkNumber), ([], nlToken)]"
  have l: "layout ?gts = ''.word 0x1234'' @ [CHR 0x0A]" by (simp add: nlToken_def spell_def)
  have o: "laid_out ?gts" by (simp add: nlToken_def gap_ok_def delimited_def spell_def is_symbol_def is_number_def validNumber_def byte_classes)
  have n: "ParseInt ''0x1234'' = Inr 0x1234" by (simp add: ParseInt_def digit_value_def to_lower_def less_eq_char_def)
  show ?thesis
    using asm_pseudo_ops_are_cut [OF _ n o, of "''.word''" "\<lambda>_. Inr (layout ?gts, None)" "''a''"] unfolding l by (auto simp: IsValue_def)
qed

text \<open>(C33) On files that can be read to their end the assembler returns, whatever their contents and the arguments: no index
  is out of range, no assertion fails and no loop runs forever. The status is 0 if and only if nothing was printed.\<close>

theorem asm_returns:
  assumes "\<And>src body err. open_file src = Inr (body, err) \<Longrightarrow> err = None"
  shows "\<exists>status out. asm_main open_file args = Some (Inr (status, out)) \<and> status \<in> {0, 1, 2} \<and> (status = 0 \<longleftrightarrow> out = [])"
proof (cases "\<exists>src. args = [src]")
  case True
  then obtain src where a: "args = [src]" by blast
  show ?thesis
  proof (cases "open_file src")
    case (Inl e)
    then show ?thesis by (simp add: a asm_main_def Parse_def MakeFileLexer_def NewFilePushbackByteReader_def newline_def)
  next
    case (Inr b)
    obtain body where b: "open_file src = Inr (body, None)" using Inr assms by (cases b) auto
    let ?lx = "\<lparr>reader = rdr body None, lexerState = stBetween, path = src, pbToken = None\<rparr>"
    have "turn ?lx (start_ctx src)" using start_inv by (simp add: turn_def calm_def)
    then obtain lx' ctx where l: "asm_loop ?lx (start_ctx src) = Some (Inr (lx', ctx))" "pinv ctx" using asm_loop_total [of ?lx "start_ctx src"] by auto
    have p: "Parse open_file src = Some (Inr (Inr (parse_finish ctx)))" using l(1) by (simp add: Parse_def file_lexer b)
    have "errorCount (fst (parse_finish ctx)) = 0 \<longleftrightarrow> stderr (fst (parse_finish ctx)) = []"
      using l(2) report_inv(1) [of ctx] by (auto simp: parse_finish_def Let_def pinv_def pbase_def)
    then show ?thesis using p
      by (cases "errorCount (fst (parse_finish ctx)) = 0") (simp_all add: a asm_main_def Generate_def parse_finish_def Let_def newline_def split del: if_split)
  qed
next
  case False
  then show ?thesis by (cases args rule: remdups_adj.cases) (simp_all add: asm_main_def usage_def)
qed

theorem asm_returns_witness:
  "\<exists>status out. asm_main (\<lambda>_. Inr (''bad bad'', None)) [''a''] = Some (Inr (status, out)) \<and> status \<in> {0, 1, 2} \<and> (status = 0 \<longleftrightarrow> out = [])"
  by (rule asm_returns) simp

text \<open>(C34) On a file that gives a read error the assembler never returns: the lexer gives an error token on every call and
  the parser waits for the end of the file.\<close>

theorem asm_read_error_diverges:
  assumes "open_file src = Inr (body, Some err)"
  shows "asm_main open_file [src] = None"
proof -
  let ?lx = "\<lparr>reader = rdr body (Some err), lexerState = stBetween, path = src, pbToken = None\<rparr>"
  have "turn ?lx (start_ctx src)" using start_inv by (simp add: turn_def calm_def)
  then have "asm_loop ?lx (start_ctx src) = None" by (rule asm_loop_error) simp_all
  then show ?thesis by (simp add: asm_main_def Parse_def file_lexer assms)
qed

theorem asm_read_error_diverges_witness: "asm_main (\<lambda>_. Inr (''nop'', Some ''input/output error'')) [''a''] = None"
  by (rule asm_read_error_diverges) (rule refl)

section \<open>Tokens\<close>

text \<open>(C35) The lexer reads back what is written: for every sequence of symbols, labels, numbers, strings, operators and
  newlines, spelled with blanks and commas between them, with comments at the ends of lines and with a delimiter
  behind every symbol and number, the calls of \<open>GetToken\<close> give these tokens and then the end of the file.\<close>

theorem asm_lexer_roundtrip:
  assumes "laid_out gts"
  shows "\<exists>lx lx'. MakeStringLexer ident (layout gts) = Inr lx \<and> get_tokens (Suc (length gts)) lx = Inr (map snd gts @ [eofToken], lx')"
proof -
  let ?lx = "\<lparr>reader = rdr (layout gts) None, lexerState = stBetween, path = ident, pbToken = None\<rparr>"
  have "spot stBetween (layout gts) ?lx" by (simp add: spot_def)
  from get_tokens_layout [OF this assms] show ?thesis by (simp add: MakeStringLexer_def NewStringPushbackByteReader_def del: get_tokens.simps)
qed

theorem asm_lexer_roundtrip_witness:
  "\<exists>lx lx'. MakeStringLexer ''s'' (layout [('' '', Tok ''.string'' TkSymbol), ('' '', Tok [QUOTE, CHR ''#'', QUOTE] TkString), ('' # end'', nlToken)]) = Inr lx
     \<and> get_tokens 4 lx = Inr ([Tok ''.string'' TkSymbol, Tok [QUOTE, CHR ''#'', QUOTE] TkString, nlToken, eofToken], lx')"
proof -
  let ?gts = "[('' '', Tok ''.string'' TkSymbol), ('' '', Tok [QUOTE, CHR ''#'', QUOTE] TkString), ('' # end'', nlToken)]"
  have "laid_out ?gts" by (simp add: nlToken_def gap_ok_def delimited_def spell_def is_symbol_def is_string_def byte_classes)
  from asm_lexer_roundtrip [OF this, of "''s''"] show ?thesis by (simp add: numeral_eq_Suc del: get_tokens.simps)
qed

section \<open>Symbols\<close>

text \<open>(C36) The uses of up to 32712 symbols in the initial table give every name one index and different names different
  indices, and the registers \<open>r0\<close> to \<open>r7\<close> keep their numbers as indices.\<close>

theorem asm_symbols_are_interned:
  assumes "54 + length ks \<le> MaxSymbols"
  shows "\<exists>ixs st. enter_all use_sym ks MakeSymbolTable = Inr (ixs, st) \<and> length ixs = length ks
    \<and> (\<forall>a < length ks. \<forall>b < length ks. ixs ! a = ixs ! b \<longleftrightarrow> ks ! a = ks ! b)
    \<and> (\<forall>i < 8. indexes st (reg_name i) = Some (of_nat i))"
proof -
  have o: "list_all (\<lambda>_. True) ks" by (simp add: list_all_iff)
  obtain ixs st where e: "enter_all use_sym ks MakeSymbolTable = Inr (ixs, st)"
    using use_all_room [OF MakeSymbolTable_spec(1), of ks] assms MakeSymbolTable_spec(3) by auto
  have "reserved ! i = (reg_name i, of_nat i)" if "i < 8" for i using that by (simp add: reserved_def nth_append)
  then have "indexes MakeSymbolTable (reg_name i) = Some (of_nat i)" if "i < 8" for i
    using MakeSymbolTable_spec(4) [of i] Get_index that by simp
  then have "\<forall>i < 8. indexes st (reg_name i) = Some (of_nat i)" using names.enter_all_post [OF MakeSymbolTable_spec(1) o e] by simp
  then show ?thesis using e names.enter_all_index [OF MakeSymbolTable_spec(1) o e] by blast
qed

theorem asm_symbols_are_interned_witness:
  "54 + length [''loop'', ''r3'', ''loop''] \<le> MaxSymbols \<and>
   (\<exists>ixs st. enter_all use_sym [''loop'', ''r3'', ''loop''] MakeSymbolTable = Inr (ixs, st) \<and> ixs ! 0 = ixs ! 2)"
proof -
  have l: "54 + length [''loop'', ''r3'', ''loop''] \<le> MaxSymbols" by (simp add: MaxSymbols_def)
  from asm_symbols_are_interned [OF this] obtain ixs st where
    e: "enter_all use_sym [''loop'', ''r3'', ''loop''] MakeSymbolTable = Inr (ixs, st)"
    "\<forall>a < 3. \<forall>b < 3. ixs ! a = ixs ! b \<longleftrightarrow> [''loop'', ''r3'', ''loop''] ! a = [''loop'', ''r3'', ''loop''] ! b" by auto
  have "ixs ! 0 = ixs ! 2" using e(2) [THEN spec, of 0, THEN mp, THEN spec, of 2] by simp
  with l e(1) show ?thesis by blast
qed

text \<open>(C37) A symbol that is used before its definition stays undefined: \<open>Define\<close> sets the flag and no value in a copy of
  the entry, returns without an error, also the second time, and \<open>Get\<close> still fails.\<close>

theorem asm_forward_reference_lost:
  assumes "sym_ok st" "indexes st k = None" "Use k st = ((i, None), st1)"
  shows "Define k v st1 = Inr ((i, None), st1) \<and> Get k st1 = Inr (NoValue, i, Some (''used by not defined: '' @ k))"
proof -
  have l: "length (entries st) < MaxSymbols" using assms sym_ok_len [OF assms(1)] by (auto simp: Use_def internalCreateSymbol_def split: if_splits)
  have "((i, None), st1) = ((of_nat (length (entries st)), None), created k 0 NoValue st)"
    using assms(2,3) internalCreateSymbol_room [OF l] by (simp add: Use_def)
  then show ?thesis using unat_index [OF l] by (simp add: Define_def Get_def created_def Let_def)
qed

theorem asm_forward_reference_lost_witness:
  "\<exists>i st. Use ''end'' MakeSymbolTable = ((i, None), st) \<and> Define ''end'' 3 st = Inr ((i, None), st)
     \<and> Get ''end'' st = Inr (NoValue, i, Some ''used by not defined: end'')"
proof -
  have "''end'' \<notin> dom (indexes MakeSymbolTable)"
    unfolding MakeSymbolTable_spec(2) set_map [symmetric] reserved_eval by (simp add: KeyTable_def key_entry_def)
  then have n: "indexes MakeSymbolTable ''end'' = None" by auto
  obtain i st where u: "Use ''end'' MakeSymbolTable = ((i, None), st)"
    using Use_cases [OF MakeSymbolTable_spec(1), of "''end''"] MakeSymbolTable_spec(3) by (auto simp: MaxSymbols_def)
  from asm_forward_reference_lost [OF MakeSymbolTable_spec(1) n u, of 3] u show ?thesis by auto
qed

text \<open>(C38) A signature holds the kinds of its three operands, and for every mnemonic of the table the number of its
  operands is the number of the fields of its signature that are not empty, which are the first ones.\<close>

theorem asm_signatures:
  "getSig (sigFor a b c) Ra = a AND 0xF \<and> getSig (sigFor a b c) Rb = b AND 0xF \<and> getSig (sigFor a b c) Rc = c AND 0xF
   \<and> getSig (sigFor a b c) Key = 0
   \<and> list_all (\<lambda>e. map (\<lambda>w. getSig (signature e) w \<noteq> 0) [Ra, Rb, Rc] = map (\<lambda>w. w \<le> numOperands (signature e)) [Ra, Rb, Rc]) KeyTable"
proof -
  have m: "(0xF :: u16) = mask 4" by (simp add: mask_eq_exp_minus_1)
  have "getSig (sigFor a b c) Ra = a AND 0xF" "getSig (sigFor a b c) Rb = b AND 0xF" "getSig (sigFor a b c) Rc = c AND 0xF"
    "getSig (sigFor a b c) Key = 0"
    unfolding getSig_def sigFor_def m Let_def
    by (auto intro!: bit_word_eqI simp: Key_def Ra_def Rb_def Rc_def bit_simps)
  moreover have "list_all (\<lambda>e. map (\<lambda>w. getSig (signature e) w \<noteq> 0) [Ra, Rb, Rc] = map (\<lambda>w. w \<le> numOperands (signature e)) [Ra, Rb, Rc]) KeyTable"
    by (simp add: KeyTable_def key_entry_def getSig_def sigFor_def numOperands_def Let_def Ra_def Rb_def Rc_def SeNone_def SeReg_def SeImm6_def
        SeImm7_def SeImm10_def SeVal16_def SeSym_def SeString_def)
       (simp add: word_le_nat_alt)
  ultimately show ?thesis by blast
qed

end
