(* ===== verification/Cex_Dev.thy ===== *)
theory Cex_Dev
  imports Prelude
begin

text \<open>
  The connection of the chip exerciser to its Arduino (\<open>exer/cex/dev\<close>): bytes over a serial port, and the
  commands of the protocol. The serial port is a third-party package: the methods of a port are fields of
  the record for it. Delays and the messages to the log are left out.
\<close>

declare bindO_simps [simp]

section \<open>The serial port and errors\<close>

datatype port_error = Errno nat | PortError string

text \<open>\<open>port_Read\<close> is a read into a buffer of one byte: the count, the byte and the error.\<close>

record 'p serial_port =
  pstate :: 'p
  port_Read :: "'p \<Rightarrow> (nat \<times> u8 \<times> port_error option) \<times> 'p"
  port_Write :: "u8 list \<Rightarrow> 'p \<Rightarrow> (nat \<times> port_error option) \<times> 'p"
  port_Close :: "'p \<Rightarrow> port_error option \<times> 'p"

record 'p Arduino =
  port :: "'p serial_port option"

text \<open>The errors that the functions of the exerciser return.\<close>

datatype cex_error =
    PortErr port_error
  | NoResponseError
  | UnexpectedResponseError u8 u8
  | Message string
  | UnknownToken string
  | BadHex string
  | WrongLength nat nat

text \<open>A function that uses the Arduino gives its result, or the error it returns, and the Arduino after
  it; \<open>bindR\<close> returns the first error.\<close>

type_synonym ('a, 'p) io = "(panic + ((cex_error + 'a) \<times> 'p Arduino)) option"

definition returnR :: "'a \<Rightarrow> 'p Arduino \<Rightarrow> ('a, 'p) io" where "returnR x a = Some (Inr (Inr x, a))"
definition failR :: "cex_error \<Rightarrow> 'p Arduino \<Rightarrow> ('a, 'p) io" where "failR e a = Some (Inr (Inl e, a))"

definition bindR :: "('a, 'p) io \<Rightarrow> ('a \<Rightarrow> 'p Arduino \<Rightarrow> ('b, 'p) io) \<Rightarrow> ('b, 'p) io" where
  "bindR m f = bindO m (\<lambda>(r, a). case r of Inl e \<Rightarrow> failR e a | Inr x \<Rightarrow> f x a)"

text \<open>A computation that may panic, without effect on the Arduino.\<close>

definition pureR :: "panic + 'a \<Rightarrow> 'p Arduino \<Rightarrow> ('a, 'p) io" where
  "pureR r a = (case r of Inl e \<Rightarrow> Some (Inl e) | Inr x \<Rightarrow> returnR x a)"

section \<open>Bytes\<close>

definition isRetryableSyscallError :: "port_error option \<Rightarrow> bool" where
  "isRetryableSyscallError err = (case err of Some (Errno n) \<Rightarrow> n = 4 | _ \<Rightarrow> False)"

definition nil_deref :: panic where "nil_deref = Fatal ''nil pointer dereference''"

partial_function (option) read_retry :: "'p serial_port \<Rightarrow> (panic + ((nat \<times> u8 \<times> port_error option) \<times> 'p serial_port)) option" where
  "read_retry p =
     (case port_Read p (pstate p) of ((n, b, err), q) \<Rightarrow>
        if \<not> isRetryableSyscallError err then Some (Inr ((n, b, err), p\<lparr>pstate := q\<rparr>))
        else if n \<noteq> 0 then Some (Inl (Fatal ''bytes returned despite EINTR''))
        else read_retry (p\<lparr>pstate := q\<rparr>))"

definition readByte :: "'p Arduino \<Rightarrow> (u8, 'p) io" where
  "readByte a =
     (case port a of
        None \<Rightarrow> Some (Inl nil_deref)
      | Some p \<Rightarrow>
          bindO (read_retry p) (\<lambda>((n, b, err), p).
            let a = a\<lparr>port := Some p\<rparr> in
            case err of Some e \<Rightarrow> failR (PortErr e) a | None \<Rightarrow> if n = 0 then failR NoResponseError a else returnR b a))"

partial_function (option) write_retry :: "u8 list \<Rightarrow> 'p serial_port \<Rightarrow> (panic + ((nat \<times> port_error option) \<times> 'p serial_port)) option" where
  "write_retry bs p =
     (case port_Write p bs (pstate p) of ((n, err), q) \<Rightarrow>
        if \<not> isRetryableSyscallError err then Some (Inr ((n, err), p\<lparr>pstate := q\<rparr>))
        else if n \<noteq> 0 then Some (Inl (Fatal ''bytes written despite EINTR''))
        else write_retry bs (p\<lparr>pstate := q\<rparr>))"

definition writeBytes :: "u8 list \<Rightarrow> 'p Arduino \<Rightarrow> (unit, 'p) io" where
  "writeBytes toWrite a =
     (case port a of
        None \<Rightarrow> Some (Inl nil_deref)
      | Some p \<Rightarrow>
          bindO (write_retry toWrite p) (\<lambda>((n, err), p).
            let a = a\<lparr>port := Some p\<rparr> in
            case err of
              Some e \<Rightarrow> failR (PortErr e) a
            | None \<Rightarrow> if n \<noteq> length toWrite then failR (Message ''write didn't consume all the bytes'') a else returnR () a))"

definition closeSerialPort :: "'p Arduino \<Rightarrow> (unit, 'p) io" where
  "closeSerialPort a =
     (case port a of
        None \<Rightarrow> failR (Message ''internal error: close(): port not open'') a
      | Some p \<Rightarrow>
          (case port_Close p (pstate p) of
             (Some e, q) \<Rightarrow> failR (PortErr e) (a\<lparr>port := Some (p\<lparr>pstate := q\<rparr>)\<rparr>)
           | (None, q) \<Rightarrow> returnR () (a\<lparr>port := None\<rparr>)))"

definition ReadFor :: "'p Arduino \<Rightarrow> (u8, 'p) io" where "ReadFor a = readByte a"
definition Write :: "u8 list \<Rightarrow> 'p Arduino \<Rightarrow> (unit, 'p) io" where "Write b a = writeBytes b a"
definition Close :: "'p Arduino \<Rightarrow> (unit, 'p) io" where "Close a = closeSerialPort a"

section \<open>Commands\<close>

definition ProtocolVersion :: u8 where "ProtocolVersion = 13"
definition Ack :: "u8 \<Rightarrow> u8" where "Ack b = NOT b"
definition CmdSync :: u8 where "CmdSync = 0xE1"
definition CmdGetVer :: u8 where "CmdGetVer = 0xE2"
definition CmdPoll :: u8 where "CmdPoll = 0xE3"
definition CmdPulse :: u8 where "CmdPulse = 0xF0"
definition CmdSet :: u8 where "CmdSet = 0xF4"
definition CmdSetR :: u8 where "CmdSetR = 0xF5"
definition CmdGet :: u8 where "CmdGet = 0xF8"
definition CmdGetR :: u8 where "CmdGetR = 0xF9"

definition getAck :: "u8 \<Rightarrow> 'p Arduino \<Rightarrow> (unit, 'p) io" where
  "getAck cmd a = bindR (ReadFor a) (\<lambda>b a. if b \<noteq> Ack cmd then failR (UnexpectedResponseError cmd b) a else returnR () a)"

fun read_bytes :: "nat \<Rightarrow> 'p Arduino \<Rightarrow> (u8 list, 'p) io" where
  "read_bytes 0 a = returnR [] a"
| "read_bytes (Suc n) a = bindR (ReadFor a) (\<lambda>b a. bindR (read_bytes n a) (\<lambda>bs a. returnR (b # bs) a))"

definition DoFixedCommand :: "u8 list \<Rightarrow> nat \<Rightarrow> 'p Arduino \<Rightarrow> (u8 list, 'p) io" where
  "DoFixedCommand fixed expected a =
     (if length fixed < 1 \<or> length fixed > 8 then failR (Message ''invalid fixed command length'') a
      else if expected > 8 then failR (Message ''invalid fixed response expected'') a
      else bindR (Write fixed a) (\<lambda>_ a. bindR (getAck (hd fixed) a) (\<lambda>_ a. read_bytes expected a)))"

definition DoCommand :: "u8 \<Rightarrow> 'p Arduino \<Rightarrow> (unit, 'p) io" where
  "DoCommand cmd a = bindR (DoFixedCommand [cmd] 0 a) (\<lambda>_ a. returnR () a)"

definition DoCountedSend :: "u8 list \<Rightarrow> u8 list \<Rightarrow> 'p Arduino \<Rightarrow> (unit, 'p) io" where
  "DoCountedSend fixed counted a =
     (if fixed = [] then Some (Inl IndexOutOfRange)
      else if length counted < unat (last fixed) then failR (Message ''not enough data'') a
      else bindR (DoFixedCommand fixed 0 a) (\<lambda>_ a. Write counted a))"

definition DoCountedReceive :: "u8 list \<Rightarrow> 'p Arduino \<Rightarrow> (u8 list, 'p) io" where
  "DoCountedReceive fixed a = bindR (DoFixedCommand fixed 1 a) (\<lambda>expected a. bindR (pureR (idx expected 0) a) (\<lambda>count a. read_bytes (unat count) a))"

definition getNanoRequest :: "'p Arduino \<Rightarrow> (u8 list, 'p) io" where
  "getNanoRequest a = DoCountedReceive [CmdPoll] a"

definition isLogRequest :: "u8 list \<Rightarrow> panic + bool" where
  "isLogRequest req = bindE (idx req 0) (\<lambda>c. Inr (\<not> (c \<ge> 0x23 \<and> c \<le> 0x26)))"

definition DoPoll :: "'p Arduino \<Rightarrow> (unit, 'p) io" where
  "DoPoll a =
     bindR (getNanoRequest a) (\<lambda>msg a.
       if length msg \<noteq> 0
       then bindR (pureR (isLogRequest msg) a) (\<lambda>l a. if l then returnR () a else failR (Message ''unsupported request type'') a)
       else returnR () a)"

section \<open>Sessions\<close>

text \<open>A result of which only the effect on the Arduino counts.\<close>

definition ignoreR :: "('a, 'p) io \<Rightarrow> ('p Arduino \<Rightarrow> ('b, 'p) io) \<Rightarrow> ('b, 'p) io" where
  "ignoreR m f = bindO m (\<lambda>(_, a). f a)"

text \<open>The result, or the error as a value that is looked at.\<close>

definition catchR :: "('a, 'p) io \<Rightarrow> (cex_error + 'a \<Rightarrow> 'p Arduino \<Rightarrow> ('b, 'p) io) \<Rightarrow> ('b, 'p) io" where
  "catchR m f = bindO m (\<lambda>(r, a). f r a)"

fun drain_loop :: "nat \<Rightarrow> 'p Arduino \<Rightarrow> (unit, 'p) io" where
  "drain_loop 0 a = failR (Message ''Nano is transmitting continuously'') a"
| "drain_loop (Suc i) a = catchR (ReadFor a) (\<lambda>r a. case r of Inl _ \<Rightarrow> returnR () a | Inr _ \<Rightarrow> drain_loop i a)"

definition drain :: "'p Arduino \<Rightarrow> (unit, 'p) io" where "drain a = drain_loop 300 a"

fun late_acks :: "nat \<Rightarrow> 'p Arduino \<Rightarrow> (unit, 'p) io" where
  "late_acks 0 a = returnR () a"
| "late_acks (Suc n) a = ignoreR (ReadFor a) (late_acks n)"

text \<open>\<open>sync_loop tries nSent\<close>\<close>

fun sync_loop :: "nat \<Rightarrow> nat \<Rightarrow> 'p Arduino \<Rightarrow> (unit, 'p) io" where
  "sync_loop 0 nSent a = failR (Message ''failed to synchronize'') a"
| "sync_loop (Suc i) nSent a =
     catchR (DoCommand CmdSync a) (\<lambda>r a. case r of Inl _ \<Rightarrow> sync_loop i (nSent + 1) a | Inr _ \<Rightarrow> late_acks (nSent + 1 - 1) a)"

definition getSyncResponse :: "'p Arduino \<Rightarrow> (unit, 'p) io" where "getSyncResponse a = sync_loop 3 0 a"

definition checkProtocolVersion :: "'p Arduino \<Rightarrow> (unit, 'p) io" where
  "checkProtocolVersion a =
     bindR (DoFixedCommand [CmdGetVer] 1 a) (\<lambda>b a. bindR (pureR (idx b 0) a) (\<lambda>v a.
       if v \<noteq> ProtocolVersion
       then failR (Message (''protocol version mismatch: host 0x'' @ fmt_X 2 (unat ProtocolVersion) @ '', Arduino 0x'' @ fmt_X 2 (unat v) @ newline)) a
       else returnR () a))"

definition establishConnection :: "bool \<Rightarrow> 'p Arduino \<Rightarrow> (unit, 'p) io" where
  "establishConnection wasReset a =
     bindR (if wasReset then returnR () a else drain a) (\<lambda>_ a.
     bindR (getSyncResponse a) (\<lambda>_ a. checkProtocolVersion a))"

text \<open>\<open>session_loop tries i err\<close>: the error of the last try is the result.\<close>

fun session_loop :: "nat \<Rightarrow> nat \<Rightarrow> cex_error option \<Rightarrow> 'p Arduino \<Rightarrow> (unit, 'p) io" where
  "session_loop 0 i err a = (case err of Some e \<Rightarrow> failR e a | None \<Rightarrow> returnR () a)"
| "session_loop (Suc n) i err a =
     catchR (establishConnection (i = 0) a) (\<lambda>r a. case r of Inr _ \<Rightarrow> returnR () a | Inl e \<Rightarrow> session_loop n (i + 1) (Some e) a)"

definition CreateSession :: "'p Arduino \<Rightarrow> (unit, 'p) io" where "CreateSession a = session_loop 3 0 None a"

end
