(* ===== verification/Cex_Vector.thy ===== *)
theory Cex_Vector
  imports Cex_Dev "HOL-Library.Char_ord"
begin

text \<open>
  Test vectors of the chip exerciser: the bit vectors and the record of a test file (\<open>exer/cex/utils\<close>), the
  commands of the exerciser with the scanning of their arguments (\<open>exer/cex/main.go\<close>), and the processing of vector files
  (\<open>exer/cex/vector.go\<close>). The messages to the log are left out.
\<close>

section \<open>Bit vectors\<close>

type_synonym BitPosition = nat

record FixedBitVec =
  bitArray :: "u8 list"

definition NewFixedBitVec :: "nat \<Rightarrow> FixedBitVec" where
  "NewFixedBitVec sz = (let n = 1 + sz div 8 in \<lparr>bitArray = replicate n 0\<rparr>)"

definition SetBit :: "BitPosition \<Rightarrow> FixedBitVec \<Rightarrow> panic + FixedBitVec" where
  "SetBit bt fbv =
     (let theByte = bt div 8; theBit = bt mod 8 in
      bindE (idx (bitArray fbv) theByte) (\<lambda>b.
      bindE (upd (bitArray fbv) theByte (b OR push_bit theBit 1)) (\<lambda>bs. Inr \<lparr>bitArray = bs\<rparr>)))"

definition ResetBit :: "BitPosition \<Rightarrow> FixedBitVec \<Rightarrow> panic + FixedBitVec" where
  "ResetBit bt fbv =
     (let theByte = bt div 8; theBit = bt mod 8 in
      bindE (idx (bitArray fbv) theByte) (\<lambda>b.
      bindE (upd (bitArray fbv) theByte (b AND NOT (push_bit theBit 1))) (\<lambda>bs. Inr \<lparr>bitArray = bs\<rparr>)))"

definition GetBit :: "BitPosition \<Rightarrow> FixedBitVec \<Rightarrow> panic + nat" where
  "GetBit bt fbv =
     (let theByte = bt div 8; theBit = bt mod 8 in
      bindE (idx (bitArray fbv) theByte) (\<lambda>b. Inr (unat (drop_bit theBit b AND 1))))"

definition GetByte :: "BitPosition \<Rightarrow> FixedBitVec \<Rightarrow> panic + u8" where
  "GetByte bt fbv = idx (bitArray fbv) (bt div 8)"

section \<open>Test files\<close>

text \<open>The Arduino that the record of the source also holds is passed beside it.\<close>

record TestFile =
  socket :: string
  tf_size :: nat
  clockPin :: nat
  toUUT :: FixedBitVec
  fromUUT :: FixedBitVec
  ignored :: FixedBitVec

definition NewTestFile :: "string \<Rightarrow> TestFile option" where
  "NewTestFile sock =
     (let make = (\<lambda>n. \<lparr>socket = sock, tf_size = n, clockPin = 0, toUUT = NewFixedBitVec n, fromUUT = NewFixedBitVec n, ignored = NewFixedBitVec n\<rparr>)
      in if sock = ''PLCC'' then Some (make 68) else if sock = ''ZIF'' then Some (make 24) else None)"

definition SetToUUT :: "BitPosition \<Rightarrow> TestFile \<Rightarrow> panic + TestFile" where
  "SetToUUT bt tf = bindE (SetBit bt (toUUT tf)) (\<lambda>v. Inr (tf\<lparr>toUUT := v\<rparr>))"

definition SetFromUUT :: "BitPosition \<Rightarrow> TestFile \<Rightarrow> panic + TestFile" where
  "SetFromUUT bt tf = bindE (SetBit bt (fromUUT tf)) (\<lambda>v. Inr (tf\<lparr>fromUUT := v\<rparr>))"

definition ResetToUUT :: "BitPosition \<Rightarrow> TestFile \<Rightarrow> panic + TestFile" where
  "ResetToUUT bt tf = bindE (ResetBit bt (toUUT tf)) (\<lambda>v. Inr (tf\<lparr>toUUT := v\<rparr>))"

definition ResetFromUUT :: "BitPosition \<Rightarrow> TestFile \<Rightarrow> panic + TestFile" where
  "ResetFromUUT bt tf = bindE (ResetBit bt (fromUUT tf)) (\<lambda>v. Inr (tf\<lparr>fromUUT := v\<rparr>))"

definition GetToUUT :: "BitPosition \<Rightarrow> TestFile \<Rightarrow> panic + nat" where "GetToUUT bt tf = GetBit bt (toUUT tf)"
definition GetFromUUT :: "BitPosition \<Rightarrow> TestFile \<Rightarrow> panic + nat" where "GetFromUUT bt tf = GetBit bt (fromUUT tf)"

definition SetIgnored :: "BitPosition \<Rightarrow> TestFile \<Rightarrow> panic + TestFile" where
  "SetIgnored bt tf = bindE (SetBit bt (ignored tf)) (\<lambda>v. Inr (tf\<lparr>ignored := v\<rparr>))"

definition IsIgnored :: "BitPosition \<Rightarrow> TestFile \<Rightarrow> panic + nat" where "IsIgnored bt tf = GetBit bt (ignored tf)"

definition SetClock :: "BitPosition \<Rightarrow> TestFile \<Rightarrow> panic + TestFile" where
  "SetClock bt tf = SetToUUT bt (tf\<lparr>clockPin := 1 + bt\<rparr>)"

definition HasClock :: "TestFile \<Rightarrow> bool" where "HasClock tf \<longleftrightarrow> clockPin tf \<noteq> 0"

definition GetClock :: "TestFile \<Rightarrow> panic + BitPosition" where
  "GetClock tf = (if clockPin tf = 0 then Inl (Fatal ''no clock pin'') else Inr (clockPin tf - 1))"

definition Clear :: "TestFile \<Rightarrow> TestFile" where
  "Clear tf = tf\<lparr>clockPin := 0, toUUT := NewFixedBitVec (tf_size tf), fromUUT := NewFixedBitVec (tf_size tf)\<rparr>"

definition GetByteFromUUT :: "BitPosition \<Rightarrow> TestFile \<Rightarrow> panic + u8" where "GetByteFromUUT bt tf = GetByte bt (fromUUT tf)"
definition GetByteToUUT :: "BitPosition \<Rightarrow> TestFile \<Rightarrow> panic + u8" where "GetByteToUUT bt tf = GetByte bt (toUUT tf)"

section \<open>Scanning the arguments of a command\<close>

text \<open>\<open>fmt.Sscanf\<close> with the formats \<open>%x\<close> and \<open>%x %x\<close> into bytes, on ASCII text.\<close>

definition isSpace :: "char \<Rightarrow> bool" where
  "isSpace c \<longleftrightarrow> c = CHR '' '' \<or> c = CHR 0x09 \<or> c = CHR 0x0A \<or> c = CHR 0x0B \<or> c = CHR 0x0C \<or> c = CHR 0x0D"

fun SkipSpace :: "string \<Rightarrow> string option" where
  "SkipSpace [] = Some []"
| "SkipSpace (r # rs) = (if r = CHR 0x0A then None else if isSpace r then SkipSpace rs else Some (r # rs))"

definition hex_digit :: "char \<Rightarrow> nat option" where
  "hex_digit c =
     (if CHR ''0'' \<le> c \<and> c \<le> CHR ''9'' then Some (of_char c - 48)
      else if CHR ''a'' \<le> c \<and> c \<le> CHR ''f'' then Some (of_char c - 87)
      else if CHR ''A'' \<le> c \<and> c \<le> CHR ''F'' then Some (of_char c - 55) else None)"

definition hex_value :: "string \<Rightarrow> nat" where
  "hex_value ds = foldl (\<lambda>n c. n * 16 + the (hex_digit c)) 0 ds"

definition scan_hex :: "string \<Rightarrow> (u8 \<times> string) option" where
  "scan_hex s =
     (case SkipSpace s of
        None \<Rightarrow> None
      | Some s \<Rightarrow>
          let ds = takeWhile (\<lambda>c. hex_digit c \<noteq> None) s in
          if ds = [] then None else if hex_value ds \<ge> 256 then None
          else Some (of_nat (hex_value ds), dropWhile (\<lambda>c. hex_digit c \<noteq> None) s))"

definition match_space :: "string \<Rightarrow> string option" where
  "match_space s =
     (case s of [] \<Rightarrow> Some []
      | r # rs \<Rightarrow> if \<not> isSpace r \<or> r = CHR 0x0A then None else Some (dropWhile (\<lambda>c. isSpace c \<and> c \<noteq> CHR 0x0A) s))"

definition sscanf_x :: "string \<Rightarrow> u8 option" where
  "sscanf_x s = map_option fst (scan_hex s)"

definition sscanf_xx :: "string \<Rightarrow> (u8 \<times> u8) option" where
  "sscanf_xx s =
     Option.bind (scan_hex s) (\<lambda>(x, s). Option.bind (match_space s) (\<lambda>s. map_option (\<lambda>(y, _). (x, y)) (scan_hex s)))"

text \<open>\<open>line[n:]\<close>\<close>

definition slice_from :: "nat \<Rightarrow> string \<Rightarrow> panic + string" where
  "slice_from n s = (if n \<le> length s then Inr (drop n s) else Inl IndexOutOfRange)"

section \<open>Commands\<close>

definition doToggleCmd :: "string \<Rightarrow> 'p Arduino \<Rightarrow> (unit, 'p) io" where
  "doToggleCmd line a =
     bindR (pureR (slice_from 2 line) a) (\<lambda>args a.
       case sscanf_xx args of
         None \<Rightarrow> returnR () a
       | Some (x, y) \<Rightarrow> bindR (DoFixedCommand [CmdPulse, x, y] 0 a) (\<lambda>_ a. returnR () a))"

definition doSetCmd :: "string \<Rightarrow> 'p Arduino \<Rightarrow> (unit, 'p) io" where
  "doSetCmd line a =
     bindR (pureR (idx line 1) a) (\<lambda>c a.
       let (cmdByte, offset) = (if c = CHR ''r'' then (CmdSetR, 3) else (CmdSet, 2)) in
       bindR (pureR (slice_from offset line) a) (\<lambda>args a.
         case sscanf_xx args of
           None \<Rightarrow> returnR () a
         | Some (x, y) \<Rightarrow> bindR (DoFixedCommand [cmdByte, x, y] 0 a) (\<lambda>_ a. returnR () a)))"

definition doGetCmd :: "string \<Rightarrow> 'p Arduino \<Rightarrow> (u8, 'p) io" where
  "doGetCmd line a =
     bindR (pureR (idx line 1) a) (\<lambda>c a.
       let (cmdByte, offset) = (if c = CHR ''r'' then (CmdGetR, 3) else (CmdGet, 2)) in
       bindR (pureR (slice_from offset line) a) (\<lambda>args a.
         case sscanf_x args of
           None \<Rightarrow> returnR 0 a
         | Some x \<Rightarrow> bindR (DoFixedCommand [cmdByte, x] 1 a) (\<lambda>sl a. pureR (idx sl 0) a)))"

definition process :: "string \<Rightarrow> 'p Arduino \<Rightarrow> (unit, 'p) io" where
  "process line a =
     bindR (pureR (idx line 0) a) (\<lambda>c a.
       if c = CHR ''t'' then doToggleCmd line a
       else if c = CHR ''s'' then doSetCmd line a
       else if c = CHR ''g'' then bindR (doGetCmd line a) (\<lambda>_ a. returnR () a)
       else returnR () a)"

section \<open>Applying a vector\<close>

definition pinToPos :: "nat \<Rightarrow> BitPosition" where "pinToPos pin = pin - 1"

text \<open>The byte with the bits of some pins, from the bit \<open>sh\<close> on.\<close>

fun pins_byte :: "TestFile \<Rightarrow> nat list \<Rightarrow> nat \<Rightarrow> u8 \<Rightarrow> panic + u8" where
  "pins_byte tf [] sh b = Inr b"
| "pins_byte tf (p # ps) sh b = bindE (GetToUUT (pinToPos p) tf) (\<lambda>v. pins_byte tf ps (sh + 1) (b OR push_bit sh (of_nat v)))"

definition set_port :: "string \<Rightarrow> panic + u8 \<Rightarrow> 'p Arduino \<Rightarrow> (unit, 'p) io" where
  "set_port ident r a = bindR (pureR r a) (\<lambda>b a. doSetCmd (''s '' @ ident @ '' '' @ fmt_X 2 (unat b)) a)"

text \<open>The loop over the pins of the result, from the highest bit down.\<close>

fun expected_loop :: "TestFile \<Rightarrow> nat list \<Rightarrow> nat \<Rightarrow> nat \<Rightarrow> panic + nat" where
  "expected_loop tf [] sh e = Inr e"
| "expected_loop tf (p # ps) sh e =
     bindE (GetFromUUT (pinToPos p) tf) (\<lambda>v. expected_loop tf ps (sh - 1) (e OR push_bit sh (v AND 1)))"

text \<open>The loop over the pins of the flags.\<close>

fun flags_loop :: "TestFile \<Rightarrow> u8 \<Rightarrow> nat list \<Rightarrow> nat \<Rightarrow> nat \<Rightarrow> panic + nat" where
  "flags_loop tf got [] sh errorCount = Inr errorCount"
| "flags_loop tf got (p # ps) sh errorCount =
     bindE (GetFromUUT (pinToPos p) tf) (\<lambda>v.
     bindE (if drop_bit sh got AND 1 \<noteq> of_nat v
            then bindE (IsIgnored (pinToPos p) tf) (\<lambda>ig. Inr (if ig = 0 then errorCount + 1 else errorCount))
            else Inr errorCount) (\<lambda>errorCount. flags_loop tf got ps (sh + 1) errorCount))"

definition applyPLCC :: "TestFile \<Rightarrow> 'p Arduino \<Rightarrow> (nat, 'p) io" where
  "applyPLCC tf a =
     bindR (set_port ''4'' (GetByteToUUT 0 tf) a) (\<lambda>_ a.
     bindR (set_port ''5'' (GetByteToUUT 8 tf) a) (\<lambda>_ a.
     bindR (set_port ''6'' (pins_byte tf [27, 26, 25, 44, 45, 46, 47, 48] 0 0) a) (\<lambda>_ a.
     bindR (set_port ''A'' (pins_byte tf [49, 50, 51, 52] 4 0) a) (\<lambda>_ a.
     bindR (set_port ''3'' (pins_byte tf [53..<61] 0 0) a) (\<lambda>_ a.
     bindR (set_port ''2'' (pins_byte tf [61..<69] 0 0) a) (\<lambda>_ a.
     (if HasClock tf then ignoreR (doToggleCmd ''t 1 8'' a) else (\<lambda>f. f a)) (\<lambda>a.
     bindR (doToggleCmd ''t 1 B'' a) (\<lambda>_ a.
     bindR (doToggleCmd ''t 1 0'' a) (\<lambda>_ a.
     bindR (doToggleCmd ''t 1 7'' a) (\<lambda>_ a.
     bindR (doGetCmd ''g C'' a) (\<lambda>cpgzvXXX a.
     bindR (doGetCmd ''g 1'' a) (\<lambda>bHigh a.
     bindR (doGetCmd ''g 9'' a) (\<lambda>bLow a.
     let got = push_bit 8 (unat bHigh) OR unat bLow in
     bindR (pureR (expected_loop tf [28..<44] 15 0) a) (\<lambda>expected a.
       pureR (flags_loop tf cpgzvXXX [20..<25] 0 (if expected \<noteq> got then 1 else 0)) a))))))))))))))"

definition applyZIF :: "TestFile \<Rightarrow> 'p Arduino \<Rightarrow> (nat, 'p) io" where
  "applyZIF tf a = returnR 0 a"

definition applyVector :: "TestFile \<Rightarrow> 'p Arduino \<Rightarrow> (nat, 'p) io" where
  "applyVector tf a =
     (if socket tf = ''PLCC'' then applyPLCC tf a
      else if socket tf = ''ZIF'' then applyZIF tf a
      else failR (Message (''unknown socket type '' @ socket tf)) a)"

section \<open>Vector files\<close>

text \<open>\<open>strconv.ParseUint(t[1:5], 16, 16)\<close>; the slice panics on a shorter token.\<close>

definition hex4 :: "string \<Rightarrow> panic + nat option" where
  "hex4 t =
     (if length t < 5 then Inl IndexOutOfRange
      else let ds = take 4 (drop 1 t) in Inr (if list_all (\<lambda>c. hex_digit c \<noteq> None) ds then Some (hex_value ds) else None))"

definition Reverse16 :: "u16 \<Rightarrow> u16" where
  "Reverse16 w = horner_sum of_bool 2 (rev (map (bit w) [0..<16]))"

text \<open>The loop that sets sixteen bits.\<close>

fun set_word :: "(BitPosition \<Rightarrow> TestFile \<Rightarrow> panic + TestFile) \<Rightarrow> nat \<Rightarrow> nat \<Rightarrow> BitPosition \<Rightarrow> TestFile \<Rightarrow> panic + (BitPosition \<times> TestFile)" where
  "set_word f 0 v pos tf = Inr (pos, tf)"
| "set_word f (Suc i) v pos tf =
     bindE (if v AND 1 \<noteq> 0 then f pos tf else Inr tf) (\<lambda>tf. set_word f i (drop_bit 1 v) (pos + 1) tf)"

definition vector_token :: "string \<Rightarrow> BitPosition \<Rightarrow> TestFile \<Rightarrow> panic + (cex_error + (BitPosition \<times> TestFile))" where
  "vector_token t pos tf =
     (let step = (\<lambda>r. bindE r (\<lambda>tf. Inr (Inr (pos + 1, tf)))) in
      case t of
        [] \<Rightarrow> Inr (Inr (pos, tf))
      | c # _ \<Rightarrow>
          if c = CHR ''0'' then step (ResetToUUT pos tf)
          else if c = CHR ''1'' then step (SetToUUT pos tf)
          else if c = CHR ''L'' then step (ResetFromUUT pos tf)
          else if c = CHR ''H'' then step (SetFromUUT pos tf)
          else if c = CHR ''C'' then bindE (SetClock pos tf) (\<lambda>tf. Inr (Inr (pos, tf)))
          else if c = CHR ''X'' \<or> c = CHR ''G'' \<or> c = CHR ''V'' then step (SetIgnored pos tf)
          else if c = CHR ''%'' then
            bindE (hex4 t) (\<lambda>r. case r of None \<Rightarrow> Inr (Inl (BadHex t))
              | Some v \<Rightarrow> bindE (set_word SetToUUT 16 v pos tf) (\<lambda>q. Inr (Inr q)))
          else if c = CHR ''@'' then
            bindE (hex4 t) (\<lambda>r. case r of None \<Rightarrow> Inr (Inl (BadHex t))
              | Some v \<Rightarrow> bindE (set_word SetFromUUT 16 (unat (Reverse16 (of_nat v))) pos tf) (\<lambda>q. Inr (Inr q)))
          else Inr (Inl (UnknownToken t)))"

fun vector_tokens :: "string list \<Rightarrow> BitPosition \<Rightarrow> TestFile \<Rightarrow> panic + (cex_error + (BitPosition \<times> TestFile))" where
  "vector_tokens [] pos tf = Inr (Inr (pos, tf))"
| "vector_tokens (t # ts) pos tf =
     bindE (vector_token t pos tf) (\<lambda>r. case r of Inl e \<Rightarrow> Inr (Inl e) | Inr (pos, tf) \<Rightarrow> vector_tokens ts pos tf)"

definition parseVector :: "TestFile \<Rightarrow> string list \<Rightarrow> panic + (cex_error + TestFile)" where
  "parseVector tf tokens =
     bindE (vector_tokens tokens 0 tf) (\<lambda>r. Inr (case r of
        Inl e \<Rightarrow> Inl e
      | Inr (pos, tf) \<Rightarrow> if pos \<noteq> tf_size tf then Inl (WrongLength (tf_size tf) pos) else Inr tf))"

text \<open>\<open>strings.Split(line, " ")\<close>\<close>

fun split_spaces :: "string \<Rightarrow> string list" where
  "split_spaces [] = [[]]"
| "split_spaces (c # cs) = (if c = CHR '' '' then [] # split_spaces cs else (case split_spaces cs of t # ts \<Rightarrow> (c # t) # ts | [] \<Rightarrow> [[c]]))"

text \<open>The loop of \<open>scan\<close> over the lines that the scanner gives.\<close>

fun scan :: "string list \<Rightarrow> TestFile option \<Rightarrow> nat \<Rightarrow> 'p Arduino \<Rightarrow> (nat, 'p) io" where
  "scan [] tf totalErrors a = returnR totalErrors a"
| "scan (line # lines) tf totalErrors a =
     (if length line = 0 \<or> line ! 0 = CHR ''#'' \<or> line ! 0 = CHR '' '' then scan lines tf totalErrors a
      else if line ! 0 = CHR ''>'' then scan lines tf totalErrors a
      else let tokens = split_spaces line in
        if tokens ! 0 = ''socket'' then
          (if tf \<noteq> None \<or> length tokens \<noteq> 2 then failR (Message ''bad 'socket' statement'') a
           else case NewTestFile (tokens ! 1) of None \<Rightarrow> failR (Message ''bad socket type'') a | Some t \<Rightarrow> scan lines (Some t) totalErrors a)
        else case tf of
          None \<Rightarrow> Some (Inl nil_deref)
        | Some t \<Rightarrow>
            bindR (pureR (parseVector (Clear t) tokens) a) (\<lambda>r a.
              case r of
                Inl e \<Rightarrow> failR e a
              | Inr t \<Rightarrow> bindR (applyVector t a) (\<lambda>errorCount a. scan lines (Some t) (totalErrors + errorCount) a)))"

definition DoVectorFile :: "(string \<Rightarrow> string + string list) \<Rightarrow> string \<Rightarrow> 'p Arduino \<Rightarrow> (nat, 'p) io" where
  "DoVectorFile open_lines filePath a =
     (case open_lines filePath of Inl err \<Rightarrow> failR (Message err) a | Inr ls \<Rightarrow> scan ls None 0 a)"

text \<open>The processing of the files of the command line, with the exit code of the program.\<close>

fun vector_files :: "(string \<Rightarrow> string + string list) \<Rightarrow> string list \<Rightarrow> nat \<Rightarrow> 'p Arduino \<Rightarrow> (nat, 'p) io" where
  "vector_files open_lines [] totalFailures a = returnR (if totalFailures = 0 then 0 else 3) a"
| "vector_files open_lines (vf # vfs) totalFailures a =
     catchR (DoVectorFile open_lines vf a) (\<lambda>r a. case r of Inl _ \<Rightarrow> returnR 2 a | Inr n \<Rightarrow> vector_files open_lines vfs (totalFailures + n) a)"

end
