(* ===== verification/Cex_Check.thy ===== *)
theory Cex_Check
  imports Cex_Vector
begin

text \<open>
  Proofs about the chip exerciser: commands to a device that keeps to the protocol, bit vectors as sets of positions,
  and the parsing and application of vectors.
\<close>

section \<open>Results\<close>

lemma bindR_simps [simp]:
  "bindR (returnR x a) f = f x a" "bindR (failR e a) f = failR e a" "bindR (Some (Inl p)) f = Some (Inl p)"
  by (simp_all add: bindR_def returnR_def failR_def)

lemma pureR_simps [simp]: "pureR (Inr x) a = returnR x a" "pureR (Inl e) a = Some (Inl e)"
  by (simp_all add: pureR_def)

section \<open>A device that keeps to the protocol\<close>

text \<open>The device answers a command with its acknowledgement and the bytes that \<open>step\<close> gives; the port holds the device and the
  bytes that the host has not read.\<close>

type_synonym 'd device = "u8 list \<Rightarrow> 'd \<Rightarrow> u8 list \<times> 'd"

definition nano_write :: "'d device \<Rightarrow> u8 list \<Rightarrow> 'd \<times> u8 list \<Rightarrow> (nat \<times> port_error option) \<times> ('d \<times> u8 list)" where
  "nano_write step bs p = (case p of (d, q) \<Rightarrow> case step bs d of (resp, d') \<Rightarrow> ((length bs, None), (d', q @ Ack (hd bs) # resp)))"

definition nano_read :: "'d \<times> u8 list \<Rightarrow> (nat \<times> u8 \<times> port_error option) \<times> ('d \<times> u8 list)" where
  "nano_read p = (case p of (d, []) \<Rightarrow> ((0, 0, None), (d, [])) | (d, b # q) \<Rightarrow> ((1, b, None), (d, q)))"

definition nano_queue :: "'d device \<Rightarrow> 'd \<Rightarrow> u8 list \<Rightarrow> ('d \<times> u8 list) Arduino" where
  "nano_queue step d q = \<lparr>port = Some \<lparr>pstate = (d, q), port_Read = nano_read, port_Write = nano_write step, port_Close = (\<lambda>p. (None, p))\<rparr>\<rparr>"

abbreviation (input) nano :: "'d device \<Rightarrow> 'd \<Rightarrow> ('d \<times> u8 list) Arduino" where
  "nano step d \<equiv> nano_queue step d []"

lemma read_retry_done:
  "port_Read p (pstate p) = ((n, b, None), q) \<Longrightarrow> read_retry p = Some (Inr ((n, b, None), p\<lparr>pstate := q\<rparr>))"
  by (subst read_retry.simps) (simp add: isRetryableSyscallError_def)

lemma write_retry_done:
  "port_Write p bs (pstate p) = ((n, None), q) \<Longrightarrow> write_retry bs p = Some (Inr ((n, None), p\<lparr>pstate := q\<rparr>))"
  by (subst write_retry.simps) (simp add: isRetryableSyscallError_def)

lemma ReadFor_nano: "ReadFor (nano_queue step d (b # q)) = returnR b (nano_queue step d q)"
  by (simp add: ReadFor_def readByte_def nano_queue_def read_retry_done nano_read_def)

lemma Write_nano: "Write bs (nano_queue step d q) = returnR () (nano_queue step (snd (step bs d)) (q @ Ack (hd bs) # fst (step bs d)))"
  by (simp add: Write_def writeBytes_def nano_queue_def write_retry_done nano_write_def case_prod_beta)

lemma read_bytes_nano: "read_bytes (length bs) (nano_queue step d (bs @ q)) = returnR bs (nano_queue step d q)"
  by (induction bs) (simp_all add: ReadFor_nano)

lemma DoFixedCommand_nano:
  assumes "1 \<le> length c" "length c \<le> 8" "length (fst (step c d)) = n" "n \<le> 8"
  shows "DoFixedCommand c n (nano step d) = returnR (fst (step c d)) (nano step (snd (step c d)))"
  using assms read_bytes_nano [of "fst (step c d)" step "snd (step c d)" "[]"]
  by (cases c) (simp_all add: DoFixedCommand_def Write_nano getAck_def ReadFor_nano)

definition protocol :: "'d device \<Rightarrow> bool" where
  "protocol step \<longleftrightarrow> (\<forall>d x y. fst (step [CmdSet, x, y] d) = [] \<and> fst (step [CmdPulse, x, y] d) = [] \<and> length (fst (step [CmdGet, x] d)) = 1)"

section \<open>Hexadecimal numbers\<close>

lemma hex_digit_char: "k < 16 \<Longrightarrow> hex_digit (digit_char k) = Some k"
proof -
  assume "k < 16"
  then have "k = 0 \<or> k = 1 \<or> k = 2 \<or> k = 3 \<or> k = 4 \<or> k = 5 \<or> k = 6 \<or> k = 7 \<or> k = 8 \<or> k = 9 \<or> k = 10
    \<or> k = 11 \<or> k = 12 \<or> k = 13 \<or> k = 14 \<or> k = 15" by arith
  then show ?thesis by (elim disjE) (simp_all add: digit_char_def digit_chars_def hex_digit_def less_eq_char_def)
qed

lemma hex_digit_space: "hex_digit c \<noteq> None \<Longrightarrow> \<not> isSpace c"
  by (auto simp: hex_digit_def isSpace_def less_eq_char_def split: if_splits)

lemma to_digits_length: "2 \<le> b \<Longrightarrow> n < b ^ w \<Longrightarrow> 0 < w \<Longrightarrow> length (to_digits b n) \<le> w"
proof (induction b n arbitrary: w rule: to_digits.induct)
  case (1 b n)
  show ?case
  proof (cases "n < b")
    case True
    then show ?thesis using 1 by (simp add: to_digits.simps [of b n])
  next
    case False
    then obtain v where w: "w = Suc v" "0 < v" using 1 by (cases w; cases "w - 1") auto
    then have "n div b < b ^ v" using 1(2,3) by (simp add: div_less_iff_less_mult mult.commute)
    then show ?thesis using 1 False w by (simp add: to_digits.simps [of b n])
  qed
qed

lemma fmt_X_hex:
  assumes "n < 16 ^ w" "0 < w"
  shows "length (fmt_X w n) = w" "list_all (\<lambda>c. hex_digit c \<noteq> None) (fmt_X w n)" "hex_value (fmt_X w n) = n"
proof -
  let ?ds = "zero_pad w (to_digits 16 n)"
  have d: "\<forall>k \<in> set ?ds. k < 16" using to_digits_small [of 16 _ n] by (auto simp: zero_pad_def)
  have "length (to_digits 16 n) \<le> w" using to_digits_length assms by simp
  then show "length (fmt_X w n) = w" by (simp add: fmt_X_def zero_pad_def)
  show "list_all (\<lambda>c. hex_digit c \<noteq> None) (fmt_X w n)" using d hex_digit_char by (auto simp: fmt_X_def list_all_iff)
  have "foldl (\<lambda>n c. n * 16 + the (hex_digit c)) m (map digit_char ks) = foldl (\<lambda>n k. n * 16 + k) m ks" if "\<forall>k \<in> set ks. k < 16" for ks m
    using that by (induction ks arbitrary: m) (simp_all add: hex_digit_char)
  then have "hex_value (fmt_X w n) = of_digits 16 ?ds" using d by (simp add: hex_value_def fmt_X_def of_digits_def)
  also have "\<dots> = n" by (simp add: zero_pad_def of_digits_zeros of_to_digits)
  finally show "hex_value (fmt_X w n) = n" .
qed

lemma SkipSpace_hex: "ds \<noteq> [] \<Longrightarrow> list_all (\<lambda>c. hex_digit c \<noteq> None) ds \<Longrightarrow> SkipSpace (ds @ r) = Some (ds @ r)"
  using hex_digit_space by (cases ds) (auto simp: isSpace_def)

lemma scan_hex_digits:
  assumes "ds \<noteq> []" "list_all (\<lambda>c. hex_digit c \<noteq> None) ds" "hex_value ds < 256" "r = [] \<or> hex_digit (hd r) = None"
  shows "scan_hex (ds @ r) = Some (of_nat (hex_value ds), r)"
proof -
  have "takeWhile (\<lambda>c. hex_digit c \<noteq> None) (ds @ r) = ds" "dropWhile (\<lambda>c. hex_digit c \<noteq> None) (ds @ r) = r"
    using assms(2,4) by (auto simp: list_all_iff takeWhile_append dropWhile_append takeWhile_eq_Nil_iff dropWhile_eq_self_iff)
  then show ?thesis using SkipSpace_hex [OF assms(1,2)] assms(1,3) by (simp add: scan_hex_def Let_def)
qed

section \<open>Commands to the device\<close>

lemma fmt_byte: "list_all (\<lambda>c. hex_digit c \<noteq> None) (fmt_X 2 (unat (b :: u8)))" "hex_value (fmt_X 2 (unat b)) = unat b" "fmt_X 2 (unat b) \<noteq> []"
proof -
  have "unat b < 16 ^ 2" using unsigned_less [of b] by simp
  from fmt_X_hex [OF this] show "list_all (\<lambda>c. hex_digit c \<noteq> None) (fmt_X 2 (unat b))" "hex_value (fmt_X 2 (unat b)) = unat b" "fmt_X 2 (unat b) \<noteq> []"
    by auto
qed

lemma sscanf_byte:
  assumes "hex_digit h = Some k"
  shows "sscanf_xx ([h] @ '' '' @ fmt_X 2 (unat b)) = Some (of_nat k, b)"
proof -
  have k: "k < 256" using assms by (auto simp: hex_digit_def less_eq_char_def split: if_splits)
  have "scan_hex ([h] @ '' '' @ fmt_X 2 (unat b)) = Some (of_nat k, '' '' @ fmt_X 2 (unat b))"
    using scan_hex_digits [of "[h]" "'' '' @ fmt_X 2 (unat b)"] assms k by (simp add: hex_value_def hex_digit_def less_eq_char_def)
  moreover have "match_space ('' '' @ fmt_X 2 (unat b)) = Some (fmt_X 2 (unat b))"
    using fmt_byte(1,3) [of b] hex_digit_space by (cases "fmt_X 2 (unat b)") (auto simp: match_space_def isSpace_def)
  moreover have "scan_hex (fmt_X 2 (unat b)) = Some (b, [])"
    using scan_hex_digits [of "fmt_X 2 (unat b)" "[]"] fmt_byte [of b] unsigned_less [of b] by simp
  ultimately show ?thesis by (simp add: sscanf_xx_def)
qed

lemma doSetCmd_nano:
  assumes "protocol step" "hex_digit h = Some k"
  shows "doSetCmd (''s '' @ [h] @ '' '' @ fmt_X 2 (unat b)) (nano step d) = returnR () (nano step (snd (step [CmdSet, of_nat k, b] d)))"
  using sscanf_byte [OF assms(2), of b] assms(1) DoFixedCommand_nano [of "[CmdSet, of_nat k, b]" step d 0]
  by (simp add: doSetCmd_def slice_from_def Let_def protocol_def)

lemma doToggleCmd_nano:
  assumes "protocol step" "sscanf_xx args = Some (x, y)"
  shows "doToggleCmd (''t '' @ args) (nano step d) = returnR () (nano step (snd (step [CmdPulse, x, y] d)))"
  using assms DoFixedCommand_nano [of "[CmdPulse, x, y]" step d 0]
  by (simp add: doToggleCmd_def slice_from_def protocol_def)

lemma doGetCmd_nano:
  assumes "protocol step" "sscanf_x args = Some x"
  shows "doGetCmd (''g '' @ args) (nano step d) = returnR (hd (fst (step [CmdGet, x] d))) (nano step (snd (step [CmdGet, x] d)))"
proof -
  have l: "length (fst (step [CmdGet, x] d)) = 1" using assms(1) by (simp add: protocol_def)
  then have "DoFixedCommand [CmdGet, x] 1 (nano step d) = returnR (fst (step [CmdGet, x] d)) (nano step (snd (step [CmdGet, x] d)))"
    using DoFixedCommand_nano [of "[CmdGet, x]" step d 1] by simp
  moreover have "fst (step [CmdGet, x] d) \<noteq> []" using l by auto
  ultimately show ?thesis using assms(2) l by (simp add: doGetCmd_def slice_from_def hd_conv_nth)
qed

section \<open>Bit vectors as sets of positions\<close>

definition ones :: "FixedBitVec \<Rightarrow> nat set" where
  "ones v = {i. i < 72 \<and> bit (bitArray v ! (i div 8)) (i mod 8)}"

definition vec_ok :: "FixedBitVec \<Rightarrow> bool" where "vec_ok v \<longleftrightarrow> length (bitArray v) = 9"

lemma div8_9: "i < 72 \<Longrightarrow> i div 8 < (9 :: nat)"
  by simp

lemma bit_push_1: "bit (2 ^ n :: u8) k \<longleftrightarrow> k = n \<and> n < 8"
  by (auto simp: bit_exp_iff)

lemma pos_eq: "(j :: nat) = i \<longleftrightarrow> j div 8 = i div 8 \<and> j mod 8 = i mod 8"
  by (metis div_mult_mod_eq)

lemma SetBit_ok:
  assumes "vec_ok v" "i < 72"
  shows "\<exists>v'. SetBit i v = Inr v' \<and> vec_ok v' \<and> ones v' = insert i (ones v)"
proof -
  let ?v = "\<lparr>bitArray = (bitArray v)[i div 8 := bitArray v ! (i div 8) OR push_bit (i mod 8) 1]\<rparr>"
  have "j \<in> ones ?v \<longleftrightarrow> j \<in> insert i (ones v)" for j
    using assms div8_9 [of j] pos_eq [of j i]
    by (cases "j = i") (auto simp: ones_def vec_ok_def nth_list_update bit_or_iff bit_push_1)
  then show ?thesis using assms by (auto simp: SetBit_def vec_ok_def Let_def)
qed

lemma ResetBit_ok:
  assumes "vec_ok v" "i < 72"
  shows "\<exists>v'. ResetBit i v = Inr v' \<and> vec_ok v' \<and> ones v' = ones v - {i}"
proof -
  let ?v = "\<lparr>bitArray = (bitArray v)[i div 8 := bitArray v ! (i div 8) AND NOT (push_bit (i mod 8) 1)]\<rparr>"
  have "j \<in> ones ?v \<longleftrightarrow> j \<in> ones v - {i}" for j
    using assms div8_9 [of j] by (auto simp: ones_def vec_ok_def nth_list_update bit_and_iff bit_not_iff bit_push_1 pos_eq [of j i])
  then show ?thesis using assms by (auto simp: ResetBit_def vec_ok_def Let_def)
qed

lemma GetBit_ok: "vec_ok v \<Longrightarrow> i < 72 \<Longrightarrow> GetBit i v = Inr (of_bool (i \<in> ones v))"
  by (auto simp: GetBit_def vec_ok_def Let_def ones_def and_one_eq mod_2_eq_odd bit_iff_odd_drop_bit)

lemma New_ok: "vec_ok (NewFixedBitVec 68)" "ones (NewFixedBitVec 68) = {}"
  by (auto simp: vec_ok_def NewFixedBitVec_def ones_def Let_def)

lemma GetByte_bit: "vec_ok v \<Longrightarrow> i < 72 \<Longrightarrow> i mod 8 = 0 \<Longrightarrow>
   \<exists>b. GetByte i v = Inr b \<and> (\<forall>k < 8. bit b k \<longleftrightarrow> i + k \<in> ones v)"
  by (auto simp: GetByte_def vec_ok_def ones_def)

section \<open>Parsing tokens\<close>

text \<open>A test file for the PLCC socket, with the ones of its three vectors.\<close>

definition views :: "nat set \<Rightarrow> nat set \<Rightarrow> nat set \<Rightarrow> TestFile \<Rightarrow> bool" where
  "views T F I tf \<longleftrightarrow> socket tf = ''PLCC'' \<and> tf_size tf = 68 \<and> clockPin tf = 0 \<and>
     vec_ok (toUUT tf) \<and> vec_ok (fromUUT tf) \<and> vec_ok (ignored tf) \<and>
     ones (toUUT tf) = T \<and> ones (fromUUT tf) = F \<and> ones (ignored tf) = I"

text \<open>What a pin is in a vector.\<close>

datatype cell = ToUUT bool | FromUUT bool | Ignored

fun at :: "nat \<Rightarrow> cell list \<Rightarrow> cell \<Rightarrow> nat set" where
  "at pos [] c = {}"
| "at pos (d # ds) c = (if d = c then {pos} else {}) \<union> at (Suc pos) ds c"

lemma at_append: "at pos (cs @ ds) c = at pos cs c \<union> at (pos + length cs) ds c"
  by (induction cs arbitrary: pos) auto

lemma in_at: "x \<in> at pos cs c \<longleftrightarrow> pos \<le> x \<and> x < pos + length cs \<and> cs ! (x - pos) = c"
proof (induction cs arbitrary: pos)
  case (Cons d cs)
  have "x = pos \<or> x < pos \<or> (\<exists>k. x = Suc (pos + k))" using less_imp_Suc_add [of pos x] by (cases x pos rule: linorder_cases) auto
  then consider "x = pos" | "x < pos" | k where "x = Suc (pos + k)" by blast
  then show ?case
  proof cases
    case 1
    then show ?thesis using Cons.IH [of "Suc pos"] by simp
  next
    case 2
    then show ?thesis using Cons.IH [of "Suc pos"] by simp
  next
    case (3 k)
    then show ?thesis using Cons.IH [of "Suc pos"] by simp
  qed
qed simp

lemma at_bound: "at pos cs c \<subseteq> {pos..<pos + length cs}"
  by (auto simp: in_at)

text \<open>A token that stands for some cells: it moves the position behind them and sets the ones, when no bit at or
  behind the position is set yet.\<close>

definition reads :: "cell list \<Rightarrow> string \<Rightarrow> bool" where
  "reads cs t \<longleftrightarrow> (\<forall>pos T F I tf. views T F I tf \<longrightarrow> T \<union> F \<subseteq> {..<pos} \<longrightarrow> pos + length cs \<le> 72 \<longrightarrow>
     (\<exists>tf'. vector_token t pos tf = Inr (Inr (pos + length cs, tf')) \<and>
        views (T \<union> at pos cs (ToUUT True)) (F \<union> at pos cs (FromUUT True)) (I \<union> at pos cs Ignored) tf'))"

lemma reads_bit: "reads [ToUUT b] (if b then ''1'' else ''0'')"
  unfolding reads_def
proof (intro allI impI)
  fix pos T F I tf
  assume v: "views T F I tf" and p: "T \<union> F \<subseteq> {..<pos}" "pos + length [ToUUT b] \<le> 72"
  have "T - {pos} = T" using p by auto
  then show "\<exists>tf'. vector_token (if b then ''1'' else ''0'') pos tf = Inr (Inr (pos + length [ToUUT b], tf')) \<and>
      views (T \<union> at pos [ToUUT b] (ToUUT True)) (F \<union> at pos [ToUUT b] (FromUUT True)) (I \<union> at pos [ToUUT b] Ignored) tf'"
    using v p SetBit_ok [of "toUUT tf" pos] ResetBit_ok [of "toUUT tf" pos]
    by (auto simp: vector_token_def SetToUUT_def ResetToUUT_def views_def Let_def)
qed

lemma reads_empty: "reads [] []"
  by (simp add: reads_def vector_token_def Let_def)

lemma reads_flag: "reads [FromUUT b] (if b then ''H'' else ''L'')"
  unfolding reads_def
proof (intro allI impI)
  fix pos T F I tf
  assume v: "views T F I tf" and p: "T \<union> F \<subseteq> {..<pos}" "pos + length [FromUUT b] \<le> 72"
  have "F - {pos} = F" using p by auto
  then show "\<exists>tf'. vector_token (if b then ''H'' else ''L'') pos tf = Inr (Inr (pos + length [FromUUT b], tf')) \<and>
      views (T \<union> at pos [FromUUT b] (ToUUT True)) (F \<union> at pos [FromUUT b] (FromUUT True)) (I \<union> at pos [FromUUT b] Ignored) tf'"
    using v p SetBit_ok [of "fromUUT tf" pos] ResetBit_ok [of "fromUUT tf" pos]
    by (auto simp: vector_token_def SetFromUUT_def ResetFromUUT_def views_def Let_def)
qed

lemma reads_ignored: "c = CHR ''X'' \<or> c = CHR ''G'' \<or> c = CHR ''V'' \<Longrightarrow> reads [Ignored] [c]"
  unfolding reads_def
proof (intro allI impI)
  fix pos T F I tf
  assume c: "c = CHR ''X'' \<or> c = CHR ''G'' \<or> c = CHR ''V''" and v: "views T F I tf" and p: "pos + length [Ignored] \<le> 72"
  obtain v' where w: "SetBit pos (ignored tf) = Inr v'" "vec_ok v'" "ones v' = insert pos (ones (ignored tf))"
    using v p SetBit_ok [of "ignored tf" pos] by (auto simp: views_def)
  have "vector_token [c] pos tf = Inr (Inr (Suc pos, tf\<lparr>ignored := v'\<rparr>))"
    using c w(1) by (elim disjE) (simp_all add: vector_token_def SetIgnored_def Let_def)
  then show "\<exists>tf'. vector_token [c] pos tf = Inr (Inr (pos + length [Ignored], tf')) \<and>
      views (T \<union> at pos [Ignored] (ToUUT True)) (F \<union> at pos [Ignored] (FromUUT True)) (I \<union> at pos [Ignored] Ignored) tf'"
    using v w by (simp add: views_def)
qed

definition word_cells :: "(bool \<Rightarrow> cell) \<Rightarrow> nat \<Rightarrow> nat \<Rightarrow> cell list" where
  "word_cells c n v = map (\<lambda>i. c (bit v i)) [0..<n]"

lemma word_cells_simps [simp]:
  "word_cells c 0 v = []" "word_cells c (Suc n) v = c (bit v 0) # word_cells c n (drop_bit 1 v)" "length (word_cells c n v) = n"
proof -
  have "[0..<Suc n] = 0 # map Suc [0..<n]" by (simp add: upt_conv_Cons map_Suc_upt del: upt_Suc)
  then show "word_cells c (Suc n) v = c (bit v 0) # word_cells c n (drop_bit 1 v)"
    by (simp add: word_cells_def bit_drop_bit_eq comp_def del: upt_Suc)
qed (simp_all add: word_cells_def)

lemma low_bit: "(v AND 1 \<noteq> 0) = bit (v :: nat) 0"
  by (simp add: and_one_eq bit_0 mod_2_eq_odd)

lemma SetToUUT_views:
  assumes "views T F I tf" "i < 72" shows "\<exists>tf'. SetToUUT i tf = Inr tf' \<and> views (insert i T) F I tf'"
proof -
  have "vec_ok (toUUT tf)" using assms(1) by (simp add: views_def)
  from SetBit_ok [OF this assms(2)] obtain v where "SetBit i (toUUT tf) = Inr v" "vec_ok v" "ones v = insert i (ones (toUUT tf))" by blast
  then show ?thesis using assms(1) by (simp add: SetToUUT_def views_def)
qed

lemma SetFromUUT_views:
  assumes "views T F I tf" "i < 72" shows "\<exists>tf'. SetFromUUT i tf = Inr tf' \<and> views T (insert i F) I tf'"
proof -
  have "vec_ok (fromUUT tf)" using assms(1) by (simp add: views_def)
  from SetBit_ok [OF this assms(2)] obtain v where "SetBit i (fromUUT tf) = Inr v" "vec_ok v" "ones v = insert i (ones (fromUUT tf))" by blast
  then show ?thesis using assms(1) by (simp add: SetFromUUT_def views_def)
qed

lemma set_word_to:
  "views T F I tf \<Longrightarrow> pos + n \<le> 72 \<Longrightarrow>
   \<exists>tf'. set_word SetToUUT n v pos tf = Inr (pos + n, tf') \<and> views (T \<union> at pos (word_cells ToUUT n v) (ToUUT True)) F I tf'"
proof (induction n arbitrary: v pos T tf)
  case (Suc n)
  obtain tf1 where 1: "(if bit v 0 then SetToUUT pos tf else Inr tf) = Inr tf1"
    "views (T \<union> (if bit v 0 then {pos} else {})) F I tf1"
    using Suc.prems(1) SetToUUT_views [OF Suc.prems(1), of pos] Suc.prems(2) by (cases "bit v 0") auto
  obtain tf2 where 2: "set_word SetToUUT n (drop_bit 1 v) (pos + 1) tf1 = Inr (pos + 1 + n, tf2)"
    "views (T \<union> (if bit v 0 then {pos} else {}) \<union> at (pos + 1) (word_cells ToUUT n (drop_bit 1 v)) (ToUUT True)) F I tf2"
    using Suc.IH [OF 1(2), of "pos + 1" "drop_bit 1 v"] Suc.prems(2) by auto
  have "set_word SetToUUT (Suc n) v pos tf = Inr (pos + Suc n, tf2)" using 2(1) by (simp only: set_word.simps low_bit 1(1) bindE_simps) simp
  then show ?case using 2(2) by (intro exI [of _ tf2]) (simp add: Un_assoc)
qed simp

lemma set_word_from:
  "views T F I tf \<Longrightarrow> pos + n \<le> 72 \<Longrightarrow>
   \<exists>tf'. set_word SetFromUUT n v pos tf = Inr (pos + n, tf') \<and> views T (F \<union> at pos (word_cells FromUUT n v) (FromUUT True)) I tf'"
proof (induction n arbitrary: v pos F tf)
  case (Suc n)
  obtain tf1 where 1: "(if bit v 0 then SetFromUUT pos tf else Inr tf) = Inr tf1"
    "views T (F \<union> (if bit v 0 then {pos} else {})) I tf1"
    using Suc.prems(1) SetFromUUT_views [OF Suc.prems(1), of pos] Suc.prems(2) by (cases "bit v 0") auto
  obtain tf2 where 2: "set_word SetFromUUT n (drop_bit 1 v) (pos + 1) tf1 = Inr (pos + 1 + n, tf2)"
    "views T (F \<union> (if bit v 0 then {pos} else {}) \<union> at (pos + 1) (word_cells FromUUT n (drop_bit 1 v)) (FromUUT True)) I tf2"
    using Suc.IH [OF 1(2), of "pos + 1" "drop_bit 1 v"] Suc.prems(2) by auto
  have "set_word SetFromUUT (Suc n) v pos tf = Inr (pos + Suc n, tf2)" using 2(1) by (simp only: set_word.simps low_bit 1(1) bindE_simps) simp
  then show ?case using 2(2) by (intro exI [of _ tf2]) (simp add: Un_assoc)
qed simp

lemma hex4_word: "hex4 (c # fmt_X 4 (unat (w :: u16))) = Inr (Some (unat w))"
proof -
  have "unat w < 16 ^ 4" using unsigned_less [of w] by simp
  from fmt_X_hex [OF this] show ?thesis by (simp add: hex4_def Let_def)
qed

lemma other_cells: "at pos (word_cells ToUUT n v) (FromUUT b) = {}" "at pos (word_cells FromUUT n v) (ToUUT b) = {}"
  "at pos (word_cells ToUUT n v) Ignored = {}" "at pos (word_cells FromUUT n v) Ignored = {}"
  by (auto simp: in_at word_cells_def)

lemma reads_to_word: "reads (word_cells ToUUT 16 (unat w)) (''%'' @ fmt_X 4 (unat (w :: u16)))"
  unfolding reads_def
proof (intro allI impI)
  fix pos T F I tf
  assume "views T F I tf" "pos + length (word_cells ToUUT 16 (unat w)) \<le> 72"
  then obtain tf' where "set_word SetToUUT 16 (unat w) pos tf = Inr (pos + 16, tf')"
    "views (T \<union> at pos (word_cells ToUUT 16 (unat w)) (ToUUT True)) F I tf'" using set_word_to [of T F I tf pos 16 "unat w"] by auto
  then show "\<exists>tf'. vector_token (''%'' @ fmt_X 4 (unat w)) pos tf = Inr (Inr (pos + length (word_cells ToUUT 16 (unat w)), tf')) \<and>
      views (T \<union> at pos (word_cells ToUUT 16 (unat w)) (ToUUT True)) (F \<union> at pos (word_cells ToUUT 16 (unat w)) (FromUUT True))
        (I \<union> at pos (word_cells ToUUT 16 (unat w)) Ignored) tf'"
    by (intro exI [of _ tf']) (simp add: vector_token_def hex4_word other_cells Let_def del: set_word.simps word_cells_simps(2))
qed

lemma reads_from_word: "reads (word_cells FromUUT 16 (unat (Reverse16 w))) (''@'' @ fmt_X 4 (unat (w :: u16)))"
  unfolding reads_def
proof (intro allI impI)
  fix pos T F I tf
  let ?v = "unat (Reverse16 w)"
  assume "views T F I tf" "pos + length (word_cells FromUUT 16 ?v) \<le> 72"
  then obtain tf' where "set_word SetFromUUT 16 ?v pos tf = Inr (pos + 16, tf')"
    "views T (F \<union> at pos (word_cells FromUUT 16 ?v) (FromUUT True)) I tf'" using set_word_from [of T F I tf pos 16 ?v] by auto
  then show "\<exists>tf'. vector_token (''@'' @ fmt_X 4 (unat w)) pos tf = Inr (Inr (pos + length (word_cells FromUUT 16 ?v), tf')) \<and>
      views (T \<union> at pos (word_cells FromUUT 16 ?v) (ToUUT True)) (F \<union> at pos (word_cells FromUUT 16 ?v) (FromUUT True))
        (I \<union> at pos (word_cells FromUUT 16 ?v) Ignored) tf'"
    by (intro exI [of _ tf']) (simp add: vector_token_def hex4_word other_cells Let_def del: set_word.simps word_cells_simps(2))
qed

lemma reads_all:
  "list_all2 reads css ts \<Longrightarrow> views T F I tf \<Longrightarrow> T \<union> F \<subseteq> {..<pos} \<Longrightarrow> pos + length (concat css) \<le> 72 \<Longrightarrow>
   \<exists>tf'. vector_tokens ts pos tf = Inr (Inr (pos + length (concat css), tf')) \<and>
     views (T \<union> at pos (concat css) (ToUUT True)) (F \<union> at pos (concat css) (FromUUT True)) (I \<union> at pos (concat css) Ignored) tf'"
proof (induction arbitrary: pos T F I tf rule: list_all2_induct)
  case (Cons cs css t ts)
  have l: "pos + length cs \<le> 72" using Cons.prems(3) by simp
  obtain tf1 where 1: "vector_token t pos tf = Inr (Inr (pos + length cs, tf1))"
    "views (T \<union> at pos cs (ToUUT True)) (F \<union> at pos cs (FromUUT True)) (I \<union> at pos cs Ignored) tf1"
    using Cons.hyps(1) [unfolded reads_def, rule_format, OF Cons.prems(1,2) l] by blast
  have "(T \<union> at pos cs (ToUUT True)) \<union> (F \<union> at pos cs (FromUUT True)) \<subseteq> {..<pos + length cs}"
    using Cons.prems(2) at_bound [of pos cs "ToUUT True"] at_bound [of pos cs "FromUUT True"] by auto
  from Cons.IH [OF 1(2) this] Cons.prems(3) obtain tf2 where 2: "vector_tokens ts (pos + length cs) tf1 = Inr (Inr (pos + length cs + length (concat css), tf2))"
    "views (T \<union> at pos cs (ToUUT True) \<union> at (pos + length cs) (concat css) (ToUUT True))
      (F \<union> at pos cs (FromUUT True) \<union> at (pos + length cs) (concat css) (FromUUT True))
      (I \<union> at pos cs Ignored \<union> at (pos + length cs) (concat css) Ignored) tf2" by auto
  then show ?case using 1(1) by (intro exI [of _ tf2]) (simp add: at_append Un_assoc add.assoc)
qed simp

end
