(* ===== verification/Cex_Plcc.thy ===== *)
theory Cex_Plcc
  imports Cex_Check
begin

text \<open>
  Test vectors for the 16-bit ALU in the PLCC socket: how a vector is written in a file, the commands
  that apply it, the failures that the answers of the device show, and the proof that the exerciser sends these
  commands and counts these failures.
\<close>

section \<open>Vectors\<close>

datatype level = High | Low | Any

text \<open>The operands and the result, the clock, the levels of the flags C, P, G, Z and V, the controls of the pins 25 to 27 and
  of the pins 44 to 52.\<close>

record alu_vector =
  opA :: u16
  opB :: u16
  opF :: u16
  clock_level :: bool
  levels :: "level list"
  low_ctl :: "bool list"
  high_ctl :: "bool list"

definition wf_vector :: "alu_vector \<Rightarrow> bool" where
  "wf_vector v \<longleftrightarrow> length (levels v) = 5 \<and> length (low_ctl v) = 3 \<and> length (high_ctl v) = 9"

definition bit_text :: "bool \<Rightarrow> string" where "bit_text b = (if b then ''1'' else ''0'')"

fun level_text :: "level \<Rightarrow> string" where
  "level_text High = ''H''" | "level_text Low = ''L''" | "level_text Any = ''X''"

definition vector_words :: "alu_vector \<Rightarrow> string list" where
  "vector_words v =
     [''%'' @ fmt_X 4 (unat (opA v)), bit_text (clock_level v), ''V'', ''G''] @ map level_text (levels v) @ map bit_text (low_ctl v)
     @ [''@'' @ fmt_X 4 (unat (opF v))] @ map bit_text (high_ctl v) @ [''%'' @ fmt_X 4 (unat (opB v))]"

fun join_spaces :: "string list \<Rightarrow> string" where
  "join_spaces [] = []" | "join_spaces [w] = w" | "join_spaces (w # ws) = w @ '' '' @ join_spaces ws"

definition vector_line :: "alu_vector \<Rightarrow> string" where "vector_line v = join_spaces (vector_words v)"

section \<open>What applying a vector means\<close>

definition byte_of :: "bool list \<Rightarrow> u8" where "byte_of bs = horner_sum of_bool 2 bs"

text \<open>The operands go to the ports 4 and 5 and to 3 and 2, the controls to 6 and A; then the three input registers are clocked.\<close>

definition vector_cmds :: "alu_vector \<Rightarrow> u8 list list" where
  "vector_cmds v =
     [[CmdSet, 4, ucast (opA v)], [CmdSet, 5, ucast (drop_bit 8 (opA v))],
      [CmdSet, 6, byte_of (rev (low_ctl v) @ take 5 (high_ctl v))],
      [CmdSet, 0xA, push_bit 4 (byte_of (drop 5 (high_ctl v)))],
      [CmdSet, 3, ucast (opB v)], [CmdSet, 2, ucast (drop_bit 8 (opB v))],
      [CmdPulse, 1, 0xB], [CmdPulse, 1, 0], [CmdPulse, 1, 7]]"

definition run_cmds :: "'d device \<Rightarrow> u8 list list \<Rightarrow> 'd \<Rightarrow> 'd" where
  "run_cmds step cs d = fold (\<lambda>c d. snd (step c d)) cs d"

definition any_flags :: "alu_vector \<Rightarrow> nat list" where
  "any_flags v = filter (\<lambda>k. levels v ! k = Any) [0..<5]"

definition failures :: "nat list \<Rightarrow> alu_vector \<Rightarrow> u8 \<Rightarrow> u8 \<Rightarrow> u8 \<Rightarrow> nat" where
  "failures ig v c h l =
     (if unat (opF v) \<noteq> 256 * unat h + unat l then 1 else 0)
     + sum_list (map (\<lambda>k. of_bool (bit c k \<noteq> (levels v ! k = High) \<and> k \<notin> set ig)) [0..<5])"

definition check_vector :: "'d device \<Rightarrow> nat list \<Rightarrow> alu_vector \<Rightarrow> 'd \<Rightarrow> nat \<times> 'd" where
  "check_vector step ig v d =
     (let d1 = run_cmds step (vector_cmds v) d;
          (c, d2) = step [CmdGet, 0xC] d1;
          (h, d3) = step [CmdGet, 1] d2;
          (l, d4) = step [CmdGet, 9] d3
      in (failures ig v (hd c) (hd h) (hd l), d4))"

text \<open>The vectors of a file in order. The flags that one vector leaves open stay open in all vectors after it.\<close>

fun check_vectors :: "'d device \<Rightarrow> nat list \<Rightarrow> alu_vector list \<Rightarrow> 'd \<Rightarrow> nat \<times> 'd" where
  "check_vectors step ig [] d = (0, d)"
| "check_vectors step ig (v # vs) d =
     (let (n, d) = check_vector step (any_flags v @ ig) v d; (m, d) = check_vectors step (any_flags v @ ig) vs d in (n + m, d))"

section \<open>Parsing a vector\<close>

fun level_cell :: "level \<Rightarrow> cell" where
  "level_cell High = FromUUT True" | "level_cell Low = FromUUT False" | "level_cell Any = Ignored"

definition word_cell_lists :: "alu_vector \<Rightarrow> cell list list" where
  "word_cell_lists v =
     [word_cells ToUUT 16 (unat (opA v)), [ToUUT (clock_level v)], [Ignored], [Ignored]] @ map (\<lambda>l. [level_cell l]) (levels v)
     @ map (\<lambda>b. [ToUUT b]) (low_ctl v) @ [word_cells FromUUT 16 (unat (Reverse16 (opF v)))] @ map (\<lambda>b. [ToUUT b]) (high_ctl v)
     @ [word_cells ToUUT 16 (unat (opB v))]"

definition cells :: "alu_vector \<Rightarrow> cell list" where
  "cells v = word_cells ToUUT 16 (unat (opA v)) @ [ToUUT (clock_level v), Ignored, Ignored] @ map level_cell (levels v) @ map ToUUT (low_ctl v)
     @ word_cells FromUUT 16 (unat (Reverse16 (opF v))) @ map ToUUT (high_ctl v) @ word_cells ToUUT 16 (unat (opB v))"

lemma concat_singles: "concat (map (\<lambda>x. [f x]) xs) = map f xs"
  by (induction xs) auto

lemma concat_cells: "concat (word_cell_lists v) = cells v"
  by (simp add: word_cell_lists_def cells_def concat_singles)

lemma length_cells: "wf_vector v \<Longrightarrow> length (cells v) = 68"
  by (simp add: cells_def wf_vector_def del: word_cells_simps(2))

lemma reads_level: "reads [level_cell l] (level_text l)"
  using reads_flag [of True] reads_flag [of False] reads_ignored [of "CHR ''X''"] by (cases l) simp_all

lemma reads_words: "list_all2 reads (word_cell_lists v) (vector_words v)"
proof -
  have "list_all2 reads (map (\<lambda>l. [level_cell l]) ls) (map level_text ls)" for ls
    by (induction ls) (simp_all add: reads_level)
  moreover have "list_all2 reads (map (\<lambda>b. [ToUUT b]) bs) (map bit_text bs)" for bs
    using reads_bit by (induction bs) (simp_all add: bit_text_def)
  moreover have "list_all2 reads [word_cells ToUUT 16 (unat (opA v)), [ToUUT (clock_level v)], [Ignored], [Ignored]]
      [''%'' @ fmt_X 4 (unat (opA v)), bit_text (clock_level v), ''V'', ''G'']"
    using reads_to_word reads_bit reads_ignored [of "CHR ''V''"] reads_ignored [of "CHR ''G''"] by (simp add: bit_text_def)
  ultimately show ?thesis unfolding word_cell_lists_def vector_words_def
    using reads_to_word [of "opB v"] reads_from_word [of "opF v"] by (intro list_all2_appendI) simp_all
qed


text \<open>What the sets of positions hold after a vector is read.\<close>

lemma word_cells_nth: "k < n \<Longrightarrow> word_cells c n w ! k = c (bit w k)"
  by (simp add: word_cells_def)

lemma bit_Reverse16: "k < 16 \<Longrightarrow> bit (Reverse16 w) k = bit w (15 - k)"
  by (simp add: Reverse16_def bit_horner_sum_bit_word_iff rev_nth)

lemma level_cell_eq: "level_cell l = FromUUT True \<longleftrightarrow> l = High" "level_cell l = Ignored \<longleftrightarrow> l = Any" "level_cell l \<noteq> ToUUT b"
  by (cases l; simp)+

lemma cells_nth:
  assumes "wf_vector v"
  shows "k < 16 \<Longrightarrow> cells v ! k = ToUUT (bit (opA v) k)" "k < 5 \<Longrightarrow> cells v ! (19 + k) = level_cell (levels v ! k)"
    "k < 3 \<Longrightarrow> cells v ! (24 + k) = ToUUT (low_ctl v ! k)" "k < 16 \<Longrightarrow> cells v ! (27 + k) = FromUUT (bit (opF v) (15 - k))"
    "k < 9 \<Longrightarrow> cells v ! (43 + k) = ToUUT (high_ctl v ! k)" "k < 16 \<Longrightarrow> cells v ! (52 + k) = ToUUT (bit (opB v) k)"
  using assms
  by (simp_all add: cells_def wf_vector_def nth_append word_cells_nth nth_Cons' bit_unsigned_iff bit_Reverse16 del: word_cells_simps(2))


section \<open>Applying a vector\<close>

lemma views_get:
  assumes "views T F I tf" "i < 72"
  shows "GetToUUT i tf = Inr (of_bool (i \<in> T))" "GetFromUUT i tf = Inr (of_bool (i \<in> F))" "IsIgnored i tf = Inr (of_bool (i \<in> I))"
  using assms GetBit_ok by (auto simp: views_def GetToUUT_def GetFromUUT_def IsIgnored_def)

lemma pins_byte_bits:
  assumes "views T F I tf"
  shows "\<forall>p \<in> set ps. p \<le> 72 \<Longrightarrow>
    \<exists>b'. pins_byte tf ps sh b = Inr b' \<and> (\<forall>k < 8. bit b' k \<longleftrightarrow> bit b k \<or> (sh \<le> k \<and> k < sh + length ps \<and> ps ! (k - sh) - 1 \<in> T))"
proof (induction ps arbitrary: sh b)
  case (Cons p ps)
  have "p \<le> 72" using Cons.prems by simp
  then have lt: "p - 1 < 72" by linarith
  have g: "GetToUUT (pinToPos p) tf = Inr (of_bool (p - 1 \<in> T))" using views_get(1) [OF assms lt] by (simp add: pinToPos_def)
  let ?b = "b OR push_bit sh (of_bool (p - 1 \<in> T)) :: u8"
  have "\<forall>q \<in> set ps. q \<le> 72" using Cons.prems by simp
  from Cons.IH [OF this, of "sh + 1" ?b] obtain b' where b: "pins_byte tf ps (sh + 1) ?b = Inr b'"
    "\<And>k. k < 8 \<Longrightarrow> bit b' k \<longleftrightarrow> bit ?b k \<or> (sh + 1 \<le> k \<and> k < sh + 1 + length ps \<and> ps ! (k - (sh + 1)) - 1 \<in> T)" by blast
  have "bit b' k \<longleftrightarrow> bit b k \<or> (sh \<le> k \<and> k < sh + length (p # ps) \<and> (p # ps) ! (k - sh) - 1 \<in> T)" if "k < 8" for k
    using b(2) [OF that] that by (cases "k = sh") (auto simp: bit_or_iff bit_push_bit_iff nth_Cons' bit_1_iff)
  then show ?case using g b(1) by (intro exI [of _ b']) simp
qed auto

lemma bit_one_nat: "bit (push_bit sh (of_bool q AND 1) :: nat) k \<longleftrightarrow> q \<and> k = sh"
  by (auto simp: bit_simps push_bit_eq_mult)

lemma expected_loop_bits:
  assumes "views T F I tf"
  shows "\<forall>p \<in> set ps. p \<le> 72 \<Longrightarrow> length ps \<le> Suc sh \<Longrightarrow>
    \<exists>e'. expected_loop tf ps sh e = Inr e' \<and> (\<forall>k. bit e' k \<longleftrightarrow> bit e k \<or> (k \<le> sh \<and> sh < k + length ps \<and> ps ! (sh - k) - 1 \<in> F))"
proof (induction ps arbitrary: sh e)
  case (Cons p ps)
  have "p \<le> 72" using Cons.prems by simp
  then have lt: "p - 1 < 72" by linarith
  have g: "GetFromUUT (pinToPos p) tf = Inr (of_bool (p - 1 \<in> F))" using views_get(2) [OF assms lt] by (simp add: pinToPos_def)
  let ?e = "e OR push_bit sh (of_bool (p - 1 \<in> F) AND 1) :: nat"
  have "\<forall>q \<in> set ps. q \<le> 72" "length ps \<le> Suc (sh - 1)" using Cons.prems by auto
  from Cons.IH [OF this, of ?e] obtain e' where e: "expected_loop tf ps (sh - 1) ?e = Inr e'"
    "\<And>k. bit e' k \<longleftrightarrow> bit ?e k \<or> (k \<le> sh - 1 \<and> sh - 1 < k + length ps \<and> ps ! (sh - 1 - k) - 1 \<in> F)" by blast
  have "bit e' k \<longleftrightarrow> bit e k \<or> (k \<le> sh \<and> sh < k + length (p # ps) \<and> (p # ps) ! (sh - k) - 1 \<in> F)" for k
    using e(2) [of k, unfolded bit_or_iff bit_one_nat] Cons.prems(2)
    by (cases "k = sh"; cases sh) (auto simp: nth_Cons' Suc_diff_le)
  then show ?case using g e(1) by (intro exI [of _ e']) simp
qed auto

lemma flags_loop_sum:
  assumes "views T F I tf"
  shows "\<forall>p \<in> set ps. p \<le> 72 \<Longrightarrow> flags_loop tf got ps sh n
    = Inr (n + sum_list (map (\<lambda>k. of_bool (bit got (sh + k) \<noteq> (ps ! k - 1 \<in> F) \<and> ps ! k - 1 \<notin> I)) [0..<length ps]))"
proof (induction ps arbitrary: sh n)
  case (Cons p ps)
  have "p \<le> 72" using Cons.prems by simp
  then have lt: "p - 1 < 72" by linarith
  have "drop_bit sh got AND 1 = of_bool (bit got sh)" by (simp add: and_one_eq mod_2_eq_odd bit_iff_odd_drop_bit)
  then have "flags_loop tf got (p # ps) sh n = flags_loop tf got ps (sh + 1) (n + of_bool (bit got sh \<noteq> (p - 1 \<in> F) \<and> p - 1 \<notin> I))"
    using views_get(2,3) [OF assms lt] by (simp add: pinToPos_def)
  moreover have "[0..<length (p # ps)] = 0 # map Suc [0..<length ps]" by (simp add: upt_conv_Cons map_Suc_upt del: upt_Suc)
  ultimately show ?case using Cons.IH [of "sh + 1"] Cons.prems by (simp add: comp_def del: flags_loop.simps upt_Suc)
qed simp

abbreviation tos :: "alu_vector \<Rightarrow> nat set" where "tos v \<equiv> at 0 (cells v) (ToUUT True)"
abbreviation froms :: "alu_vector \<Rightarrow> nat set" where "froms v \<equiv> at 0 (cells v) (FromUUT True)"

lemma tos_froms:
  assumes "wf_vector v"
  shows "k < 16 \<Longrightarrow> k \<in> tos v \<longleftrightarrow> bit (opA v) k" "k < 3 \<Longrightarrow> 24 + k \<in> tos v \<longleftrightarrow> low_ctl v ! k"
    "k < 9 \<Longrightarrow> 43 + k \<in> tos v \<longleftrightarrow> high_ctl v ! k" "k < 16 \<Longrightarrow> 52 + k \<in> tos v \<longleftrightarrow> bit (opB v) k"
    "k < 16 \<Longrightarrow> 27 + k \<in> froms v \<longleftrightarrow> bit (opF v) (15 - k)" "k < 5 \<Longrightarrow> 19 + k \<in> froms v \<longleftrightarrow> levels v ! k = High"
    "k < 5 \<Longrightarrow> 19 + k \<in> at 0 (cells v) Ignored \<longleftrightarrow> levels v ! k = Any"
  using cells_nth [OF assms] length_cells [OF assms] by (auto simp: in_at level_cell_eq)

lemma bit_byte_of: "k < 8 \<Longrightarrow> bit (byte_of bs) k \<longleftrightarrow> k < length bs \<and> bs ! k"
  by (auto simp: byte_of_def bit_horner_sum_bit_word_iff)

text \<open>The bytes for the ports.\<close>

lemma operand_A:
  assumes "wf_vector v" "views (tos v) F I tf"
  shows "GetByteToUUT 0 tf = Inr (ucast (opA v))" "GetByteToUUT 8 tf = Inr (ucast (drop_bit 8 (opA v)))"
proof -
  have o: "vec_ok (toUUT tf)" "ones (toUUT tf) = tos v" using assms(2) by (simp_all add: views_def)
  obtain b where b: "GetByte 0 (toUUT tf) = Inr b" "\<And>k. k < 8 \<Longrightarrow> bit b k \<longleftrightarrow> k \<in> tos v"
    using GetByte_bit [OF o(1), of 0] o(2) by auto
  have "b = ucast (opA v)" using b(2) tos_froms(1) [OF assms(1)] by (intro byte_eqI) (simp add: bit_simps)
  then show "GetByteToUUT 0 tf = Inr (ucast (opA v))" using b(1) by (simp add: GetByteToUUT_def)
  obtain b where b: "GetByte 8 (toUUT tf) = Inr b" "\<And>k. k < 8 \<Longrightarrow> bit b k \<longleftrightarrow> 8 + k \<in> tos v"
    using GetByte_bit [OF o(1), of 8] o(2) by auto
  have "b = ucast (drop_bit 8 (opA v))" using b(2) tos_froms(1) [OF assms(1)] by (intro byte_eqI) (simp add: bit_simps)
  then show "GetByteToUUT 8 tf = Inr (ucast (drop_bit 8 (opA v)))" using b(1) by (simp add: GetByteToUUT_def)
qed

lemma pins_byte_eq:
  assumes "views T F I tf" "\<forall>p \<in> set ps. p \<le> 72"
    "\<And>k. k < 8 \<Longrightarrow> bit c k \<longleftrightarrow> sh \<le> k \<and> k < sh + length ps \<and> ps ! (k - sh) - 1 \<in> T"
  shows "pins_byte tf ps sh 0 = Inr c"
proof -
  obtain b' where "pins_byte tf ps sh 0 = Inr b'" "\<And>k. k < 8 \<Longrightarrow> bit b' k \<longleftrightarrow> sh \<le> k \<and> k < sh + length ps \<and> ps ! (k - sh) - 1 \<in> T"
    using pins_byte_bits [OF assms(1,2), of sh 0] by auto
  then show ?thesis using assms(3) byte_eqI [of b' c] by simp
qed

lemma operand_B:
  assumes "wf_vector v" "views (tos v) F I tf"
  shows "pins_byte tf [53..<61] 0 0 = Inr (ucast (opB v))" "pins_byte tf [61..<69] 0 0 = Inr (ucast (drop_bit 8 (opB v)))"
proof -
  have n: "i + k - 1 = 52 + (i - 53 + k)" if "53 \<le> i" for i k :: nat using that by simp
  have "bit (ucast (opB v) :: u8) k \<longleftrightarrow> 0 \<le> k \<and> k < 0 + length [53..<61] \<and> [53..<61] ! (k - 0) - 1 \<in> tos v" if "k < 8" for k
    using that tos_froms(4) [OF assms(1), of k] n [of 53 k] by (simp add: bit_simps nth_upt del: upt_rec_numeral)
  then show "pins_byte tf [53..<61] 0 0 = Inr (ucast (opB v))" by (intro pins_byte_eq [OF assms(2)]) auto
  have "bit (ucast (drop_bit 8 (opB v)) :: u8) k \<longleftrightarrow> 0 \<le> k \<and> k < 0 + length [61..<69] \<and> [61..<69] ! (k - 0) - 1 \<in> tos v" if "k < 8" for k
    using that tos_froms(4) [OF assms(1), of "8 + k"] n [of 61 k] by (simp add: bit_simps nth_upt del: upt_rec_numeral)
  then show "pins_byte tf [61..<69] 0 0 = Inr (ucast (drop_bit 8 (opB v)))" by (intro pins_byte_eq [OF assms(2)]) auto
qed

lemma controls:
  assumes "wf_vector v" "views (tos v) F I tf"
  shows "pins_byte tf [27, 26, 25, 44, 45, 46, 47, 48] 0 0 = Inr (byte_of (rev (low_ctl v) @ take 5 (high_ctl v)))"
    "pins_byte tf [49, 50, 51, 52] 4 0 = Inr (push_bit 4 (byte_of (drop 5 (high_ctl v))))"
proof -
  have l: "length (low_ctl v) = 3" "length (high_ctl v) = 9" using assms(1) by (simp_all add: wf_vector_def)
  have m: "24 \<in> tos v \<longleftrightarrow> low_ctl v ! 0" "25 \<in> tos v \<longleftrightarrow> low_ctl v ! 1" "26 \<in> tos v \<longleftrightarrow> low_ctl v ! 2"
    using tos_froms(2) [OF assms(1), of 0] tos_froms(2) [OF assms(1), of 1] tos_froms(2) [OF assms(1), of 2] by simp_all
  have n: "43 \<in> tos v \<longleftrightarrow> high_ctl v ! 0" "44 \<in> tos v \<longleftrightarrow> high_ctl v ! 1" "45 \<in> tos v \<longleftrightarrow> high_ctl v ! 2"
    "46 \<in> tos v \<longleftrightarrow> high_ctl v ! 3" "47 \<in> tos v \<longleftrightarrow> high_ctl v ! 4" "48 \<in> tos v \<longleftrightarrow> high_ctl v ! 5"
    "49 \<in> tos v \<longleftrightarrow> high_ctl v ! 6" "50 \<in> tos v \<longleftrightarrow> high_ctl v ! 7" "51 \<in> tos v \<longleftrightarrow> high_ctl v ! 8"
    using tos_froms(3) [OF assms(1), of 0] tos_froms(3) [OF assms(1), of 1] tos_froms(3) [OF assms(1), of 2]
      tos_froms(3) [OF assms(1), of 3] tos_froms(3) [OF assms(1), of 4] tos_froms(3) [OF assms(1), of 5]
      tos_froms(3) [OF assms(1), of 6] tos_froms(3) [OF assms(1), of 7] tos_froms(3) [OF assms(1), of 8] by simp_all
  have "bit (byte_of (rev (low_ctl v) @ take 5 (high_ctl v))) k \<longleftrightarrow>
      0 \<le> k \<and> k < 0 + length [27, 26, 25, 44, 45, 46, 47, 48 :: nat] \<and> [27, 26, 25, 44, 45, 46, 47, 48] ! (k - 0) - 1 \<in> tos v" if "k < 8" for k
    using that unfolding less_8 by (elim disjE) (simp_all add: bit_byte_of l m n nth_append rev_nth)
  then show "pins_byte tf [27, 26, 25, 44, 45, 46, 47, 48] 0 0 = Inr (byte_of (rev (low_ctl v) @ take 5 (high_ctl v)))"
    by (intro pins_byte_eq [OF assms(2)]) simp_all
  have "bit (push_bit 4 (byte_of (drop 5 (high_ctl v)))) k \<longleftrightarrow>
      4 \<le> k \<and> k < 4 + length [49, 50, 51, 52 :: nat] \<and> [49, 50, 51, 52] ! (k - 4) - 1 \<in> tos v" if "k < 8" for k
    using that unfolding less_8 by (elim disjE) (simp_all add: bit_byte_of bit_push_bit_iff l n)
  then show "pins_byte tf [49, 50, 51, 52] 4 0 = Inr (push_bit 4 (byte_of (drop 5 (high_ctl v))))"
    by (intro pins_byte_eq [OF assms(2)]) simp_all
qed


lemma expected_F:
  assumes "wf_vector v" "views T (froms v) I tf"
  shows "expected_loop tf [28..<44] 15 0 = Inr (unat (opF v))"
proof -
  have len: "length [28..<44] = 16" and nth: "[28..<44] ! (15 - k) - 1 = 27 + (15 - k)" for k :: nat
    by (simp_all add: nth_upt del: upt_rec_numeral)
  have "\<forall>p \<in> set [28..<44]. p \<le> (72 :: nat)" "length [28..<44] \<le> Suc 15" by simp_all
  from expected_loop_bits [OF assms(2) this, of 0] obtain e where e: "expected_loop tf [28..<44] 15 0 = Inr e"
    "\<And>k. bit e k \<longleftrightarrow> k \<le> 15 \<and> 15 < k + 16 \<and> 27 + (15 - k) \<in> froms v" unfolding len nth by auto
  have "bit e k \<longleftrightarrow> bit (unat (opF v)) k" for k
    using tos_froms(5) [OF assms(1), of "15 - k"] e(2) [of k] bit_imp_le_length [of "opF v" k]
    by (cases "k < 16") (auto simp: bit_unsigned_iff)
  then have "e = unat (opF v)" by (intro bit_eqI) simp
  then show ?thesis using e(1) by simp
qed

lemma flags_count:
  assumes "wf_vector v" "views T (froms v) I tf" "\<And>k. k < 5 \<Longrightarrow> 19 + k \<in> I \<longleftrightarrow> k \<in> set ig"
  shows "flags_loop tf c [20..<25] 0 n
    = Inr (n + sum_list (map (\<lambda>k. of_bool (bit c k \<noteq> (levels v ! k = High) \<and> k \<notin> set ig)) [0..<5]))"
proof -
  have len: "length [20..<25] = 5" and p: "\<forall>p \<in> set [20..<25]. p \<le> (72 :: nat)" by simp_all
  have "of_bool (bit c (0 + k) \<noteq> ([20..<25] ! k - 1 \<in> froms v) \<and> [20..<25] ! k - 1 \<notin> I)
      = (of_bool (bit c k \<noteq> (levels v ! k = High) \<and> k \<notin> set ig) :: nat)" if "k \<in> set [0..<5]" for k
  proof -
    have "[20..<25] ! k - 1 = 19 + k" using that by (simp add: nth_upt del: upt_rec_numeral)
    then show ?thesis using that tos_froms(6) [OF assms(1), of k] assms(3) [of k] by simp
  qed
  then show ?thesis unfolding flags_loop_sum [OF assms(2) p] len by (simp only: cong: map_cong)
qed

lemma set_port_nano:
  assumes "protocol step" "hex_digit h = Some k"
  shows "set_port [h] (Inr b) (nano step d) = returnR () (nano step (snd (step [CmdSet, of_nat k, b] d)))"
  using doSetCmd_nano [OF assms] by (simp add: set_port_def)

lemma digits:
  "hex_digit CHR ''4'' = Some 4" "hex_digit CHR ''5'' = Some 5" "hex_digit CHR ''6'' = Some 6" "hex_digit CHR ''A'' = Some 10"
  "hex_digit CHR ''3'' = Some 3" "hex_digit CHR ''2'' = Some 2"
  by (simp_all add: hex_digit_def less_eq_char_def)

lemma toggle_args: "sscanf_xx ''1 B'' = Some (1, 0xB)" "sscanf_xx ''1 0'' = Some (1, 0)" "sscanf_xx ''1 7'' = Some (1, 7)"
  by (simp_all add: sscanf_xx_def scan_hex_def match_space_def isSpace_def hex_digit_def hex_value_def less_eq_char_def Let_def)

lemma get_args: "sscanf_x ''C'' = Some 0xC" "sscanf_x ''1'' = Some 1" "sscanf_x ''9'' = Some 9"
  by (simp_all add: sscanf_x_def scan_hex_def match_space_def isSpace_def hex_digit_def hex_value_def less_eq_char_def Let_def)


lemma applyPLCC_nano:
  assumes "protocol step" "wf_vector v" "views (tos v) (froms v) I tf" "\<And>k. k < 5 \<Longrightarrow> 19 + k \<in> I \<longleftrightarrow> k \<in> set ig"
  shows "applyPLCC tf (nano step d) = returnR (fst (check_vector step ig v d)) (nano step (snd (check_vector step ig v d)))"
proof -
  have c: "\<not> HasClock tf" using assms(3) by (simp add: HasClock_def views_def)
  have g: "push_bit 8 (unat h) OR unat l = 256 * unat h + unat l" for h l :: u8
  proof -
    have "push_bit 8 (unat h) AND unat l = 0"
      using bit_imp_le_length [of l] by (intro bit_eqI) (fastforce simp: bit_simps)
    from disjunctive_add_eq_or [OF this] show ?thesis by (simp add: push_bit_eq_mult)
  qed
  have f: "flags_loop tf c [20..<25] 0 n
      = Inr (n + sum_list (map (\<lambda>k. of_bool (bit c k \<noteq> (levels v ! k = High) \<and> k \<notin> set ig)) [0..<5]))" for c n
    using flags_count [OF assms(2,3)] assms(4) by blast
  note t = doToggleCmd_nano [OF assms(1), of "''1 B''", OF toggle_args(1)] doToggleCmd_nano [OF assms(1), of "''1 0''", OF toggle_args(2)]
    doToggleCmd_nano [OF assms(1), of "''1 7''", OF toggle_args(3)] doGetCmd_nano [OF assms(1), of "''C''", OF get_args(1)]
    doGetCmd_nano [OF assms(1), of "''1''", OF get_args(2)] doGetCmd_nano [OF assms(1), of "''9''", OF get_args(3)]
  show ?thesis
    unfolding applyPLCC_def operand_A [OF assms(2,3)] operand_B [OF assms(2,3)] controls [OF assms(2,3)]
      expected_F [OF assms(2,3)] f g
    using c t [simplified] by (simp add: set_port_nano [OF assms(1)] digits check_vector_def run_cmds_def vector_cmds_def failures_def case_prod_beta Let_def)
qed

section \<open>Vector files\<close>

lemma split_word: "CHR '' '' \<notin> set w \<Longrightarrow> split_spaces (w @ '' '' @ r) = w # split_spaces r" "CHR '' '' \<notin> set w \<Longrightarrow> split_spaces w = [w]"
  by (induction w) auto

lemma split_join: "ws \<noteq> [] \<Longrightarrow> \<forall>w \<in> set ws. CHR '' '' \<notin> set w \<Longrightarrow> split_spaces (join_spaces ws) = ws"
proof (induction ws rule: join_spaces.induct)
  case (3 w u us)
  then show ?case using split_word(1) [of w] by simp
qed (simp_all add: split_word)

lemma fmt_no_space: "CHR '' '' \<notin> set (fmt_X 4 (unat (w :: u16)))"
proof -
  have "unat w < 16 ^ 4" using unsigned_less [of w] by simp
  from fmt_X_hex(2) [OF this] show ?thesis using hex_digit_space [of "CHR '' ''"] by (auto simp: list_all_iff isSpace_def)
qed

lemma words_no_space: "w \<in> set (vector_words v) \<Longrightarrow> CHR '' '' \<notin> set w"
proof -
  have "CHR '' '' \<notin> set (level_text l)" for l by (cases l) simp_all
  moreover have "CHR '' '' \<notin> set (bit_text b)" for b by (simp add: bit_text_def)
  moreover assume "w \<in> set (vector_words v)"
  ultimately show ?thesis using fmt_no_space by (auto simp: vector_words_def)
qed

lemma split_vector_line: "split_spaces (vector_line v) = vector_words v"
  unfolding vector_line_def using words_no_space by (intro split_join) (auto simp: vector_words_def)

lemma vector_line_start: "vector_line v = CHR ''%'' # tl (vector_line v)"
  by (simp add: vector_line_def vector_words_def)

lemma Clear_views: "views T F I tf \<Longrightarrow> views {} {} I (Clear tf)"
  using New_ok by (simp add: views_def Clear_def)

lemma parse_vector:
  assumes "wf_vector v" "views T F I tf"
  shows "\<exists>tf'. parseVector (Clear tf) (vector_words v) = Inr (Inr tf') \<and> views (tos v) (froms v) (I \<union> at 0 (cells v) Ignored) tf'"
proof -
  have l: "0 + length (concat (word_cell_lists v)) \<le> 72" using length_cells [OF assms(1)] by (simp add: concat_cells)
  obtain tf' where t: "vector_tokens (vector_words v) 0 (Clear tf) = Inr (Inr (68, tf'))"
    "views (tos v) (froms v) (I \<union> at 0 (cells v) Ignored) tf'"
    using reads_all [OF reads_words Clear_views [OF assms(2)] _ l] length_cells [OF assms(1)] by (auto simp: concat_cells)
  then have "tf_size tf' = 68" by (simp add: views_def)
  then show ?thesis using t by (simp add: parseVector_def)
qed

lemma any_flags_set: "k < 5 \<Longrightarrow> k \<in> set (any_flags v @ ig) \<longleftrightarrow> levels v ! k = Any \<or> k \<in> set ig"
  by (simp add: any_flags_def)

lemma scan_vectors:
  assumes "protocol step"
  shows "\<forall>v \<in> set vs. wf_vector v \<Longrightarrow> views T F I tf \<Longrightarrow> (\<And>k. k < 5 \<Longrightarrow> 19 + k \<in> I \<longleftrightarrow> k \<in> set ig) \<Longrightarrow>
    scan (map vector_line vs) (Some tf) n (nano step d)
    = returnR (n + fst (check_vectors step ig vs d)) (nano step (snd (check_vectors step ig vs d)))"
proof (induction vs arbitrary: T F I tf ig n d)
  case (Cons v vs)
  have w: "wf_vector v" "\<forall>u \<in> set vs. wf_vector u" using Cons.prems(1) by simp_all
  let ?I = "I \<union> at 0 (cells v) Ignored" and ?ig = "any_flags v @ ig"
  obtain tf' where p: "parseVector (Clear tf) (vector_words v) = Inr (Inr tf')" "views (tos v) (froms v) ?I tf'"
    using parse_vector [OF w(1) Cons.prems(2)] by blast
  have i: "19 + k \<in> ?I \<longleftrightarrow> k \<in> set ?ig" if "k < 5" for k
    unfolding any_flags_set [OF that] using Cons.prems(3) [OF that] tos_froms(7) [OF w(1) that] by blast
  have s: "socket tf' = ''PLCC''" using p(2) by (simp add: views_def)
  have h: "vector_words v ! 0 \<noteq> ''socket''" by (simp add: vector_words_def)
  have "scan (map vector_line (v # vs)) (Some tf) n (nano step d)
    = bindR (applyPLCC tf' (nano step d)) (\<lambda>e a. scan (map vector_line vs) (Some tf') (n + e) a)"
    using vector_line_start [of v] p(1) s h
    by (cases "vector_line v") (simp_all add: split_vector_line [symmetric] applyVector_def Let_def del: split_spaces.simps)
  then show ?case using applyPLCC_nano [OF assms w(1) p(2) i] Cons.IH [OF w(2) p(2) i]
    by (simp add: case_prod_beta Let_def add.assoc del: scan.simps)
qed (simp add: returnR_def)

end
