(* ===== verification/Exerciser.thy ===== *)
theory Exerciser
  imports Cex_Plcc
begin

text \<open>
  The properties of the chip exerciser: running vector files, and vectors with a clock.
\<close>

section \<open>One-pin tokens\<close>

definition one_pin :: "string \<Rightarrow> bool" where
  "one_pin t \<longleftrightarrow> (case t of [] \<Rightarrow> False | c # _ \<Rightarrow> c \<in> set ''01LHCXGV'')"

definition clocks :: "string list \<Rightarrow> nat" where
  "clocks ts = length (filter (\<lambda>t. hd t = CHR ''C'') ts)"

definition file_ok :: "TestFile \<Rightarrow> bool" where
  "file_ok tf \<longleftrightarrow> tf_size tf = 68 \<and> vec_ok (toUUT tf) \<and> vec_ok (fromUUT tf) \<and> vec_ok (ignored tf)"

lemma one_pin_cases:
  assumes "one_pin t"
  obtains c r where "t = c # r" "c = CHR ''0'' \<or> c = CHR ''1'' \<or> c = CHR ''L'' \<or> c = CHR ''H'' \<or> c = CHR ''C'' \<or> c = CHR ''X'' \<or> c = CHR ''G'' \<or> c = CHR ''V''"
proof (cases t)
  case (Cons c r)
  then have "c \<in> set ''01LHCXGV''" using assms by (simp add: one_pin_def)
  then show ?thesis using that [OF Cons] by simp
qed (use assms in \<open>simp add: one_pin_def\<close>)

lemma one_pin_token:
  assumes "one_pin t" "file_ok tf" "pos < 72"
  shows "\<exists>tf'. vector_token t pos tf = Inr (Inr (pos + (if hd t = CHR ''C'' then 0 else 1), tf')) \<and> file_ok tf'"
proof -
  have o: "vec_ok (toUUT tf)" "vec_ok (fromUUT tf)" "vec_ok (ignored tf)" "tf_size tf = 68" using assms(2) by (simp_all add: file_ok_def)
  obtain a where a: "SetBit pos (toUUT tf) = Inr a" "vec_ok a" using SetBit_ok [OF o(1) assms(3)] by blast
  obtain b where b: "ResetBit pos (toUUT tf) = Inr b" "vec_ok b" using ResetBit_ok [OF o(1) assms(3)] by blast
  obtain c where c: "SetBit pos (fromUUT tf) = Inr c" "vec_ok c" using SetBit_ok [OF o(2) assms(3)] by blast
  obtain d where d: "ResetBit pos (fromUUT tf) = Inr d" "vec_ok d" using ResetBit_ok [OF o(2) assms(3)] by blast
  obtain e where e: "SetBit pos (ignored tf) = Inr e" "vec_ok e" using SetBit_ok [OF o(3) assms(3)] by blast
  note s = a b c d e
  from assms(1) show ?thesis
    by (rule one_pin_cases, elim disjE)
      (simp_all add: vector_token_def SetToUUT_def ResetToUUT_def SetFromUUT_def ResetFromUUT_def SetIgnored_def SetClock_def file_ok_def o s Let_def)
qed

lemma clocks_Cons: "clocks (t # ts) = (if hd t = CHR ''C'' then Suc (clocks ts) else clocks ts)"
  by (simp add: clocks_def)

lemma one_pin_tokens:
  "list_all one_pin ts \<Longrightarrow> file_ok tf \<Longrightarrow> pos + length ts \<le> 72 \<Longrightarrow>
   \<exists>tf'. vector_tokens ts pos tf = Inr (Inr (pos + (length ts - clocks ts), tf')) \<and> file_ok tf'"
proof (induction ts arbitrary: pos tf)
  case (Cons t ts)
  have "one_pin t" "pos < 72" using Cons.prems by simp_all
  then obtain tf1 where 1: "vector_token t pos tf = Inr (Inr (pos + (if hd t = CHR ''C'' then 0 else 1), tf1))" "file_ok tf1"
    using one_pin_token [OF _ Cons.prems(2)] by blast
  have "pos + (if hd t = CHR ''C'' then 0 else 1) + length ts \<le> 72" using Cons.prems(3) by simp
  from Cons.IH [OF _ 1(2) this] Cons.prems(1) obtain tf2 where
    "vector_tokens ts (pos + (if hd t = CHR ''C'' then 0 else 1)) tf1
       = Inr (Inr (pos + (if hd t = CHR ''C'' then 0 else 1) + (length ts - clocks ts), tf2))" "file_ok tf2" by auto
  moreover have "clocks ts \<le> length ts" by (simp add: clocks_def)
  then have "pos + (if hd t = CHR ''C'' then 0 else 1) + (length ts - clocks ts) = pos + (length (t # ts) - clocks (t # ts))"
    by (simp add: clocks_Cons)
  ultimately show ?case using 1(1) by (intro exI [of _ tf2]) simp
qed (simp add: clocks_def)

section \<open>Properties\<close>





text \<open>
  (C40) A vector of 68 one-pin tokens for the PLCC socket is accepted exactly when it has no clock: a clock token does not
  move on to the next pin, so a vector with clocks has too few bits.
\<close>

theorem cex_clock_takes_no_pin:
  assumes "NewTestFile ''PLCC'' = Some tf" "list_all one_pin ts" "length ts = 68"
  shows "if clocks ts = 0 then \<exists>tf'. parseVector (Clear tf) ts = Inr (Inr tf') else parseVector (Clear tf) ts = Inr (Inl (WrongLength 68 (68 - clocks ts)))"
proof -
  have "file_ok (Clear tf)" using assms(1) New_ok by (auto simp: NewTestFile_def file_ok_def Clear_def Let_def)
  from one_pin_tokens [OF assms(2) this, of 0] assms(3) obtain tf' where
    "vector_tokens ts 0 (Clear tf) = Inr (Inr (68 - clocks ts, tf'))" "file_ok tf'" by auto
  moreover have "clocks ts \<le> 68" using assms(3) length_filter_le [of _ ts] by (auto simp: clocks_def)
  ultimately show ?thesis by (auto simp: parseVector_def file_ok_def)
qed

theorem cex_clock_takes_no_pin_witness:
  "\<exists>tf. NewTestFile ''PLCC'' = Some tf \<and> parseVector (Clear tf) (''C'' # replicate 67 ''0'') = Inr (Inl (WrongLength 68 67))"
proof -
  obtain tf where "NewTestFile ''PLCC'' = Some tf" by (simp add: NewTestFile_def Let_def)
  moreover have "list_all one_pin (''C'' # replicate 67 ''0'')" by (simp add: one_pin_def list_all_iff)
  ultimately show ?thesis using cex_clock_takes_no_pin [of tf "''C'' # replicate 67 ''0''"] by (simp add: clocks_def)
qed

end
