(* ===== verification/Spec2Isabelle.thy ===== *)
theory Spec2Isabelle
  imports Emulator Disassembler Compiler Assembler Exerciser
begin

text \<open>
  A verification of the software of the WUT-4, a 16-bit computer with two modes and paged memory. The repository holds its
  emulator (\<open>src/emul\<close>), the rules with which the third-party assembler \<open>customasm\<close> assembles for it
  (\<open>src/asm/asm\<close>), a disassembler (\<open>src/dsm\<close>) that the emulator also runs to show an instruction, the beginnings of a compiler
  for the language YAPL (\<open>src/yapl-1\<close>, and the same files again in \<open>src/yapl-2\<close>), the
  first assembler, which was written for a predecessor of the machine (\<open>src/SAVE/asm\<close>), and an exerciser for the chips
  of the machine: a host program (\<open>src/exer/cex\<close>) that sends commands over a serial line to the firmware of a microcontroller.

  \<^bold>\<open>Conventions.\<close> A Go function is a definition of the same name, in the order of the source, with the state it changes as
  argument and result. Machine integers are words of their width, so arithmetic wraps as in Go. A run-time panic, a failed
  assertion or the call of \<open>fatal\<close> is the left side of a sum (\<open>bindE\<close> sequences such results, \<open>idx\<close> and
  \<open>upd\<close> are the indexing of a slice with its bounds check). An error that a function returns is part of its
  result. A loop that the source bounds is recursion with a termination proof; a loop that may run for ever is
  a \<open>partial_function\<close> into \<open>option\<close>, whose value \<open>None\<close> is a run that does not return. No definition has fuel. Files, terminals and
  external commands are arguments of the definitions: the contents of a file is a list, with the error behind its last byte.

  \<^bold>\<open>Shared theories.\<close>
  \<^item> \<open>Prelude\<close>: words, results, the rules \<open>postE\<close> and \<open>panicE\<close> for them, checked slices, the verbs of \<open>fmt\<close>.
  \<^item> \<open>Interner\<close>: the contract of a symbol table as the locale \<open>interner\<close>, and \<open>total_interner\<close> for a table that has room for
    every key. \<open>Yapl_Table\<close> and \<open>Asm_Table\<close> interpret them on the tables of the two programs.

  \<^bold>\<open>The emulator\<close> (\<open>src/emul\<close>).
  \<^item> \<open>Machine\<close>: the record \<open>emu\<close> for \<open>w4_t\<close> and the package variables, register files and memory as lists, translation of
    addresses, reset, immediates, loading and core files (\<open>emul.go\<close>, \<open>util.go\<close>). \<open>Dump\<close>: the report of \<open>dump\<close>, and the call of the disassembler.
  \<^item> \<open>Exec\<close>: the five stages of a cycle and one definition for each instruction handler (\<open>exec.go\<close>).
  \<^item> \<open>Exec_Inv\<close>: what every handler keeps, proved for the dispatch tables through the locale \<open>handler_table\<close>, the invariant
    \<open>wf\<close> of the machine, traps, isolation and precision. \<open>Exec_Safe\<close>: the absence of panics.
  \<^item> \<open>ISA\<close>: the machine instructions as a data type, their codes, the reference decoder, and the aliases of \<open>src/asm/asm\<close>.
  \<^item> \<open>Arch\<close>: the architecture as a specification, \<open>arch_step\<close>, with the carry of additions and the alignment fault that the source
    names but the emulator does not have; the three departures of the emulator are \<open>emul_inst\<close> and \<open>departs\<close>, and \<open>emul_step\<close> is
    the step with them. \<open>Refine\<close>: a cycle of the emulator is such a step, one lemma for each class of instructions.
  \<^item> \<open>Simulate\<close>: loading and core files, the loop of the simulation, and its relation to the steps of the architecture. The relations
    \<open>cycle\<close> and \<open>ends\<close> there are one turn of the loop and its end, and only serve the proofs. \<open>Programs\<close>: assembled programs in memory.
  \<^item> \<open>Emulator\<close>: the properties C1 to C16 except C9. A cycle implements the architecture with the three departures (C1), for all
    instructions but \<open>lsp\<close>, \<open>ssp\<close> and \<open>brk\<close> and when no MMU entry of the mode has the value of C15, and so does the loop (C7); user
    code is isolated and cannot make the emulator panic; exceptions are precise; traps and their return are inverse;
    the panics that remain are listed; a program runs from its file to its end. C13 to C16 state defects.

  \<^bold>\<open>The disassembler\<close> (\<open>src/dsm/dsm.go\<close>).
  \<^item> \<open>Dsm\<close>: the opcode table, the decoding of a word, the three passes, the command line, and the parts of \<open>strings\<close> and
    \<open>strconv\<close> that it calls. \<open>Dsm_Print\<close>: a reference printer.
  \<^item> \<open>Asm_Rules\<close>: the rule set \<open>src/asm/asm\<close> as a data type of statements, one constructor for each rule, with the code and the
    assertions of each, and a reader for lines of one statement with registers and unsigned literals. \<open>Dsm_List\<close>: a
    specification of the listing, the proof that the passes give it, and the sources that come back from a listing.
  \<^item> \<open>Disassembler\<close>: the properties C17 to C23 and C9, on the words the rules can give: equivalence with the reference, round trips of
    words and of whole sources through the rules, the interplay with the emulator, and two defects.

  \<^bold>\<open>The YAPL compiler\<close> (\<open>src/yapl-1\<close>).
  \<^item> \<open>Yapl\<close> (\<open>types.go\<close>, \<open>error.go\<close>, \<open>io.go\<close>), \<open>Yapl_Sym\<close> (\<open>sym.go\<close>), \<open>Yapl_Lex\<close> (\<open>lex.go\<close>), \<open>Yapl_Parse\<close> (\<open>parse.go\<close>, \<open>yc.go\<close>):
    the record \<open>yc\<close> holds the tables, which are arrays with a bounds check, the input and the output.
  \<^item> \<open>Yapl_Table\<close>: the invariant of the symbol table and its interpretation as an interner; \<open>Yapl_Scan\<close>: tokens stand for characters;
    \<open>Yapl_Tree\<close>: the parser against a reference parser on characters, and its divergence after read errors.
  \<^item> \<open>Compiler\<close>: the properties C24 and C26 to C31. The functions \<open>function\<close> and \<open>assign\<close> are stubs in the source, which is why the
    reference parser \<open>decls\<close> ends a declaration at an equals sign.

  \<^bold>\<open>The first assembler\<close> (\<open>src/SAVE/asm\<close>).
  \<^item> \<open>Asm_Lexer\<close> (\<open>pbr.go\<close>, \<open>lexer.go\<close>), \<open>Asm_Sym\<close> (the tables of \<open>asm.go\<close>, \<open>sym.go\<close>), \<open>Asm_Parser\<close> (\<open>parser.go\<close>, \<open>generator.go\<close>, \<open>main\<close>).
  \<^item> \<open>Asm_Scan\<close>: progress of the lexer and the tokens of a layout; \<open>Asm_Table\<close>: the symbol table; \<open>Asm_Tree\<close>: the invariant of the parser,
    termination and divergence; \<open>Asm_Program\<close>: programs as data, and the instructions the parser gives for them.
    A read error is taken to come back on every later read, and the counters of \<open>parserContext\<close> are natural numbers, since they only grow.
  \<^item> \<open>Assembler\<close>: the properties C32 to C39. C32 is on programs of machine instructions whose operands have the kinds and sizes of their
    fields; C39 is what happens to the pseudo-operations.

  \<^bold>\<open>The chip exerciser\<close> (\<open>src/exer/cex\<close>).
  \<^item> \<open>Cex_Dev\<close> (\<open>dev\<close>): bytes and commands over the serial line and the setup of a session; the methods of the port, which is a
    third-party package, are fields of a record. \<open>Cex_Vector\<close> (\<open>utils\<close>, \<open>main.go\<close>, \<open>vector.go\<close>): bit vectors, the commands, vector files.
  \<^item> \<open>Cex_Check\<close>: commands to a device that keeps to the protocol, and bit vectors as sets of pins. \<open>Cex_Plcc\<close>: vectors for the
    ALU chip in the PLCC socket, the commands they stand for and the failures that are counted.
  \<^item> \<open>Exerciser\<close>: the properties C25, a run of a vector file, and C40, a defect.

  \<^bold>\<open>Bounds.\<close> The properties hold for inputs of every size except where the program has a limit: C24 and C26 name the assertion
  on more than 2047 nodes, C32 and C36 the 32766 entries of the symbol table, C32 also the 65536 instructions that \<open>dot\<close> can count.

  \<^bold>\<open>Not modelled.\<close> Signals, profiling and wall-clock time of the emulator; debug output and stack traces everywhere; the parsing
  of command line flags. Of the input language of \<open>customasm\<close>, labels, expressions, comments and directives. Delays, log messages and the interactive
  terminal of the exerciser, and its firmware (\<open>src/exer/fw\<close>): what C25 needs of the device behind the serial line is the hypothesis
  \<open>protocol\<close>. \<open>src/itf\<close> only starts other programs. \<open>src/SAVE/sim\<close> and \<open>src/SAVE/yapl-0\<close>
  are separate, superseded programs: a circuit simulator that writes a binary log, and
  an early lexer. \<open>src/dig\<close> and \<open>src/ki\<close> hold drawings of circuits.
\<close>

end
